(* ===== verification/Prelude.thy ===== *)
theory Prelude
  imports Complex_Main "HOL-Library.AList" "HOL-Library.Multiset"
begin

text \<open>
  Shared vocabulary of the development.

  \<^item> Types: \<open>time\<close> is an instant, counted in nanoseconds from Go's zero time
    (0001-01-01T00:00:00 UTC), so that \<open>t.IsZero()\<close> is \<open>t = 0\<close>; \<open>duration\<close> is Go's
    \<^verbatim>\<open>time.Duration\<close> in nanoseconds; \<open>addr\<close> is the address of a heap object, an index into
    the list of objects allocated so far.
  \<^item> Go's 64-bit \<^verbatim>\<open>int\<close> is an \<open>int\<close> with the wrap-around of \<open>wrap64\<close> written where the
    source's arithmetic can leave the 64-bit range.
  \<^item> The collections \<open>go_simps\<close> (definitions of the standard-library operations that proofs
    unfold) and \<open>inv_intros\<close> (preservation lemmas of the components' invariants).
  \<^item> The locale \<open>kept_by_steps\<close>: an invariant kept by one step is kept by every run.
\<close>

named_theorems go_simps "standard-library operations that proofs unfold"
named_theorems inv_intros "preservation of the components' invariants"

type_synonym time = int
type_synonym duration = int
type_synonym addr = nat

definition millisecond :: duration where
  "millisecond = 1000000"

definition second :: duration where
  "second = 1000000000"

definition minute :: duration where
  "minute = 60 * second"

definition hour :: duration where
  "hour = 3600 * second"

lemma second_pos [simp]: "0 < second"
  by (simp add: second_def)

lemma minute_pos [simp]: "0 < minute"
  by (simp add: minute_def second_def)

lemma hour_pos [simp]: "0 < hour"
  by (simp add: hour_def second_def)

text \<open>Two's complement wrap-around of Go's 64-bit \<^verbatim>\<open>int\<close> and \<^verbatim>\<open>int64\<close>.\<close>

definition wrap64 :: "int \<Rightarrow> int" where
  "wrap64 x = (x + 2 ^ 63) mod 2 ^ 64 - 2 ^ 63"

lemma wrap64_id: "- (2 ^ 63) \<le> x \<Longrightarrow> x < 2 ^ 63 \<Longrightarrow> wrap64 x = x"
  by (simp add: wrap64_def)

lemma wrap64_range: "- (2 ^ 63) \<le> wrap64 x \<and> wrap64 x < 2 ^ 63"
proof -
  have "0 \<le> (x + 2 ^ 63) mod (2 ^ 64 :: int)" "(x + 2 ^ 63) mod (2 ^ 64 :: int) < 2 ^ 64"
    by simp_all
  then show ?thesis unfolding wrap64_def by simp
qed

text \<open>Effects sent to the Prometheus client library, recorded in the order of the calls.\<close>

datatype metric_op =
    MInc string "string list"
  | MDec string "string list"
  | MSet string int
  | MObserve string "string list" int

text \<open>JSON values, as \<^verbatim>\<open>encoding/json\<close> decodes them into \<^verbatim>\<open>interface{}\<close> and as the
  handlers encode them; the order of members has no meaning. Time stamps keep their instant.\<close>

datatype json =
    JNull
  | JBool bool
  | JNum int
  | JReal real
  | JStr string
  | JTime time
  | JArr "json list"
  | JObj "(string \<times> json) list"

text \<open>What \<^verbatim>\<open>os.WriteFile\<close> leaves on disk: the data, or on failure whatever remains.\<close>

datatype write_outcome = WriteOk | WriteFailed "string option"

definition write_file :: "write_outcome \<Rightarrow> string \<Rightarrow> string option" where
  "write_file w data = (case w of WriteOk \<Rightarrow> Some data | WriteFailed left \<Rightarrow> left)"

subsection \<open>Lists\<close>

lemma map_of_filter_snd:
  "distinct (map fst m) \<Longrightarrow>
    map_of (filter (\<lambda>(k, v). P k v) m) k = (case map_of m k of None \<Rightarrow> None | Some v \<Rightarrow> if P k v then Some v else None)"
proof (induction m)
  case Nil
  then show ?case by simp
next
  case (Cons a m)
  obtain k' v' where a: "a = (k', v')" by (cases a)
  have no: "map_of m k = None" if "k = k'"
    using Cons.prems that a by (simp add: map_of_eq_None_iff)
  show ?case using Cons a no by (auto split: option.splits)
qed

subsection \<open>Invariants of step relations\<close>

locale kept_by_steps =
  fixes step :: "'s \<Rightarrow> 's \<Rightarrow> bool"
    and inv :: "'s \<Rightarrow> bool"
  assumes step_keeps: "inv s \<Longrightarrow> step s t \<Longrightarrow> inv t"
begin

lemma run_keeps: "step\<^sup>*\<^sup>* s t \<Longrightarrow> inv s \<Longrightarrow> inv t"
  by (induction rule: rtranclp_induct) (auto intro: step_keeps)

lemma run_keeps_trans: "step\<^sup>*\<^sup>* s t \<Longrightarrow> step\<^sup>*\<^sup>* t u \<Longrightarrow> inv s \<Longrightarrow> inv u"
  by (rule run_keeps [OF rtranclp_trans])

end

end
