(* ===== verification/Go_Map.thy ===== *)
theory Go_Map
  imports Prelude
begin

text \<open>
  Go's built-in \<^verbatim>\<open>map\<close>, as an association list with distinct keys. The list order
  stands for the order in which a \<^verbatim>\<open>for range\<close> loop visits the map at that moment: Go
  leaves it unspecified, so the theorems are stated for every list, and the step relations
  of the components contain a step that permutes it. The locale \<open>finite_map\<close> is the
  contract the components use; its interpretation \<open>gm\<close> discharges it for association lists.
\<close>

type_synonym ('k, 'v) gomap = "('k \<times> 'v) list"

definition gm_get :: "('k, 'v) gomap \<Rightarrow> 'k \<Rightarrow> 'v option" where
  "gm_get m k = map_of m k"

definition gm_put :: "'k \<Rightarrow> 'v \<Rightarrow> ('k, 'v) gomap \<Rightarrow> ('k, 'v) gomap" where
  "gm_put k v m = AList.update k v m"

definition gm_del :: "'k \<Rightarrow> ('k, 'v) gomap \<Rightarrow> ('k, 'v) gomap" where
  "gm_del k m = AList.delete k m"

definition gm_len :: "('k, 'v) gomap \<Rightarrow> nat" where
  "gm_len m = length m"

definition gm_wf :: "('k, 'v) gomap \<Rightarrow> bool" where
  "gm_wf m \<longleftrightarrow> distinct (map fst m)"

text \<open>\<^verbatim>\<open>for k, v := range m { if !keep(k, v) { delete(m, k) } }\<close>\<close>

definition gm_filter :: "('k \<Rightarrow> 'v \<Rightarrow> bool) \<Rightarrow> ('k, 'v) gomap \<Rightarrow> ('k, 'v) gomap" where
  "gm_filter keep m = filter (\<lambda>(k, v). keep k v) m"

subsection \<open>The contract of a finite map\<close>

locale finite_map =
  fixes empty :: "'m"
    and get :: "'m \<Rightarrow> 'k \<Rightarrow> 'v option"
    and put :: "'k \<Rightarrow> 'v \<Rightarrow> 'm \<Rightarrow> 'm"
    and del :: "'k \<Rightarrow> 'm \<Rightarrow> 'm"
    and len :: "'m \<Rightarrow> nat"
    and wf :: "'m \<Rightarrow> bool"
  assumes wf_empty: "wf empty"
    and get_empty: "get empty k = None"
    and len_empty: "len empty = 0"
    and wf_put: "wf m \<Longrightarrow> wf (put k v m)"
    and wf_del: "wf m \<Longrightarrow> wf (del k m)"
    and get_put: "get (put k v m) k' = (if k' = k then Some v else get m k')"
    and get_del: "get (del k m) k' = (if k' = k then None else get m k')"
    and len_put: "wf m \<Longrightarrow> len (put k v m) = (if get m k = None then Suc (len m) else len m)"
    and len_del: "wf m \<Longrightarrow> len (del k m) = (if get m k = None then len m else len m - 1)"
begin

lemma len_put_le: "wf m \<Longrightarrow> len (put k v m) \<le> Suc (len m)"
  by (simp add: len_put)

lemma len_put_ge: "wf m \<Longrightarrow> len m \<le> len (put k v m)"
  by (simp add: len_put)

lemma len_del_le: "wf m \<Longrightarrow> len (del k m) \<le> len m"
  by (simp add: len_del)

lemma get_put_same: "get (put k v m) k = Some v"
  by (simp add: get_put)

lemma get_put_other: "k' \<noteq> k \<Longrightarrow> get (put k v m) k' = get m k'"
  by (simp add: get_put)

lemma len_del_put:
  "wf m \<Longrightarrow> get m k' = Some w \<Longrightarrow> len (del k' (put k v m)) \<le> len m"
  by (simp add: len_del len_put wf_put get_put)

end

lemma gm_wf_update: "gm_wf m \<Longrightarrow> gm_wf (gm_put k v m)"
  by (simp add: gm_wf_def gm_put_def distinct_update)

lemma gm_len_delete:
  assumes "gm_wf m"
  shows "gm_len (gm_del k m) = (if gm_get m k = None then gm_len m else gm_len m - 1)"
  using assms
proof (induction m)
  case Nil
  then show ?case by (simp add: gm_len_def gm_del_def gm_get_def)
next
  case (Cons a m)
  have m: "gm_wf m" using Cons.prems by (simp add: gm_wf_def)
  note IH = Cons.IH [OF m, unfolded gm_len_def gm_del_def gm_get_def]
  show ?case
  proof (cases "fst a = k")
    case True
    with Cons.prems have "k \<notin> fst ` set m" by (auto simp: gm_wf_def)
    then have "AList.delete k m = m" by (simp add: delete_id)
    with True show ?thesis by (cases a) (simp add: gm_len_def gm_del_def gm_get_def)
  next
    case False
    have "0 < length m" if "map_of m k \<noteq> None"
      using that by (cases m) auto
    with False IH show ?thesis
      by (cases a) (auto simp: gm_len_def gm_del_def gm_get_def)
  qed
qed

lemma gm_len_update:
  "gm_len (gm_put k v m) = (if gm_get m k = None then Suc (gm_len m) else gm_len m)"
  by (induction m) (auto simp: gm_len_def gm_put_def gm_get_def)

lemma gm_wf_delete: "gm_wf m \<Longrightarrow> gm_wf (gm_del k m)"
  by (simp add: gm_wf_def gm_del_def distinct_delete)

lemma gm_get_update: "gm_get (gm_put k v m) k' = (if k' = k then Some v else gm_get m k')"
  by (simp add: gm_get_def gm_put_def update_conv)

lemma gm_get_delete: "gm_get (gm_del k m) k' = (if k' = k then None else gm_get m k')"
  by (simp add: gm_get_def gm_del_def delete_conv)

interpretation gm: finite_map "[]" gm_get gm_put gm_del gm_len gm_wf
  by unfold_locales
    (simp_all add: gm_wf_update gm_wf_delete gm_get_update gm_get_delete gm_len_update
      gm_len_delete, simp_all add: gm_wf_def gm_get_def gm_len_def)

lemmas gm_laws = gm.get_put gm.get_del gm.len_put gm.len_del gm.wf_put gm.wf_del

subsection \<open>Filtering loops\<close>

lemma gm_wf_filter [inv_intros]: "gm_wf m \<Longrightarrow> gm_wf (gm_filter P m)"
  by (auto simp: gm_wf_def gm_filter_def distinct_map inj_on_def)

lemma gm_len_filter: "gm_len (gm_filter P m) \<le> gm_len m"
  by (simp add: gm_len_def gm_filter_def)

lemma gm_get_filter:
  "gm_wf m \<Longrightarrow> gm_get (gm_filter P m) k =
    (case gm_get m k of None \<Rightarrow> None | Some v \<Rightarrow> if P k v then Some v else None)"
  unfolding gm_wf_def gm_get_def gm_filter_def by (rule map_of_filter_snd)

lemma gm_get_in_set: "gm_get m k = Some v \<Longrightarrow> (k, v) \<in> set m"
  by (simp add: gm_get_def map_of_SomeD)

lemma gm_in_set_get: "gm_wf m \<Longrightarrow> (k, v) \<in> set m \<Longrightarrow> gm_get m k = Some v"
  by (simp add: gm_get_def gm_wf_def)

lemma gm_set_put: "gm_wf m \<Longrightarrow> set (gm_put k v m) = insert (k, v) {p \<in> set m. fst p \<noteq> k}"
proof (induction m)
  case Nil
  then show ?case by (simp add: gm_put_def)
next
  case (Cons a m)
  then show ?case by (cases a) (auto simp: gm_put_def gm_wf_def rev_image_eqI)
qed

lemma gm_set_del: "set (gm_del k m) = {p \<in> set m. fst p \<noteq> k}"
  by (induction m) (auto simp: gm_del_def)

text \<open>A permutation of the list is the same map.\<close>

lemma gm_perm_wf: "mset m = mset m' \<Longrightarrow> gm_wf m \<longleftrightarrow> gm_wf m'"
  unfolding gm_wf_def by (metis mset_map mset_eq_imp_distinct_iff)

lemma gm_perm_len: "mset m = mset m' \<Longrightarrow> gm_len m = gm_len m'"
  unfolding gm_len_def by (metis size_mset)

lemma gm_perm_get: "gm_wf m \<Longrightarrow> mset m = mset m' \<Longrightarrow> gm_get m k = gm_get m' k"
  by (metis gm_wf_def gm_perm_wf gm_get_def mset_eq_setD map_of_eq_Some_iff not_Some_eq)

lemmas gm_perm = gm_perm_wf gm_perm_len gm_perm_get

end
