(* ===== verification/Go_Strings.thy ===== *)
theory Go_Strings
  imports Prelude "HOL-Library.Sublist"
begin

text \<open>
  The operations of Go's \<^verbatim>\<open>strings\<close> and \<^verbatim>\<open>strconv\<close> packages that the program uses,
  under their Go names. A Go string is a byte sequence and a \<open>string\<close> here is a list of
  8-bit characters, so lengths and indices agree. \<open>ToLower\<close> and the white-space tests act
  on the ASCII range and leave bytes above 127 alone; on such bytes Go decodes UTF-8 first.
  An index of \<open>-1\<close> in Go is \<open>None\<close> here.
\<close>

definition HasPrefix :: "string \<Rightarrow> string \<Rightarrow> bool" where
  "HasPrefix s p \<longleftrightarrow> take (length p) s = p"

definition HasSuffix :: "string \<Rightarrow> string \<Rightarrow> bool" where
  "HasSuffix s p \<longleftrightarrow> length p \<le> length s \<and> drop (length s - length p) s = p"

definition TrimPrefix :: "string \<Rightarrow> string \<Rightarrow> string" where
  "TrimPrefix s p = (if HasPrefix s p then drop (length p) s else s)"

definition TrimSuffix :: "string \<Rightarrow> string \<Rightarrow> string" where
  "TrimSuffix s p = (if HasSuffix s p then take (length s - length p) s else s)"

fun Index :: "string \<Rightarrow> string \<Rightarrow> nat option" where
  "Index [] sub = (if sub = [] then Some 0 else None)"
| "Index (c # s) sub =
     (if HasPrefix (c # s) sub then Some 0 else map_option Suc (Index s sub))"

definition Contains :: "string \<Rightarrow> string \<Rightarrow> bool" where
  "Contains s sub \<longleftrightarrow> Index s sub \<noteq> None"

text \<open>\<^verbatim>\<open>strings.Split\<close> with a one-byte separator, and \<^verbatim>\<open>strings.SplitN(s, sep, 2)\<close>.\<close>

fun cons_first :: "char \<Rightarrow> string list \<Rightarrow> string list" where
  "cons_first x [] = [[x]]"
| "cons_first x (p # ps) = (x # p) # ps"

fun Split :: "string \<Rightarrow> char \<Rightarrow> string list" where
  "Split [] c = [[]]"
| "Split (x # s) c = (if x = c then [] # Split s c else cons_first x (Split s c))"

lemma cons_first_hd_tl: "ps \<noteq> [] \<Longrightarrow> cons_first x ps = (x # hd ps) # tl ps"
  by (cases ps) auto

lemma cons_first_not_Nil [simp]: "cons_first x ps \<noteq> []"
  by (cases ps) auto

definition SplitN2 :: "string \<Rightarrow> char \<Rightarrow> string list" where
  "SplitN2 s c =
     (let a = takeWhile (\<lambda>x. x \<noteq> c) s
      in if length a = length s then [s] else [a, drop (Suc (length a)) s])"

fun Join :: "string list \<Rightarrow> string \<Rightarrow> string" where
  "Join [] sep = []"
| "Join [x] sep = x"
| "Join (x # y # xs) sep = x @ sep @ Join (y # xs) sep"

definition isSpace :: "char \<Rightarrow> bool" where
  "isSpace c \<longleftrightarrow> c = CHR '' '' \<or> c = CHR 0x09 \<or> c = CHR 0x0A \<or> c = CHR 0x0B \<or> c = CHR 0x0C \<or> c = CHR 0x0D"

definition TrimRightFunc :: "(char \<Rightarrow> bool) \<Rightarrow> string \<Rightarrow> string" where
  "TrimRightFunc p s = rev (dropWhile p (rev s))"

definition TrimSpace :: "string \<Rightarrow> string" where
  "TrimSpace s = TrimRightFunc isSpace (dropWhile isSpace s)"

text \<open>\<^verbatim>\<open>strings.Fields\<close>: the maximal runs of non-space bytes.\<close>

function Fields :: "string \<Rightarrow> string list" where
  "Fields s =
     (let t = dropWhile isSpace s
      in if t = [] then []
         else takeWhile (\<lambda>c. \<not> isSpace c) t # Fields (dropWhile (\<lambda>c. \<not> isSpace c) t))"
  by pat_completeness auto

lemma dropWhile_drops: "t \<noteq> [] \<Longrightarrow> P (hd t) \<Longrightarrow> length (dropWhile P t) < length t"
  by (cases t) (auto simp: le_imp_less_Suc length_dropWhile_le)

lemma hd_dropWhile_not: "dropWhile P s \<noteq> [] \<Longrightarrow> \<not> P (hd (dropWhile P s))"
  by (rule hd_dropWhile)

termination Fields
proof (relation "measure length", goal_cases)
  case (2 s t)
  have "length (dropWhile (\<lambda>c. \<not> isSpace c) t) < length t"
    using 2 hd_dropWhile_not [of isSpace s] by (intro dropWhile_drops) auto
  moreover have "length t \<le> length s"
    using 2 by (simp add: length_dropWhile_le)
  ultimately show ?case by simp
qed simp

declare Fields.simps [simp del]

definition to_lower_char :: "char \<Rightarrow> char" where
  "to_lower_char c =
     (if 65 \<le> (of_char c :: nat) \<and> (of_char c :: nat) \<le> 90 then char_of ((of_char c :: nat) + 32) else c)"

definition ToLower :: "string \<Rightarrow> string" where
  "ToLower s = map to_lower_char s"

text \<open>\<^verbatim>\<open>strings.Count\<close> with a non-empty substring: non-overlapping occurrences.\<close>

function Count :: "string \<Rightarrow> string \<Rightarrow> nat" where
  "Count s sub =
     (if sub = [] then Suc (length s)
      else case Index s sub of
        None \<Rightarrow> 0
      | Some i \<Rightarrow> Suc (Count (drop (i + length sub) s) sub))"
  by pat_completeness auto

lemma HasPrefix_length: "HasPrefix s p \<Longrightarrow> length p \<le> length s"
  unfolding HasPrefix_def by (metis length_take min.cobounded1)

lemma Index_Some: "Index s sub = Some i \<Longrightarrow> i + length sub \<le> length s \<and> take (length sub) (drop i s) = sub"
proof (induction s arbitrary: i)
  case Nil
  then show ?case by (auto split: if_splits)
next
  case (Cons c s)
  then show ?case
    using HasPrefix_length [of "c # s" sub] by (auto simp: HasPrefix_def split: if_splits)
qed

termination Count
proof (relation "measure (\<lambda>(s, sub). length s)", goal_cases)
  case (2 s sub i)
  then have "i + length sub \<le> length s" "0 < length sub"
    using Index_Some by auto
  then show ?case by (simp del: length_greater_0_conv)
qed simp

declare Count.simps [simp del]

text \<open>Decimal printing of \<^verbatim>\<open>int\<close> (\<^verbatim>\<open>%d\<close>, \<^verbatim>\<open>strconv.Itoa\<close>).\<close>

definition digit_char :: "nat \<Rightarrow> char" where
  "digit_char d = char_of (48 + d)"

fun show_nat :: "nat \<Rightarrow> string" where
  "show_nat n = (if n < 10 then [digit_char n] else show_nat (n div 10) @ [digit_char (n mod 10)])"

declare show_nat.simps [simp del]

definition Itoa :: "int \<Rightarrow> string" where
  "Itoa n = (if n < 0 then CHR ''-'' # show_nat (nat (- n)) else show_nat (nat n))"

subsection \<open>Prefixes, suffixes, substrings\<close>

text \<open>\<^verbatim>\<open>time.Duration.String\<close>: \<open>frac_digits\<close> prints \<open>v\<close> with \<open>n\<close> digits and \<open>fmt_frac\<close> the
  fraction without its trailing zeros.\<close>

fun frac_digits :: "nat \<Rightarrow> int \<Rightarrow> string" where
  "frac_digits 0 v = []"
| "frac_digits (Suc n) v = frac_digits n (v div 10) @ [digit_char (nat (v mod 10))]"

definition fmt_frac :: "nat \<Rightarrow> int \<Rightarrow> string" where
  "fmt_frac prec v =
     (let f = TrimRightFunc (\<lambda>c. c = CHR ''0'') (frac_digits prec (v mod 10 ^ prec))
      in if f = [] then [] else CHR ''.'' # f)"

definition duration_String :: "duration \<Rightarrow> string" where
  "duration_String d =
     (let u = \<bar>d\<bar>; sign = (if d < 0 then ''-'' else '''') in
      if u = 0 then ''0s''
      else if u < 1000 then sign @ Itoa u @ ''ns''
      else if u < 1000000 then sign @ Itoa (u div 10 ^ 3) @ fmt_frac 3 u @ [CHR 0xC2, CHR 0xB5] @ ''s''
      else if u < 1000000000 then sign @ Itoa (u div 10 ^ 6) @ fmt_frac 6 u @ ''ms''
      else let s = u div 10 ^ 9; m = s div 60; h = m div 60 in
        sign @ (if 0 < h then Itoa h @ ''h'' else '''')
             @ (if 0 < m then Itoa (m mod 60) @ ''m'' else '''')
             @ Itoa (s mod 60) @ fmt_frac 9 u @ ''s'')"

lemma HasPrefix_prefix: "HasPrefix s p \<longleftrightarrow> prefix p s"
  unfolding HasPrefix_def prefix_def by (metis append_eq_conv_conj append_take_drop_id)

lemma HasSuffix_suffix: "HasSuffix s p \<longleftrightarrow> suffix p s"
  unfolding HasSuffix_def suffix_def
  by (metis append_take_drop_id append_eq_conv_conj diff_add_inverse2 le_add2 length_append)

lemma HasPrefix_append [simp]: "HasPrefix (p @ s) p"
  by (simp add: HasPrefix_def)

lemma TrimPrefix_append [simp]: "TrimPrefix (p @ s) p = s"
  by (simp add: TrimPrefix_def)

lemma TrimSuffix_append [simp]: "TrimSuffix (s @ p) p = s"
  by (simp add: TrimSuffix_def HasSuffix_def)

lemma Contains_sublist: "Contains s sub \<longleftrightarrow> sublist sub s"
proof (induction s)
  case Nil
  then show ?case by (simp add: Contains_def)
next
  case (Cons c s)
  then show ?case by (simp add: Contains_def HasPrefix_prefix sublist_Cons_right)
qed

lemma Contains_append: "Contains (a @ sub @ b) sub"
  by (auto simp: Contains_sublist sublist_def)

lemma Contains_char: "Contains s [c] \<longleftrightarrow> c \<in> set s"
  by (auto simp: Contains_sublist sublist_def in_set_conv_decomp)

subsection \<open>Splitting and joining\<close>

lemma Split_not_Nil [simp]: "Split s c \<noteq> []"
  by (cases s) auto

lemma Join_Cons: "xs \<noteq> [] \<Longrightarrow> Join (x # xs) sep = x @ sep @ Join xs sep"
  by (cases xs) auto

lemma Join_hd: "xs \<noteq> [] \<Longrightarrow> Join ((x # hd xs) # tl xs) sep = x # Join xs sep"
proof (cases xs)
  case (Cons h t)
  then show ?thesis by (cases t) auto
qed simp

lemma Join_Split: "Join (Split s c) [c] = s"
  by (induction s) (auto simp: Join_Cons Join_hd cons_first_hd_tl)

lemma Split_no_sep: "t \<in> set (Split s c) \<Longrightarrow> c \<notin> set t"
proof (induction s arbitrary: t)
  case Nil
  then show ?case by simp
next
  case (Cons x s)
  have hd_in: "hd (Split s c) \<in> set (Split s c)" by simp
  show ?case
    using Cons.prems Cons.IH [OF hd_in] Cons.IH by (auto simp: cons_first_hd_tl split: if_splits dest: list.set_sel(2) [rotated])
qed

lemma SplitN2_two: "SplitN2 (a @ c # b) c = [a, b]" if "c \<notin> set a"
proof -
  have "takeWhile (\<lambda>x. x \<noteq> c) (a @ c # b) = a"
    using that by (subst takeWhile_append2) auto
  then show ?thesis by (simp add: SplitN2_def)
qed

lemma SplitN2_one: "SplitN2 s c = [s]" if "c \<notin> set s"
proof -
  have "takeWhile (\<lambda>x. x \<noteq> c) s = s"
    using that by (subst takeWhile_eq_all_conv) auto
  then show ?thesis unfolding SplitN2_def by (simp only: Let_def refl if_True)
qed

lemma SplitN2_cases:
  obtains "c \<notin> set s" "SplitN2 s c = [s]"
  | a b where "s = a @ c # b" "c \<notin> set a" "SplitN2 s c = [a, b]"
proof (cases "c \<in> set s")
  case True
  then obtain a b where "s = a @ c # b" "c \<notin> set a"
    by (meson split_list_first)
  then show ?thesis using that(2) SplitN2_two by blast
next
  case False
  then show ?thesis using that(1) SplitN2_one by blast
qed

subsection \<open>Case and white space\<close>

lemma to_lower_char_idem [simp]: "to_lower_char (to_lower_char c) = to_lower_char c"
  by (auto simp: to_lower_char_def)

lemma ToLower_idem [simp]: "ToLower (ToLower s) = ToLower s"
  by (simp add: ToLower_def)

lemma length_ToLower [simp]: "length (ToLower s) = length s"
  by (simp add: ToLower_def)

lemma ToLower_append: "ToLower (s @ t) = ToLower s @ ToLower t"
  by (simp add: ToLower_def)

lemma TrimSpace_sublist: "sublist (TrimSpace s) s"
proof -
  have "suffix (dropWhile isSpace s) s" by (rule suffix_dropWhile)
  moreover have "prefix (TrimSpace s) (dropWhile isSpace s)"
    unfolding TrimSpace_def TrimRightFunc_def
    by (metis suffix_dropWhile suffix_to_prefix rev_rev_ident)
  ultimately show ?thesis
    by (meson prefix_imp_sublist suffix_imp_sublist sublist_order.order_trans)
qed

lemma TrimSpace_length: "length (TrimSpace s) \<le> length s"
  using TrimSpace_sublist [THEN sublist_length_le] .

lemma show_nat_not_Nil [simp]: "show_nat n \<noteq> []"
  by (subst show_nat.simps) simp

end
