(* ===== verification/Sched_Validate.thy ===== *)
theory Sched_Validate
  imports Go_Map Go_Strings "HOL-Library.Word"
begin

unbundle bit_operations_syntax

text \<open>
  URL validation of \<^verbatim>\<open>internal/scheduler/validate.go\<close>, the server's guard against requests to
  internal addresses, with the predicates of Go's \<^verbatim>\<open>net.IP\<close> it uses. An address is a list of
  4 or 16 bytes. The record \<open>net_env\<close> holds what is outside the program: the URL parser
  (reduced to the scheme and the host name), the address parser and printer, and the resolver.
\<close>

type_synonym ip = "8 word list"

section \<open>The predicates of net.IP\<close>

definition To4 :: "ip \<Rightarrow> ip option" where
  "To4 i =
     (if length i = 4 then Some i
      else if length i = 16 \<and> take 10 i = replicate 10 0 \<and> i ! 10 = 0xFF \<and> i ! 11 = 0xFF then Some (drop 12 i)
      else None)"

definition IsUnspecified :: "ip \<Rightarrow> bool" where
  "IsUnspecified i \<longleftrightarrow> To4 i = Some (replicate 4 0) \<or> i = replicate 16 0"

definition IsLoopback :: "ip \<Rightarrow> bool" where
  "IsLoopback i = (case To4 i of Some v \<Rightarrow> v ! 0 = 127 | None \<Rightarrow> i = replicate 15 0 @ [1])"

definition IsMulticast :: "ip \<Rightarrow> bool" where
  "IsMulticast i = (case To4 i of Some v \<Rightarrow> v ! 0 AND 0xF0 = 0xE0 | None \<Rightarrow> length i = 16 \<and> i ! 0 = 0xFF)"

definition IsLinkLocalUnicast :: "ip \<Rightarrow> bool" where
  "IsLinkLocalUnicast i =
     (case To4 i of
        Some v \<Rightarrow> v ! 0 = 169 \<and> v ! 1 = 254
      | None \<Rightarrow> length i = 16 \<and> i ! 0 = 0xFE \<and> i ! 1 AND 0xC0 = 0x80)"

definition IsLinkLocalMulticast :: "ip \<Rightarrow> bool" where
  "IsLinkLocalMulticast i =
     (case To4 i of
        Some v \<Rightarrow> v ! 0 = 224 \<and> v ! 1 = 0 \<and> v ! 2 = 0
      | None \<Rightarrow> length i = 16 \<and> i ! 0 = 0xFF \<and> i ! 1 AND 0x0F = 0x02)"

definition IsPrivate :: "ip \<Rightarrow> bool" where
  "IsPrivate i =
     (case To4 i of
        Some v \<Rightarrow> v ! 0 = 10 \<or> (v ! 0 = 172 \<and> v ! 1 AND 0xF0 = 16) \<or> (v ! 0 = 192 \<and> v ! 1 = 168)
      | None \<Rightarrow> length i = 16 \<and> i ! 0 AND 0xFE = 0xFC)"

section \<open>Validation\<close>

definition isBlockedIP :: "ip \<Rightarrow> bool" where
  "isBlockedIP i \<longleftrightarrow> IsUnspecified i \<or> IsLoopback i \<or> IsMulticast i \<or> IsLinkLocalUnicast i \<or> IsLinkLocalMulticast i \<or> IsPrivate i"

definition MaxURLLength :: nat where
  "MaxURLLength = 2048"

definition allowedSchemes :: "(string, bool) gomap" where
  "allowedSchemes = [(''http'', True), (''https'', True)]"

record net_env =
  ne_Parse :: "string \<Rightarrow> (string \<times> string) option"
  ne_ParseIP :: "string \<Rightarrow> ip option"
  ne_LookupIP :: "string \<Rightarrow> ip list option"
  ne_ALLOW_PRIVATE :: string

datatype url_error =
    UrlEmpty
  | UrlTooLong nat
  | UrlParse
  | SchemeNotAllowed string
  | MissingHost
  | LookupFailed string
  | NoAddresses string
  | Blocked ip

definition resolve :: "net_env \<Rightarrow> string \<Rightarrow> url_error + ip list" where
  "resolve ne host =
     (case ne_ParseIP ne host of
        Some i \<Rightarrow> Inr [i]
      | None \<Rightarrow> (case ne_LookupIP ne host of
          None \<Rightarrow> Inl (LookupFailed host)
        | Some resolved \<Rightarrow> if length resolved = 0 then Inl (NoAddresses host) else Inr resolved))"

text \<open>\<open>None\<close> is the nil error.\<close>

definition validateURL :: "net_env \<Rightarrow> string \<Rightarrow> bool \<Rightarrow> url_error option" where
  "validateURL ne raw allowPrivate =
     (if raw = '''' then Some UrlEmpty
      else if length raw > MaxURLLength then Some (UrlTooLong (length raw))
      else case ne_Parse ne raw of
        None \<Rightarrow> Some UrlParse
      | Some (scheme, host) \<Rightarrow>
          if gm_get allowedSchemes (ToLower scheme) \<noteq> Some True then Some (SchemeNotAllowed scheme)
          else if host = '''' then Some MissingHost
          else (case resolve ne host of
            Inl e \<Rightarrow> Some e
          | Inr ips \<Rightarrow>
              if allowPrivate then None
              else (case find isBlockedIP ips of None \<Rightarrow> None | Some i \<Rightarrow> Some (Blocked i))))"

definition ValidateScanURL :: "net_env \<Rightarrow> string \<Rightarrow> url_error option" where
  "ValidateScanURL ne raw = validateURL ne raw (ne_ALLOW_PRIVATE ne \<noteq> '''')"

definition ValidateWebhookURL :: "net_env \<Rightarrow> string \<Rightarrow> url_error option" where
  "ValidateWebhookURL ne raw = validateURL ne raw False"

section \<open>Schedule quotas\<close>

definition ScheduleQuotaByTier :: "(string, int) gomap" where
  "ScheduleQuotaByTier = [(''free'', 3), (''basic'', 20), (''pro'', 100), (''admin'', 999999)]"

definition DefaultNoAuthQuota :: int where
  "DefaultNoAuthQuota = 50"

definition QuotaForOwner :: "string \<Rightarrow> bool \<Rightarrow> int" where
  "QuotaForOwner tier hasAuth =
     (if \<not> hasAuth then DefaultNoAuthQuota
      else case gm_get ScheduleQuotaByTier tier of
        Some q \<Rightarrow> q
      | None \<Rightarrow> (case gm_get ScheduleQuotaByTier ''free'' of Some q \<Rightarrow> q | None \<Rightarrow> 0))"

section \<open>Address blocks\<close>

text \<open>An address lies in the block of a network when their first bits agree.\<close>

definition byte_bits :: "8 word \<Rightarrow> bool list" where
  "byte_bits b = [bit b 7, bit b 6, bit b 5, bit b 4, bit b 3, bit b 2, bit b 1, bit b 0]"

definition ip_bits :: "ip \<Rightarrow> bool list" where
  "ip_bits i = concat (map byte_bits i)"

definition in_cidr :: "ip \<Rightarrow> ip \<Rightarrow> nat \<Rightarrow> bool" where
  "in_cidr i net n \<longleftrightarrow> take n (ip_bits i) = take n (ip_bits net)"

definition blocked_v4 :: "(ip \<times> nat) list" where
  "blocked_v4 =
     [([0, 0, 0, 0], 32), ([127, 0, 0, 0], 8), ([10, 0, 0, 0], 8), ([172, 16, 0, 0], 12),
      ([192, 168, 0, 0], 16), ([169, 254, 0, 0], 16), ([224, 0, 0, 0], 4)]"

definition v6_net :: "8 word \<Rightarrow> 8 word \<Rightarrow> ip" where
  "v6_net a b = a # b # replicate 14 0"

definition blocked_v6 :: "(ip \<times> nat) list" where
  "blocked_v6 =
     [(replicate 16 0, 128), (replicate 15 0 @ [1], 128), (v6_net 0xFC 0, 7), (v6_net 0xFE 0x80, 10), (v6_net 0xFF 0, 8)]"

lemma byte_eq_iff: "a = b \<longleftrightarrow> byte_bits a = byte_bits b" for a b :: "8 word"
proof
  assume "byte_bits a = byte_bits b"
  then have "bit a n = bit b n" if "n < 8" for n
    using that by (auto simp: byte_bits_def less_Suc_eq numeral_eq_Suc)
  then show "a = b" by (intro bit_word_eqI) simp
qed simp

lemma length_byte_bits [simp]: "length (byte_bits b) = 8"
  by (simp add: byte_bits_def)

lemma ip_bits_Cons: "ip_bits (b # i) = byte_bits b @ ip_bits i"
  by (simp add: ip_bits_def)

lemma ip_bits_eq: "length i = length j \<Longrightarrow> ip_bits i = ip_bits j \<longleftrightarrow> i = j"
proof (induction i j rule: list_induct2)
  case (Cons a i b j)
  then show ?case using byte_eq_iff [of a b] by (simp add: ip_bits_Cons)
qed (simp add: ip_bits_def)

lemma length_ip_bits [simp]: "length (ip_bits i) = 8 * length i"
  by (induction i) (simp_all add: ip_bits_def)

text \<open>A whole byte of the network part is compared at a time.\<close>

lemma in_cidr_byte: "8 \<le> n \<Longrightarrow> in_cidr (a # i) (b # net) n \<longleftrightarrow> a = b \<and> in_cidr i net (n - 8)"
  using byte_eq_iff [of a b] by (simp add: in_cidr_def ip_bits_Cons)

lemma in_cidr_0 [simp]: "in_cidr i net 0"
  by (simp add: in_cidr_def)

lemma in_cidr_all: "length i = length net \<Longrightarrow> n = 8 * length net \<Longrightarrow> in_cidr i net n \<longleftrightarrow> i = net"
  by (simp add: in_cidr_def ip_bits_eq)

lemma in_cidr_bits: "n \<le> 8 \<Longrightarrow> in_cidr (a # i) (b # net) n \<longleftrightarrow> take n (byte_bits a) = take n (byte_bits b)"
  by (simp add: in_cidr_def ip_bits_Cons)


lemma mask_F0: "a AND 0xF0 = b \<longleftrightarrow> take 4 (byte_bits a) @ [False, False, False, False] = byte_bits b" for a b :: "8 word"
  unfolding byte_eq_iff [of "a AND 0xF0"] by (simp add: byte_bits_def bit_and_iff)

lemma mask_C0: "a AND 0xC0 = b \<longleftrightarrow> take 2 (byte_bits a) @ [False, False, False, False, False, False] = byte_bits b" for a b :: "8 word"
  unfolding byte_eq_iff [of "a AND 0xC0"] by (simp add: byte_bits_def bit_and_iff numeral_eq_Suc)

lemma mask_FE: "a AND 0xFE = b \<longleftrightarrow> take 7 (byte_bits a) @ [False] = byte_bits b" for a b :: "8 word"
  unfolding byte_eq_iff [of "a AND 0xFE"] by (simp add: byte_bits_def bit_and_iff)


lemma mask_F0_net: "x AND 0xF0 = 0xE0 \<longleftrightarrow> take 4 (byte_bits x) = take 4 (byte_bits 0xE0)"
  "x AND 0xF0 = 16 \<longleftrightarrow> take 4 (byte_bits x) = take 4 (byte_bits 16)" for x :: "8 word"
  unfolding mask_F0 by (simp_all add: byte_bits_def)

lemma mask_C0_net: "x AND 0xC0 = 0x80 \<longleftrightarrow> take 2 (byte_bits x) = take 2 (byte_bits 0x80)" for x :: "8 word"
  unfolding mask_C0 by (simp add: byte_bits_def numeral_eq_Suc)

lemma mask_FE_net: "x AND 0xFE = 0xFC \<longleftrightarrow> take 7 (byte_bits x) = take 7 (byte_bits 0xFC)" for x :: "8 word"
  unfolding mask_FE by (simp add: byte_bits_def)

lemmas cidr_simps = in_cidr_byte in_cidr_bits mask_F0_net mask_C0_net mask_FE_net

lemma replicate_4: "replicate 4 x = [x, x, x, x]"
  by (simp add: numeral_eq_Suc)

lemma To4_zero: "To4 (replicate 16 0) = None"
  by (simp add: To4_def)

lemma blocked_v4_cidr:
  assumes "To4 i = Some [a, b, c, d]"
  shows "isBlockedIP i \<longleftrightarrow> (\<exists>(net, n) \<in> set blocked_v4. in_cidr [a, b, c, d] net n)"
proof -
  have un: "IsUnspecified i \<longleftrightarrow> in_cidr [a, b, c, d] [0, 0, 0, 0] 32"
    using assms To4_zero by (auto simp: IsUnspecified_def in_cidr_all replicate_4)
  have lb: "IsLoopback i \<longleftrightarrow> in_cidr [a, b, c, d] [127, 0, 0, 0] 8"
    and mc: "IsMulticast i \<longleftrightarrow> in_cidr [a, b, c, d] [224, 0, 0, 0] 4"
    and ll: "IsLinkLocalUnicast i \<longleftrightarrow> in_cidr [a, b, c, d] [169, 254, 0, 0] 16"
    and pv: "IsPrivate i \<longleftrightarrow> in_cidr [a, b, c, d] [10, 0, 0, 0] 8 \<or> in_cidr [a, b, c, d] [172, 16, 0, 0] 12 \<or> in_cidr [a, b, c, d] [192, 168, 0, 0] 16"
    using assms by (simp_all add: IsLoopback_def IsMulticast_def IsLinkLocalUnicast_def IsPrivate_def cidr_simps)
  have "IsLinkLocalMulticast i \<Longrightarrow> IsMulticast i"
    using assms by (simp add: IsLinkLocalMulticast_def IsMulticast_def)
  then show ?thesis unfolding isBlockedIP_def un lb mc [symmetric] ll pv blocked_v4_def using mc by auto
qed

lemma blocked_v6_cidr:
  assumes "length i = 16" "To4 i = None"
  shows "isBlockedIP i \<longleftrightarrow> (\<exists>(net, n) \<in> set blocked_v6. in_cidr i net n)"
proof -
  obtain a b r where i: "i = a # b # r" using assms(1) by (metis Suc_length_conv numeral_eq_Suc pred_numeral_simps(2,3))
  have un: "IsUnspecified i \<longleftrightarrow> in_cidr i (replicate 16 0) 128" and lb: "IsLoopback i \<longleftrightarrow> in_cidr i (replicate 15 0 @ [1]) 128"
    using assms by (simp_all add: IsUnspecified_def IsLoopback_def in_cidr_all)
  have mc: "IsMulticast i \<longleftrightarrow> in_cidr i (v6_net 0xFF 0) 8"
    and ll: "IsLinkLocalUnicast i \<longleftrightarrow> in_cidr i (v6_net 0xFE 0x80) 10"
    and pv: "IsPrivate i \<longleftrightarrow> in_cidr i (v6_net 0xFC 0) 7"
    using assms unfolding i v6_net_def by (simp_all add: IsMulticast_def IsLinkLocalUnicast_def IsPrivate_def cidr_simps)
  have "IsLinkLocalMulticast i \<Longrightarrow> IsMulticast i"
    using assms by (simp add: IsLinkLocalMulticast_def IsMulticast_def)
  then show ?thesis unfolding isBlockedIP_def un lb ll pv blocked_v6_def using mc by auto
qed

lemma webhook_url_accepts:
  assumes "raw \<noteq> ''''" "length raw \<le> 2048" "ne_Parse ne raw = Some (''https'', host)" "host \<noteq> ''''" "ne_ParseIP ne host = Some i" "\<not> isBlockedIP i"
  shows "ValidateWebhookURL ne raw = None"
  using assms by (simp add: ValidateWebhookURL_def validateURL_def MaxURLLength_def allowedSchemes_def gm_get_def ToLower_def to_lower_char_def resolve_def)

lemma public_address: "\<not> isBlockedIP [8, 8, 8, 8]"
proof -
  have "[8, 8, 8, 8] \<noteq> replicate 16 (0 :: 8 word)" by (simp add: list_eq_iff_nth_eq)
  then show ?thesis
    by (simp add: isBlockedIP_def To4_def IsUnspecified_def IsLoopback_def IsMulticast_def IsLinkLocalUnicast_def IsLinkLocalMulticast_def IsPrivate_def replicate_4)
qed


section \<open>Properties\<close>

text \<open>C21: The address filter is its list of address blocks. For every address of 4 or 16 bytes,
  \<open>isBlockedIP\<close> holds exactly when the address, read as IPv4 where it is one or is mapped into
  IPv6, lies in one of the blocks 0.0.0.0/32, 127/8, 10/8, 172.16/12, 192.168/16, 169.254/16,
  224/4, and otherwise in ::/128, ::1/128, fc00::/7, fe80::/10 or ff00::/8.\<close>

theorem blocked_iff_listed:
  assumes "length i = 4 \<or> length i = 16"
  shows "isBlockedIP i \<longleftrightarrow>
     (case To4 i of
        Some v \<Rightarrow> \<exists>(net, n) \<in> set blocked_v4. in_cidr v net n
      | None \<Rightarrow> \<exists>(net, n) \<in> set blocked_v6. in_cidr i net n)"
proof (cases "To4 i")
  case None
  then have "length i = 16" using assms by (auto simp: To4_def)
  then show ?thesis using None blocked_v6_cidr by simp
next
  case (Some v)
  then have "length v = 4" by (auto simp: To4_def split: if_splits)
  then have "v = [v ! 0, v ! 1, v ! 2, v ! 3]" by (intro nth_equalityI) (auto simp: less_Suc_eq numeral_eq_Suc)
  then obtain a b c d where "v = [a, b, c, d]" by blast
  then show ?thesis using Some blocked_v4_cidr by simp
qed

theorem blocked_iff_listed_witness:
  "isBlockedIP (replicate 10 0 @ [0xFF, 0xFF, 169, 254, 169, 254]) \<and> \<not> isBlockedIP [8, 8, 8, 8]"
proof -
  have "To4 (replicate 10 0 @ [0xFF, 0xFF, 169, 254, 169, 254]) = Some [169, 254, 169, 254]" "To4 [8, 8, 8, 8] = Some [8, 8, 8, 8]"
    by (simp_all add: To4_def nth_append)
  moreover have "in_cidr [169, 254, 169, 254] [169, 254, 0, 0] 16" by (simp add: cidr_simps)
  moreover have "\<not> in_cidr [8, 8, 8, 8] net n" if "(net, n) \<in> set blocked_v4" for net n
    using that by (auto simp: blocked_v4_def cidr_simps byte_bits_def)
  ultimately show ?thesis
    using blocked_iff_listed [of "replicate 10 0 @ [0xFF, 0xFF, 169, 254, 169, 254]"] blocked_iff_listed [of "[8, 8, 8, 8]"]
    by (auto simp: blocked_v4_def)
qed

text \<open>C20: What a webhook URL must be. \<open>ValidateWebhookURL\<close> accepts a URL exactly when it is not
  empty, at most 2048 bytes long, parses to the scheme http or https (in any case) with a
  host, and the host is an address or resolves to at least one, none of which \<open>isBlockedIP\<close>
  blocks; the development switch has no influence on it. The blocked addresses are the
  loopback, private, link-local, multicast and unspecified ones: hosts in other blocks that
  are not public, such as 240.0.0.0/4 with 255.255.255.255 and 100.64.0.0/10, are accepted.\<close>

theorem webhook_url_accepted_iff:
  "ValidateWebhookURL ne raw = None \<longleftrightarrow>
     raw \<noteq> '''' \<and> length raw \<le> 2048 \<and>
     (\<exists>scheme host ips. ne_Parse ne raw = Some (scheme, host) \<and> ToLower scheme \<in> {''http'', ''https''} \<and> host \<noteq> '''' \<and>
        (case ne_ParseIP ne host of Some i \<Rightarrow> ips = [i] | None \<Rightarrow> ne_LookupIP ne host = Some ips) \<and>
        ips \<noteq> [] \<and> \<not> list_ex isBlockedIP ips)"
proof -
  have schemes: "gm_get allowedSchemes s = Some True \<longleftrightarrow> s \<in> {''http'', ''https''}" for s
    by (auto simp: allowedSchemes_def gm_get_def)
  show ?thesis
    unfolding ValidateWebhookURL_def validateURL_def resolve_def MaxURLLength_def schemes
    by (auto simp: list_ex_iff find_None_iff find_Some_iff split: option.splits prod.splits sum.splits)
qed

text \<open>Reserved addresses pass. The comment of \<open>isBlockedIP\<close> lists 240.0.0.0/4 among the
  blocked addresses; the code blocks none of them.\<close>

theorem reserved_addresses_pass: "take 4 (byte_bits a) = [True, True, True, True] \<longrightarrow> \<not> isBlockedIP [a, b, c, d]"
proof
  assume a: "take 4 (byte_bits a) = [True, True, True, True]"
  have "\<not> in_cidr [a, b, c, d] net n" if "(net, n) \<in> set blocked_v4" for net n
    using that a by (auto simp: blocked_v4_def cidr_simps byte_bits_def byte_eq_iff [of a])
  then show "\<not> isBlockedIP [a, b, c, d]" using blocked_v4_cidr [of "[a, b, c, d]" a b c d] by (auto simp: To4_def)
qed

theorem reserved_addresses_pass_witness: "take 4 (byte_bits 240) = [True, True, True, True] \<and> \<not> isBlockedIP [240, 0, 0, 1]"
proof -
  have "take 4 (byte_bits 240) = [True, True, True, True]" by (simp add: byte_bits_def)
  then show ?thesis using reserved_addresses_pass [of 240 0 0 1] by blast
qed

end
