(* ===== verification/Bounded_Log.thy ===== *)
theory Bounded_Log
  imports Prelude "HOL-Library.Sublist"
begin

text \<open>
  The contract of an append-only log that keeps its newest \<open>cap\<close> entries. Two components
  of the program provide it: the replay buffer of the WebSocket hub (\<^verbatim>\<open>ws.Hub.Publish\<close>)
  and the webhook delivery log of the scheduler (\<^verbatim>\<open>Store.LogDelivery\<close>). They interpret
  the locale in their own theories; \<open>push_all\<close> is what their users rely on.
\<close>

locale bounded_log =
  fixes cap :: nat
    and push :: "'a list \<Rightarrow> 'a \<Rightarrow> 'a list"
  assumes cap_pos: "0 < cap"
    and push_suffix: "suffix (push xs x) (xs @ [x])"
    and push_length: "length xs \<le> cap \<Longrightarrow> length (push xs x) = min cap (Suc (length xs))"
begin

lemma push_eq_drop:
  assumes "length xs \<le> cap"
  shows "push xs x = drop (Suc (length xs) - cap) (xs @ [x])"
proof -
  have "push xs x = drop (length (xs @ [x]) - length (push xs x)) (xs @ [x])"
    using push_suffix [of xs x] by (metis suffix_def append_eq_conv_conj diff_add_inverse2 length_append)
  moreover have "length (xs @ [x]) - length (push xs x) = Suc (length xs) - cap"
    using push_length [OF assms, of x] by simp
  ultimately show ?thesis by (simp only:)
qed

lemma push_bounded: "length xs \<le> cap \<Longrightarrow> length (push xs x) \<le> cap"
  by (simp add: push_length)

lemma last_push: "length xs \<le> cap \<Longrightarrow> push xs x \<noteq> [] \<and> last (push xs x) = x"
  using push_length [of xs x] push_suffix [of xs x] cap_pos
  by (cases "push xs x" rule: rev_cases) auto

lemma push_all: "foldl push [] es = drop (length es - cap) es"
proof (induction es rule: rev_induct)
  case Nil
  then show ?case by simp
next
  case (snoc x es)
  let ?buf = "drop (length es - cap) es"
  have "length ?buf \<le> cap" by simp
  then have "push ?buf x = drop (Suc (length ?buf) - cap) (?buf @ [x])" by (rule push_eq_drop)
  also have "\<dots> = drop (length (es @ [x]) - cap) (es @ [x])"
    by (cases "length es < cap") (auto simp: drop_append Suc_diff_le)
  finally show ?case using snoc by simp
qed

lemma push_all_bounded: "length (foldl push [] es) \<le> cap"
  by (simp add: push_all)

end

end
