(* ===== verification/Sched_Store.thy ===== *)
theory Sched_Store
  imports Bounded_Log Go_Map Go_Strings
begin

text \<open>
  The schedule store: \<^verbatim>\<open>internal/scheduler/store.go\<close> and \<^verbatim>\<open>store_api.go\<close>, with the atomic file
  write of \<^verbatim>\<open>internal/fsutil/fsutil.go\<close>. A \<^verbatim>\<open>*Schedule\<close> is an index into the list of all
  schedules allocated so far, because callers keep the pointers they get and write through
  them. The state record also holds the file at the store's path and whether the channel
  \<^verbatim>\<open>dirtyCh\<close> (capacity 1) holds a token. \<open>enc\<close>/\<open>dec\<close> is the JSON codec of the file.
\<close>

definition IntervalHourly :: string where "IntervalHourly = ''hourly''"
definition IntervalDaily :: string where "IntervalDaily = ''daily''"
definition IntervalWeekly :: string where "IntervalWeekly = ''weekly''"

definition IntervalDur :: "string \<Rightarrow> duration" where
  "IntervalDur s =
     (if s = IntervalHourly then 1 * hour
      else if s = IntervalWeekly then 7 * 24 * hour
      else 24 * hour)"

record schedule =
  sch_ID :: string
  sch_URL :: string
  sch_Interval :: string
  sch_Owner :: string
  sch_Enabled :: bool
  sch_WebhookURL :: string
  sch_WebhookSecret :: string
  sch_HasSecret :: bool
  sch_LastRun :: time
  sch_LastStatus :: string
  sch_LastError :: string
  sch_NextRun :: time
  sch_RunCount :: int
  sch_CreatedAt :: time

record delivery =
  wd_ID :: string
  wd_ScheduleID :: string
  wd_URL :: string
  wd_Attempt :: int
  wd_Status :: string
  wd_HTTPCode :: int
  wd_Error :: string
  wd_DurationMs :: int
  wd_Timestamp :: time

record sched_store =
  ss_path :: string
  ss_schedules :: "(string, addr) gomap"
  ss_heap :: "schedule list"
  ss_log :: "delivery list"
  ss_dirty :: bool
  ss_stopped :: bool
  ss_file :: "string option"

definition maxDeliveryLog :: nat where
  "maxDeliveryLog = 100"

section \<open>Files\<close>

text \<open>How far \<^verbatim>\<open>WriteFileAtomic\<close> gets: only the rename touches the target.\<close>

datatype atomic_outcome = CreateTempFailed | TempWriteFailed | TempCloseFailed | RenameFailed | Renamed

definition WriteFileAtomic :: "atomic_outcome \<Rightarrow> string \<Rightarrow> string option \<Rightarrow> bool \<times> string option" where
  "WriteFileAtomic oc data target =
     (case oc of
        CreateTempFailed \<Rightarrow> (False, target)
      | TempWriteFailed \<Rightarrow> (False, target)
      | TempCloseFailed \<Rightarrow> (False, target)
      | RenameFailed \<Rightarrow> (False, target)
      | Renamed \<Rightarrow> (True, Some data))"

record sched_codec =
  sc_enc :: "schedule list \<times> delivery list \<Rightarrow> string option"
  sc_dec :: "string \<Rightarrow> (schedule list \<times> delivery list) option"

definition newStore :: "string \<Rightarrow> string option \<Rightarrow> sched_store" where
  "newStore path file =
     \<lparr>ss_path = path, ss_schedules = [], ss_heap = [], ss_log = [], ss_dirty = False, ss_stopped = False, ss_file = file\<rparr>"

text \<open>Each decoded schedule is a new object; a later one with the same identifier replaces an
  earlier one in the map.\<close>

definition load_schedule :: "sched_store \<Rightarrow> schedule \<Rightarrow> sched_store" where
  "load_schedule s sch =
     s\<lparr>ss_schedules := gm_put (sch_ID sch) (length (ss_heap s)) (ss_schedules s), ss_heap := ss_heap s @ [sch]\<rparr>"

datatype file_read = NotExist | ReadError | Content string

datatype sched_error = FileUnreadable | FileCorrupt

definition store_load :: "sched_codec \<Rightarrow> file_read \<Rightarrow> sched_store \<Rightarrow> sched_error + sched_store" where
  "store_load sc read s =
     (case read of
        NotExist \<Rightarrow> Inr s
      | ReadError \<Rightarrow> Inl FileUnreadable
      | Content data \<Rightarrow> (case sc_dec sc data of
          None \<Rightarrow> Inl FileCorrupt
        | Some (schs, lg) \<Rightarrow> Inr ((foldl load_schedule (s\<lparr>ss_schedules := [], ss_heap := []\<rparr>) schs)\<lparr>ss_log := lg\<rparr>)))"

definition sched_at :: "sched_store \<Rightarrow> addr \<Rightarrow> schedule" where
  "sched_at s a = ss_heap s ! a"

definition store_save :: "sched_codec \<Rightarrow> atomic_outcome \<Rightarrow> sched_store \<Rightarrow> bool \<times> sched_store" where
  "store_save sc oc s =
     (case sc_enc sc (map (\<lambda>(i, a). sched_at s a) (ss_schedules s), ss_log s) of
        None \<Rightarrow> (False, s)
      | Some data \<Rightarrow> let (ok, f) = WriteFileAtomic oc data (ss_file s) in (ok, s\<lparr>ss_file := f\<rparr>))"

section \<open>The public store\<close>

definition sched_NewStore :: "sched_codec \<Rightarrow> file_read \<Rightarrow> string \<Rightarrow> sched_error + sched_store" where
  "sched_NewStore sc read path = store_load sc read (newStore path (case read of Content d \<Rightarrow> Some d | _ \<Rightarrow> None))"

definition markDirty :: "sched_store \<Rightarrow> sched_store" where
  "markDirty s = s\<lparr>ss_dirty := True\<rparr>"

text \<open>One round of the save loop when a token is in the channel, and \<^verbatim>\<open>Close\<close>.\<close>

definition saveLoop_round :: "sched_codec \<Rightarrow> atomic_outcome \<Rightarrow> sched_store \<Rightarrow> sched_store" where
  "saveLoop_round sc oc s = (if ss_dirty s \<and> \<not> ss_stopped s then snd (store_save sc oc (s\<lparr>ss_dirty := False\<rparr>)) else s)"

definition Close :: "sched_codec \<Rightarrow> atomic_outcome \<Rightarrow> sched_store \<Rightarrow> bool \<times> sched_store" where
  "Close sc oc s = store_save sc oc (s\<lparr>ss_stopped := True\<rparr>)"

text \<open>\<open>new_id\<close> is what \<^verbatim>\<open>genID\<close> draws, \<open>t1\<close> and \<open>t2\<close> the two clock readings. The result is the
  identifier and the address the caller's pointer now has.\<close>

definition AddSchedule :: "string \<Rightarrow> time \<Rightarrow> time \<Rightarrow> schedule \<Rightarrow> sched_store \<Rightarrow> string \<times> addr \<times> sched_store" where
  "AddSchedule new_id t1 t2 sch s =
     (let sch1 = (if sch_ID sch = '''' then sch\<lparr>sch_ID := new_id\<rparr> else sch);
          sch2 = (if sch_CreatedAt sch1 = 0 then sch1\<lparr>sch_CreatedAt := t1\<rparr> else sch1);
          sch3 = (if sch_NextRun sch2 = 0 then sch2\<lparr>sch_NextRun := t2 + IntervalDur (sch_Interval sch2)\<rparr> else sch2);
          a = length (ss_heap s)
      in (sch_ID sch3, a,
          markDirty (s\<lparr>ss_heap := ss_heap s @ [sch3], ss_schedules := gm_put (sch_ID sch3) a (ss_schedules s)\<rparr>)))"

definition GetSchedule :: "string \<Rightarrow> sched_store \<Rightarrow> addr option" where
  "GetSchedule i s = gm_get (ss_schedules s) i"

text \<open>A write through a pointer to a schedule.\<close>

definition mutate :: "addr \<Rightarrow> (schedule \<Rightarrow> schedule) \<Rightarrow> sched_store \<Rightarrow> sched_store" where
  "mutate a f s = s\<lparr>ss_heap := (ss_heap s)[a := f (sched_at s a)]\<rparr>"

definition UpdateSchedule :: "string \<Rightarrow> (schedule \<Rightarrow> schedule) \<Rightarrow> sched_store \<Rightarrow> addr option \<times> sched_store" where
  "UpdateSchedule i f s =
     (case gm_get (ss_schedules s) i of
        None \<Rightarrow> (None, s)
      | Some a \<Rightarrow> (Some a, (mutate a f s)\<lparr>ss_schedules := gm_put i a (ss_schedules s)\<rparr>))"

definition DeleteSchedule :: "string \<Rightarrow> sched_store \<Rightarrow> bool \<times> sched_store" where
  "DeleteSchedule i s =
     (if gm_get (ss_schedules s) i \<noteq> None then (True, s\<lparr>ss_schedules := gm_del i (ss_schedules s)\<rparr>) else (False, s))"

text \<open>\<^verbatim>\<open>sort.Slice\<close> leaves the order of equal elements open, as the iteration of the map does.\<close>

definition ListSchedulesByOwner :: "string \<Rightarrow> sched_store \<Rightarrow> addr list" where
  "ListSchedulesByOwner owner s =
     sort_key (\<lambda>a. sch_NextRun (sched_at s a)) (filter (\<lambda>a. sch_Owner (sched_at s a) = owner) (map snd (ss_schedules s)))"

definition ListAllSchedules :: "sched_store \<Rightarrow> addr list" where
  "ListAllSchedules s = sort_key (\<lambda>a. sch_NextRun (sched_at s a)) (map snd (ss_schedules s))"

definition DueSchedules :: "time \<Rightarrow> sched_store \<Rightarrow> addr list" where
  "DueSchedules now s = filter (\<lambda>a. sch_Enabled (sched_at s a) \<and> \<not> now < sch_NextRun (sched_at s a)) (ListAllSchedules s)"

definition log_push :: "delivery list \<Rightarrow> delivery \<Rightarrow> delivery list" where
  "log_push lg d =
     (let lg' = lg @ [d] in if length lg' > maxDeliveryLog then drop (length lg' - maxDeliveryLog) lg' else lg')"

definition LogDelivery :: "string \<Rightarrow> time \<Rightarrow> delivery \<Rightarrow> sched_store \<Rightarrow> sched_store" where
  "LogDelivery new_id now d s =
     (let d1 = (if wd_ID d = '''' then d\<lparr>wd_ID := new_id\<rparr> else d);
          d2 = (if wd_Timestamp d1 = 0 then d1\<lparr>wd_Timestamp := now\<rparr> else d1)
      in markDirty (s\<lparr>ss_log := log_push (ss_log s) d2\<rparr>))"

text \<open>The backwards loop of \<^verbatim>\<open>RecentDeliveries\<close>: \<open>i\<close> counts the entries not yet visited.\<close>

fun recent_loop :: "delivery list \<Rightarrow> nat \<Rightarrow> nat \<Rightarrow> delivery list \<Rightarrow> delivery list" where
  "recent_loop lg n 0 out = out"
| "recent_loop lg n (Suc i) out = (if length out < n then recent_loop lg n i (out @ [lg ! i]) else out)"

definition RecentDeliveries :: "int \<Rightarrow> sched_store \<Rightarrow> delivery list" where
  "RecentDeliveries n s =
     (let k = (if n \<le> 0 \<or> n > int (length (ss_log s)) then length (ss_log s) else nat n)
      in recent_loop (ss_log s) k (length (ss_log s)) [])"

section \<open>The abstract store\<close>

text \<open>Clients see a finite map from identifiers to schedules.\<close>

definition view :: "sched_store \<Rightarrow> string \<Rightarrow> schedule option" where
  "view s i = map_option (sched_at s) (gm_get (ss_schedules s) i)"

definition sched_inv :: "sched_store \<Rightarrow> bool" where
  "sched_inv s \<longleftrightarrow> gm_wf (ss_schedules s) \<and> length (ss_log s) \<le> 100 \<and>
     (\<forall>(i, a) \<in> set (ss_schedules s). a < length (ss_heap s) \<and> sch_ID (sched_at s a) = i)"

locale keyed_store =
  fixes inv :: "'s \<Rightarrow> bool"
    and look :: "'s \<Rightarrow> 'k \<Rightarrow> 'v option"
    and update :: "'k \<Rightarrow> ('v \<Rightarrow> 'v) \<Rightarrow> 's \<Rightarrow> 's"
    and remove :: "'k \<Rightarrow> 's \<Rightarrow> 's"
    and allowed :: "('v \<Rightarrow> 'v) \<Rightarrow> bool"
  assumes update_inv: "inv s \<Longrightarrow> allowed f \<Longrightarrow> inv (update k f s)"
    and remove_inv: "inv s \<Longrightarrow> inv (remove k s)"
    and update_look: "inv s \<Longrightarrow> allowed f \<Longrightarrow> look (update k f s) = (look s)(k := map_option f (look s k))"
    and remove_look: "inv s \<Longrightarrow> look (remove k s) = (look s)(k := None)"
begin

lemma update_other: "inv s \<Longrightarrow> allowed f \<Longrightarrow> k' \<noteq> k \<Longrightarrow> look (update k f s) k' = look s k'"
  by (simp add: update_look)

lemma update_twice:
  "inv s \<Longrightarrow> allowed f \<Longrightarrow> allowed g \<Longrightarrow> look (update k g (update k f s)) = (look s)(k := map_option (g \<circ> f) (look s k))"
  by (simp add: update_look update_inv option.map_comp)

lemma update_removed: "inv s \<Longrightarrow> allowed f \<Longrightarrow> look (update k f (remove k s)) = (look s)(k := None)"
  by (simp add: update_look remove_look remove_inv)

lemma update_keeps_domain: "inv s \<Longrightarrow> allowed f \<Longrightarrow> dom (look (update k f s)) = dom (look s)"
  by (auto simp: update_look dom_def)

end

lemma sched_at_fields [simp]:
  "sched_at (s\<lparr>ss_schedules := m\<rparr>) = sched_at s" "sched_at (s\<lparr>ss_log := lg\<rparr>) = sched_at s" "sched_at (s\<lparr>ss_dirty := d\<rparr>) = sched_at s"
  "sched_at (s\<lparr>ss_stopped := d\<rparr>) = sched_at s" "sched_at (s\<lparr>ss_file := f\<rparr>) = sched_at s" "sched_at (markDirty s) = sched_at s"
  by (simp_all add: fun_eq_iff sched_at_def markDirty_def)

text \<open>No two keys share a schedule, because a schedule is stored under its own identifier.\<close>

lemma sched_inv_get:
  "sched_inv s \<Longrightarrow> gm_get (ss_schedules s) i = Some a \<Longrightarrow> a < length (ss_heap s) \<and> sch_ID (sched_at s a) = i"
  by (auto simp: sched_inv_def dest!: gm_get_in_set)

lemma at_mutate: "a < length (ss_heap s) \<Longrightarrow> sched_at (mutate a f s) b = (if b = a then f (sched_at s a) else sched_at s b)"
  by (simp add: sched_at_def mutate_def nth_list_update)

lemma mutate_sel [simp]:
  "ss_schedules (mutate a f s) = ss_schedules s" "ss_log (mutate a f s) = ss_log s" "length (ss_heap (mutate a f s)) = length (ss_heap s)"
  "ss_dirty (mutate a f s) = ss_dirty s" "ss_file (mutate a f s) = ss_file s"
  by (simp_all add: mutate_def)

definition keeps_id :: "(schedule \<Rightarrow> schedule) \<Rightarrow> bool" where
  "keeps_id f \<longleftrightarrow> (\<forall>x. sch_ID (f x) = sch_ID x)"

lemma gm_put_same: "gm_get m k = Some v \<Longrightarrow> gm_put k v m = m"
  by (induction m) (auto simp: gm_get_def gm_put_def split: if_splits)

lemma UpdateSchedule_eq:
  "UpdateSchedule i f s = (case gm_get (ss_schedules s) i of None \<Rightarrow> (None, s) | Some a \<Rightarrow> (Some a, mutate a f s))"
  by (auto simp: UpdateSchedule_def gm_put_same mutate_def split: option.splits)

lemma mutate_inv [inv_intros]:
  assumes "sched_inv s" "keeps_id f" "a < length (ss_heap s)"
  shows "sched_inv (mutate a f s)"
  using assms by (auto simp: sched_inv_def at_mutate keeps_id_def)

lemma UpdateSchedule_inv [inv_intros]: "sched_inv s \<Longrightarrow> keeps_id f \<Longrightarrow> sched_inv (snd (UpdateSchedule i f s))"
  using sched_inv_get [of s i] mutate_inv [of s f] by (auto simp: UpdateSchedule_eq split: option.splits)

lemma UpdateSchedule_view:
  assumes "sched_inv s" "keeps_id f"
  shows "view (snd (UpdateSchedule i f s)) = (view s)(i := map_option f (view s i))"
proof (cases "gm_get (ss_schedules s) i")
  case None
  then show ?thesis by (auto simp: UpdateSchedule_eq view_def)
next
  case (Some a)
  note a = sched_inv_get [OF assms(1) Some]
  have "k = i" if "gm_get (ss_schedules s) k = Some a" for k using sched_inv_get [OF assms(1) that] a by simp
  then have "map_option (sched_at (mutate a f s)) (gm_get (ss_schedules s) k) = map_option (sched_at s) (gm_get (ss_schedules s) k)" if "k \<noteq> i" for k
    using that a by (cases "gm_get (ss_schedules s) k") (auto simp: at_mutate)
  then show ?thesis using Some a by (simp add: UpdateSchedule_eq view_def at_mutate fun_eq_iff)
qed

lemma DeleteSchedule_inv [inv_intros]: "sched_inv s \<Longrightarrow> sched_inv (snd (DeleteSchedule i s))"
  by (auto simp: DeleteSchedule_def sched_inv_def gm.wf_del gm_set_del)

lemma DeleteSchedule_view: "view (snd (DeleteSchedule i s)) = (view s)(i := None)"
  by (auto simp: DeleteSchedule_def view_def gm.get_del fun_eq_iff)

interpretation scheds: keyed_store sched_inv view "\<lambda>i f s. snd (UpdateSchedule i f s)" "\<lambda>i s. snd (DeleteSchedule i s)" keeps_id
  by unfold_locales (auto intro: UpdateSchedule_inv DeleteSchedule_inv simp: UpdateSchedule_view DeleteSchedule_view)

interpretation delivery_log: bounded_log 100 log_push
  by unfold_locales (auto simp: log_push_def Let_def suffix_drop maxDeliveryLog_def)


section \<open>Adding, logging, listing\<close>

lemma AddSchedule_parts:
  assumes "AddSchedule new_id t1 t2 sch s = (i, a, s')"
  obtains sch' where "i = (if sch_ID sch = '''' then new_id else sch_ID sch)" "a = length (ss_heap s)" "sch_ID sch' = i"
    "sch_URL sch' = sch_URL sch" "sch_Interval sch' = sch_Interval sch" "sch_Owner sch' = sch_Owner sch" "sch_Enabled sch' = sch_Enabled sch"
    "sch_WebhookURL sch' = sch_WebhookURL sch" "sch_WebhookSecret sch' = sch_WebhookSecret sch" "sch_HasSecret sch' = sch_HasSecret sch"
    "sch_NextRun sch' = (if sch_NextRun sch = 0 then t2 + IntervalDur (sch_Interval sch) else sch_NextRun sch)"
    "s' = markDirty (s\<lparr>ss_heap := ss_heap s @ [sch'], ss_schedules := gm_put i a (ss_schedules s)\<rparr>)"
proof -
  let ?s1 = "if sch_ID sch = '''' then sch\<lparr>sch_ID := new_id\<rparr> else sch"
  let ?s2 = "if sch_CreatedAt ?s1 = 0 then ?s1\<lparr>sch_CreatedAt := t1\<rparr> else ?s1"
  let ?s3 = "if sch_NextRun ?s2 = 0 then ?s2\<lparr>sch_NextRun := t2 + IntervalDur (sch_Interval ?s2)\<rparr> else ?s2"
  show thesis by (rule that [of ?s3]) (use assms in \<open>auto simp: AddSchedule_def Let_def\<close>)
qed

lemma AddSchedule_view:
  assumes "sched_inv s" "AddSchedule new_id t1 t2 sch s = (i, a, s')"
  shows "sched_inv s'" "\<exists>sch'. view s' = (view s)(i \<mapsto> sch') \<and> sch_Owner sch' = sch_Owner sch \<and> sch_URL sch' = sch_URL sch \<and>
     sch_WebhookSecret sch' = sch_WebhookSecret sch \<and> sch_WebhookURL sch' = sch_WebhookURL sch \<and> sched_at s' a = sch'" "gm_get (ss_schedules s') i = Some a"
proof -
  obtain sch' where p: "a = length (ss_heap s)" "sch_ID sch' = i" "sch_Owner sch' = sch_Owner sch" "sch_URL sch' = sch_URL sch"
    "sch_WebhookSecret sch' = sch_WebhookSecret sch" "sch_WebhookURL sch' = sch_WebhookURL sch"
    "s' = markDirty (s\<lparr>ss_heap := ss_heap s @ [sch'], ss_schedules := gm_put i a (ss_schedules s)\<rparr>)"
    by (rule AddSchedule_parts [OF assms(2)]) blast
  have old: "sched_at s' b = sched_at s b" if "b < length (ss_heap s)" for b using that p(7) by (simp add: sched_at_def markDirty_def nth_append)
  have new: "sched_at s' a = sch'" using p(1,7) by (simp add: sched_at_def markDirty_def)
  have wf: "gm_wf (ss_schedules s)" using assms(1) by (simp add: sched_inv_def)
  show "sched_inv s'"
    using assms(1) p(1,2,7) new old gm_set_put [OF wf, of i a]
    by (auto simp: sched_inv_def markDirty_def gm.wf_put less_Suc_eq sched_at_def [of "markDirty _"] nth_append)
  have "view s' = (view s)(i \<mapsto> sch')"
  proof (rule ext)
    fix k
    show "view s' k = ((view s)(i \<mapsto> sch')) k"
      using p(7) new old sched_inv_get [OF assms(1), of k]
      by (cases "gm_get (ss_schedules s) k") (auto simp: view_def markDirty_def gm.get_put)
  qed
  then show "\<exists>sch'. view s' = (view s)(i \<mapsto> sch') \<and> sch_Owner sch' = sch_Owner sch \<and> sch_URL sch' = sch_URL sch \<and>
     sch_WebhookSecret sch' = sch_WebhookSecret sch \<and> sch_WebhookURL sch' = sch_WebhookURL sch \<and> sched_at s' a = sch'" using p new by blast
  show "gm_get (ss_schedules s') i = Some a" using p(7) by (simp add: markDirty_def gm.get_put)
qed

text \<open>What \<open>AddSchedule\<close> stores for a schedule without identifier and times.\<close>

lemma added_schedule:
  assumes "sched_inv s" "AddSchedule new_id t1 t2 sch s = (i, a, s')"
  shows "\<exists>y. view s' = (view s)(i \<mapsto> y) \<and> sched_at s' a = y \<and> i = (if sch_ID sch = '''' then new_id else sch_ID sch) \<and> a = length (ss_heap s) \<and>
     sch_URL y = sch_URL sch \<and> sch_Owner y = sch_Owner sch \<and> sch_Enabled y = sch_Enabled sch \<and> sch_WebhookURL y = sch_WebhookURL sch \<and>
     sch_WebhookSecret y = sch_WebhookSecret sch \<and> sch_HasSecret y = sch_HasSecret sch \<and> ss_heap s' = ss_heap s @ [y]"
proof -
  obtain y where y: "view s' = (view s)(i \<mapsto> y)" "sched_at s' a = y" using AddSchedule_view(2) [OF assms] by auto
  from assms(2) show ?thesis
  proof (rule AddSchedule_parts)
    fix z assume z: "a = length (ss_heap s)" "s' = markDirty (s\<lparr>ss_heap := ss_heap s @ [z], ss_schedules := gm_put i a (ss_schedules s)\<rparr>)"
      "i = (if sch_ID sch = '''' then new_id else sch_ID sch)" "sch_URL z = sch_URL sch" "sch_Owner z = sch_Owner sch" "sch_Enabled z = sch_Enabled sch"
      "sch_WebhookURL z = sch_WebhookURL sch" "sch_WebhookSecret z = sch_WebhookSecret sch" "sch_HasSecret z = sch_HasSecret sch"
    then have "y = z" "ss_heap s' = ss_heap s @ [z]" using y by (simp_all add: sched_at_def markDirty_def)
    then show ?thesis using z(1,3-9) y by (intro exI [of _ z]) simp
  qed
qed


lemma LogDelivery_inv [inv_intros]: "sched_inv s \<Longrightarrow> sched_inv (LogDelivery new_id now d s)"
  using delivery_log.push_bounded by (simp add: LogDelivery_def Let_def markDirty_def sched_inv_def)

lemma LogDelivery_view [simp]: "view (LogDelivery new_id now d s) = view s"
  by (auto simp: LogDelivery_def Let_def markDirty_def view_def fun_eq_iff)

lemma recent_loop_rev: "i \<le> length lg \<Longrightarrow> length out \<le> n \<Longrightarrow> recent_loop lg n i out = out @ take (n - length out) (rev (take i lg))"
proof (induction i arbitrary: out)
  case (Suc i)
  show ?case
  proof (cases "length out < n")
    case True
    then have "n - length out = Suc (n - Suc (length out))" by simp
    then show ?thesis using Suc True by (simp add: take_Suc_conv_app_nth)
  next
    case False
    then show ?thesis using Suc.prems by simp
  qed
qed simp

lemma set_ListAll [simp]: "set (ListAllSchedules s) = snd ` set (ss_schedules s)"
  by (simp add: ListAllSchedules_def)

section \<open>Restart\<close>

lemma load_view:
  "sched_inv s0 \<Longrightarrow> view s0 = Map.empty \<Longrightarrow>
    sched_inv (foldl load_schedule s0 schs) \<and> view (foldl load_schedule s0 schs) = map_of (rev (map (\<lambda>x. (sch_ID x, x)) schs)) \<and>
    ss_log (foldl load_schedule s0 schs) = ss_log s0"
proof (induction schs rule: rev_induct)
  case (snoc x schs)
  let ?s = "foldl load_schedule s0 schs"
  have s: "sched_inv ?s" "view ?s = map_of (rev (map (\<lambda>x. (sch_ID x, x)) schs))" using snoc by simp_all
  have old: "sched_at (load_schedule ?s x) b = sched_at ?s b" if "b < length (ss_heap ?s)" for b
    using that by (simp add: sched_at_def load_schedule_def nth_append)
  have new: "sched_at (load_schedule ?s x) (length (ss_heap ?s)) = x" by (simp add: sched_at_def load_schedule_def)
  have wf: "gm_wf (ss_schedules ?s)" using s(1) by (simp add: sched_inv_def)
  have "sched_inv (load_schedule ?s x)"
    unfolding sched_inv_def
  proof (intro conjI ballI)
    show "gm_wf (ss_schedules (load_schedule ?s x))" using wf by (simp add: load_schedule_def gm.wf_put)
    show "length (ss_log (load_schedule ?s x)) \<le> 100" using s(1) by (simp add: load_schedule_def sched_inv_def)
    fix p assume "p \<in> set (ss_schedules (load_schedule ?s x))"
    then have "p = (sch_ID x, length (ss_heap ?s)) \<or> p \<in> set (ss_schedules ?s)"
      using gm_set_put [OF wf] by (auto simp: load_schedule_def)
    then show "case p of (i, a) \<Rightarrow> a < length (ss_heap (load_schedule ?s x)) \<and> sch_ID (sched_at (load_schedule ?s x) a) = i"
      using s(1) old new by (auto simp: sched_inv_def load_schedule_def [of ?s x])
  qed
  moreover have "view (load_schedule ?s x) k = ((view ?s)(sch_ID x \<mapsto> x)) k" for k
    using new old sched_inv_get [OF s(1), of k]
    by (cases "gm_get (ss_schedules ?s) k") (auto simp: view_def load_schedule_def [of ?s x] gm.get_put)
  ultimately show ?case using snoc s by (auto simp: load_schedule_def [of ?s x] fun_eq_iff)
qed simp


text \<open>What is saved is what the map holds.\<close>

lemma saved_view:
  assumes "sched_inv s"
  shows "map_of (rev (map (\<lambda>x. (sch_ID x, x)) (map (\<lambda>(i, a). sched_at s a) (ss_schedules s)))) = view s"
proof -
  have eq: "map (\<lambda>x. (sch_ID x, x)) (map (\<lambda>(i, a). sched_at s a) (ss_schedules s)) = map (\<lambda>(i, a). (i, sched_at s a)) (ss_schedules s)"
    using assms by (auto simp: sched_inv_def)
  have "distinct (map fst (map (\<lambda>(i, a). (i, sched_at s a)) (ss_schedules s)))"
    using assms by (simp add: sched_inv_def gm_wf_def comp_def case_prod_unfold)
  then have "map_of (rev (map (\<lambda>(i, a). (i, sched_at s a)) (ss_schedules s))) = map_of (map (\<lambda>(i, a). (i, sched_at s a)) (ss_schedules s))"
    by (metis (no_types) map_of_inject_set rev_map set_rev distinct_rev)
  then show ?thesis unfolding eq by (simp add: view_def gm_get_def map_of_map fun_eq_iff)
qed

lemma view_log: "view (s\<lparr>ss_log := lg\<rparr>) = view s"
  by (simp add: view_def fun_eq_iff)

lemma restart_view:
  assumes "sched_inv s" "sc_dec sc data = Some (map (\<lambda>(i, a). sched_at s a) (ss_schedules s), ss_log s)"
  shows "\<exists>s'. sched_NewStore sc (Content data) path = Inr s' \<and> sched_inv s' \<and> view s' = view s \<and> ss_log s' = ss_log s"
proof -
  let ?schs = "map (\<lambda>(i, a). sched_at s a) (ss_schedules s)"
  let ?new = "(newStore path (Some data))\<lparr>ss_schedules := [], ss_heap := []\<rparr>"
  have "sched_inv ?new" "view ?new = Map.empty"
    by (simp_all add: newStore_def sched_inv_def view_def gm_wf_def gm_get_def fun_eq_iff)
  note l = load_view [OF this, of ?schs]
  have "sched_inv ((foldl load_schedule ?new ?schs)\<lparr>ss_log := ss_log s\<rparr>)"
    using l assms(1) by (simp add: sched_inv_def)
  moreover have "view ((foldl load_schedule ?new ?schs)\<lparr>ss_log := ss_log s\<rparr>) = view s"
    using l saved_view [OF assms(1)] view_log by simp
  ultimately show ?thesis using assms(2) by (simp add: sched_NewStore_def store_load_def)
qed

lemma DueSchedules_distinct:
  assumes "sched_inv s"
  shows "distinct (DueSchedules now s)"
proof -
  have wf: "gm_wf (ss_schedules s)" using assms by (simp add: sched_inv_def)
  have "distinct (map snd (ss_schedules s))"
  proof -
    have id: "fst p = sch_ID (sched_at s (snd p))" if "p \<in> set (ss_schedules s)" for p
      using assms that unfolding sched_inv_def by (cases p) auto
    have "inj_on snd (set (ss_schedules s))"
      by (rule inj_onI) (metis id prod.collapse)
    moreover have "distinct (ss_schedules s)" using wf by (simp add: gm_wf_def distinct_map)
    ultimately show ?thesis by (simp add: distinct_map)
  qed
  then show ?thesis by (simp add: DueSchedules_def ListAllSchedules_def)
qed

section \<open>Properties\<close>

text \<open>What a store makes of a schedule or a delivery record it is given: only fields that are
  unset are filled in.\<close>

definition completed :: "string \<Rightarrow> time \<Rightarrow> time \<Rightarrow> schedule \<Rightarrow> schedule" where
  "completed new_id t1 t2 sch =
     sch\<lparr>sch_ID := (if sch_ID sch = '''' then new_id else sch_ID sch),
         sch_CreatedAt := (if sch_CreatedAt sch = 0 then t1 else sch_CreatedAt sch),
         sch_NextRun := (if sch_NextRun sch = 0 then t2 + IntervalDur (sch_Interval sch) else sch_NextRun sch)\<rparr>"

definition completed_delivery :: "string \<Rightarrow> time \<Rightarrow> delivery \<Rightarrow> delivery" where
  "completed_delivery new_id now d =
     d\<lparr>wd_ID := (if wd_ID d = '''' then new_id else wd_ID d), wd_Timestamp := (if wd_Timestamp d = 0 then now else wd_Timestamp d)\<rparr>"

lemma AddSchedule_exact:
  assumes "sched_inv s" "AddSchedule new_id t1 t2 sch s = (k, a, s')"
  shows "k = sch_ID (completed new_id t1 t2 sch)" "view s' = (view s)(k \<mapsto> completed new_id t1 t2 sch)"
    "sched_inv s'" "GetSchedule k s' = Some a" "ss_log s' = ss_log s"
proof -
  have c: "sched_at s' a = completed new_id t1 t2 sch" "k = sch_ID (completed new_id t1 t2 sch)" "GetSchedule k s' = Some a" "ss_log s' = ss_log s"
    using assms(2) by (auto simp: AddSchedule_def completed_def Let_def markDirty_def GetSchedule_def sched_at_def gm.get_put)
  obtain sch' where v: "view s' = (view s)(k \<mapsto> sch')" "sched_inv s'" using AddSchedule_view(1,2) [OF assms] by auto
  have "view s' k = Some (completed new_id t1 t2 sch)" using c(1,3) by (simp add: view_def GetSchedule_def)
  then show "view s' = (view s)(k \<mapsto> completed new_id t1 t2 sch)" using v(1) by simp
  show "k = sch_ID (completed new_id t1 t2 sch)" "sched_inv s'" "GetSchedule k s' = Some a" "ss_log s' = ss_log s"
    using c v(2) by simp_all
qed

text \<open>C14: The store refines a finite map of schedules and a bounded log. Seen through identifiers,
  looking up, updating (with a change that leaves the identifier alone), deleting and adding
  act on the store as on a finite map, and each keeps the invariant; aliasing never shows,
  because no two identifiers share a schedule. An addition is stored under the given
  identifier, or under the drawn one when none is given, with every field as given except
  that an unset creation time and an unset next run (one interval ahead) are filled in. A
  logged delivery, with its unset fields filled in, ends the log, of which the newest hundred
  are kept, and leaves the schedules alone.\<close>

theorem store_refines_map:
  assumes "sched_inv s" "keeps_id f"
  shows "map_option (sched_at s) (GetSchedule i s) = view s i \<and>
     view (snd (UpdateSchedule i f s)) = (view s)(i := map_option f (view s i)) \<and> sched_inv (snd (UpdateSchedule i f s)) \<and>
     fst (UpdateSchedule i f s) = GetSchedule i s \<and>
     view (snd (DeleteSchedule i s)) = (view s)(i := None) \<and> sched_inv (snd (DeleteSchedule i s)) \<and>
     (fst (DeleteSchedule i s) \<longleftrightarrow> view s i \<noteq> None) \<and>
     (case AddSchedule new_id t1 t2 sch s of (k, a, s') \<Rightarrow>
        k = (if sch_ID sch = '''' then new_id else sch_ID sch) \<and> GetSchedule k s' = Some a \<and>
        view s' = (view s)(k \<mapsto> sch\<lparr>sch_ID := k, sch_CreatedAt := (if sch_CreatedAt sch = 0 then t1 else sch_CreatedAt sch),
          sch_NextRun := (if sch_NextRun sch = 0 then t2 + IntervalDur (sch_Interval sch) else sch_NextRun sch)\<rparr>) \<and>
        sched_inv s' \<and> ss_log s' = ss_log s) \<and>
     (let s' = LogDelivery new_id now d s; lg = ss_log s @ [completed_delivery new_id now d] in
        view s' = view s \<and> sched_inv s' \<and> ss_log s' = drop (length lg - 100) lg)"
proof -
  obtain k a s' where add: "AddSchedule new_id t1 t2 sch s = (k, a, s')" by (cases "AddSchedule new_id t1 t2 sch s")
  note e = AddSchedule_exact [OF assms(1) add]
  have "sch_ID (completed new_id t1 t2 sch) = (if sch_ID sch = '''' then new_id else sch_ID sch)" by (simp add: completed_def)
  then have "completed new_id t1 t2 sch = sch\<lparr>sch_ID := k, sch_CreatedAt := (if sch_CreatedAt sch = 0 then t1 else sch_CreatedAt sch),
      sch_NextRun := (if sch_NextRun sch = 0 then t2 + IntervalDur (sch_Interval sch) else sch_NextRun sch)\<rparr>"
    "k = (if sch_ID sch = '''' then new_id else sch_ID sch)"
    using e(1) by (simp_all add: completed_def)
  moreover have "map_option (sched_at s) (GetSchedule i s) = view s i" "fst (UpdateSchedule i f s) = GetSchedule i s"
    "fst (DeleteSchedule i s) \<longleftrightarrow> view s i \<noteq> None"
    by (simp_all add: DeleteSchedule_def GetSchedule_def UpdateSchedule_def view_def split: option.split)
  moreover have "ss_log (LogDelivery new_id now d s) = drop (length (ss_log s @ [completed_delivery new_id now d]) - 100) (ss_log s @ [completed_delivery new_id now d])"
    by (simp add: LogDelivery_def completed_delivery_def log_push_def markDirty_def maxDeliveryLog_def Let_def)
  ultimately show ?thesis
    using scheds.update_look [OF assms] scheds.update_inv [OF assms] scheds.remove_look [OF assms(1)] scheds.remove_inv [OF assms(1)]
      e(2-5) add LogDelivery_inv [OF assms(1)] by (simp add: Let_def)
qed

definition demo_schedule :: schedule where
  "demo_schedule = \<lparr>sch_ID = ''s1'', sch_URL = ''http://a'', sch_Interval = ''hourly'', sch_Owner = ''o'', sch_Enabled = True,
     sch_WebhookURL = ''http://hook'', sch_WebhookSecret = ''k'', sch_HasSecret = True, sch_LastRun = 0, sch_LastStatus = '''',
     sch_LastError = '''', sch_NextRun = 5, sch_RunCount = 0, sch_CreatedAt = 1\<rparr>"

definition demo_store :: sched_store where
  "demo_store = \<lparr>ss_path = ''p'', ss_schedules = [(''s1'', 0)], ss_heap = [demo_schedule], ss_log = [], ss_dirty = False, ss_stopped = False,
     ss_file = Some ''d''\<rparr>"

lemma demo_store_inv: "sched_inv demo_store"
  by (simp add: sched_inv_def demo_store_def gm_wf_def sched_at_def demo_schedule_def)

theorem store_refines_map_witness:
  "sched_inv demo_store \<and> view (snd (UpdateSchedule ''s1'' (\<lambda>x. x\<lparr>sch_Enabled := False\<rparr>) demo_store)) =
     [''s1'' \<mapsto> demo_schedule\<lparr>sch_Enabled := False\<rparr>]"
proof -
  have k: "keeps_id (\<lambda>x. x\<lparr>sch_Enabled := False\<rparr>)" by (simp add: keeps_id_def)
  have "view demo_store = [''s1'' \<mapsto> demo_schedule]" by (simp add: fun_eq_iff view_def demo_store_def gm_get_def sched_at_def)
  then show ?thesis using store_refines_map [OF demo_store_inv k, of "''s1''"] demo_store_inv by simp
qed

text \<open>C34: Orderly restart. After a successful \<open>Close\<close>, a store opened on the file shows the same
  schedules and the same delivery log.\<close>

theorem close_then_open:
  assumes "sched_inv s" "Close sc Renamed s = (True, s')"
    and "\<And>x d. sc_enc sc x = Some d \<Longrightarrow> sc_dec sc d = Some x"
  shows "\<exists>data s''. ss_file s' = Some data \<and> sched_NewStore sc (Content data) path = Inr s'' \<and>
     view s'' = view s \<and> ss_log s'' = ss_log s \<and> sched_inv s''"
proof -
  obtain data where d: "sc_enc sc (map (\<lambda>(i, a). sched_at s a) (ss_schedules s), ss_log s) = Some data" "ss_file s' = Some data"
    using assms(2) by (auto simp: Close_def store_save_def WriteFileAtomic_def split: option.splits)
  from restart_view [OF assms(1) assms(3) [OF d(1)]] show ?thesis using d(2) by blast
qed

definition demo_sched_codec :: sched_codec where
  "demo_sched_codec = \<lparr>sc_enc = (\<lambda>x. if x = ([demo_schedule], []) then Some ''d'' else None),
     sc_dec = (\<lambda>d. if d = ''d'' then Some ([demo_schedule], []) else None)\<rparr>"

theorem close_then_open_witness:
  "\<exists>s' s''. Close demo_sched_codec Renamed demo_store = (True, s') \<and> sched_NewStore demo_sched_codec (Content ''d'') ''p'' = Inr s'' \<and>
     view s'' = view demo_store"
proof -
  obtain s' where c: "Close demo_sched_codec Renamed demo_store = (True, s')" "ss_file s' = Some ''d''"
    by (simp add: Close_def store_save_def WriteFileAtomic_def demo_sched_codec_def demo_store_def sched_at_def)
  have "\<And>x d. sc_enc demo_sched_codec x = Some d \<Longrightarrow> sc_dec demo_sched_codec d = Some x"
    by (auto simp: demo_sched_codec_def split: if_splits)
  from close_then_open [OF demo_store_inv c(1) this, of "''p''"] show ?thesis using c by auto
qed

text \<open>Deletions and updates are not scheduled for saving. When the file is up to date,
  deleting or updating a schedule leaves the dirty channel empty, so the save loop does not
  write; a process that is restarted without \<open>Close\<close> has the old schedule back.\<close>

theorem delete_lost_without_close:
  assumes "sched_inv s" "\<not> ss_dirty s" "ss_file s = Some data"
    and "sc_dec sc data = Some (map (\<lambda>(i, a). sched_at s a) (ss_schedules s), ss_log s)"
  shows "saveLoop_round sc oc (snd (DeleteSchedule i s)) = snd (DeleteSchedule i s) \<and>
     saveLoop_round sc oc (snd (UpdateSchedule i f s)) = snd (UpdateSchedule i f s) \<and>
     ss_file (snd (DeleteSchedule i s)) = Some data \<and> ss_file (snd (UpdateSchedule i f s)) = Some data \<and>
     (\<exists>s'. sched_NewStore sc (Content data) path = Inr s' \<and> view s' i = view s i)"
proof -
  have "\<not> ss_dirty (snd (DeleteSchedule i s))" "\<not> ss_dirty (snd (UpdateSchedule i f s))"
    "ss_file (snd (DeleteSchedule i s)) = Some data" "ss_file (snd (UpdateSchedule i f s)) = Some data"
    using assms(2,3) by (auto simp: DeleteSchedule_def UpdateSchedule_eq split: option.splits)
  then show ?thesis using restart_view [OF assms(1,4), of path] by (auto simp: saveLoop_round_def)
qed

theorem delete_lost_without_close_witness:
  "view (snd (DeleteSchedule ''s1'' demo_store)) ''s1'' = None \<and>
   (\<exists>s'. sched_NewStore demo_sched_codec (Content ''d'') ''p'' = Inr s' \<and> view s' ''s1'' = Some demo_schedule)"
proof -
  have "\<not> ss_dirty demo_store" "ss_file demo_store = Some ''d''"
    "sc_dec demo_sched_codec ''d'' = Some (map (\<lambda>(i, a). sched_at demo_store a) (ss_schedules demo_store), ss_log demo_store)"
    by (simp_all add: demo_store_def demo_sched_codec_def sched_at_def)
  from delete_lost_without_close [OF demo_store_inv this] have "\<exists>s'. sched_NewStore demo_sched_codec (Content ''d'') ''p'' = Inr s' \<and> view s' ''s1'' = view demo_store ''s1''" by blast
  then show ?thesis by (simp add: DeleteSchedule_view) (simp add: view_def demo_store_def gm_get_def sched_at_def)
qed

text \<open>Due schedules. \<open>DueSchedules\<close> returns exactly the enabled schedules of the store whose
  next run is not in the future, each once, soonest first.\<close>

theorem due_exact:
  assumes "sched_inv s"
  shows "set (DueSchedules now s) = {a. \<exists>i. gm_get (ss_schedules s) i = Some a \<and> sch_Enabled (sched_at s a) \<and> sch_NextRun (sched_at s a) \<le> now} \<and>
     distinct (DueSchedules now s) \<and> sorted (map (\<lambda>a. sch_NextRun (sched_at s a)) (DueSchedules now s))"
proof -
  have wf: "gm_wf (ss_schedules s)" using assms by (simp add: sched_inv_def)
  have mem: "a \<in> snd ` set (ss_schedules s) \<longleftrightarrow> (\<exists>i. gm_get (ss_schedules s) i = Some a)" for a
    using gm_in_set_get [OF wf] by (force dest: gm_get_in_set)
  have "distinct (DueSchedules now s)" by (rule DueSchedules_distinct [OF assms])
  moreover have "sorted (map (\<lambda>a. sch_NextRun (sched_at s a)) (DueSchedules now s))"
    unfolding DueSchedules_def ListAllSchedules_def by (rule sorted_filter) simp
  ultimately show ?thesis using mem by (auto simp: DueSchedules_def not_less)
qed

theorem due_exact_witness: "sched_inv demo_store \<and> set (DueSchedules 7 demo_store) = {0} \<and> set (DueSchedules 4 demo_store) = {}"
proof -
  have get: "(\<exists>i. gm_get (ss_schedules demo_store) i = Some a) \<longleftrightarrow> a = 0" for a
    by (auto simp: demo_store_def gm_get_def)
  have "sch_Enabled (sched_at demo_store 0)" "sch_NextRun (sched_at demo_store 0) = 5" by (simp_all add: demo_store_def sched_at_def demo_schedule_def)
  then have eq: "{a. \<exists>i. gm_get (ss_schedules demo_store) i = Some a \<and> sch_Enabled (sched_at demo_store a) \<and> sch_NextRun (sched_at demo_store a) \<le> t}
      = (if 5 \<le> t then {0} else {})" for t by (simp add: get conj_commute cong: conj_cong)
  have "set (DueSchedules t demo_store) = (if 5 \<le> t then {0} else {})" for t
    using conjunct1 [OF due_exact [OF demo_store_inv, of t]] unfolding eq .
  from this [of 7] this [of 4] demo_store_inv show ?thesis by (simp only: if_True if_False) simp
qed

text \<open>The delivery log keeps the newest 100 records: after any deliveries, \<open>RecentDeliveries\<close>
  returns the last of them, newest first, as many as asked for and available.\<close>

theorem recent_deliveries_newest_first:
  assumes "ss_log s = foldl log_push [] ds"
  shows "RecentDeliveries n s = take (if 0 < n then nat n else 100) (rev (drop (length ds - 100) ds))"
proof -
  have lg: "ss_log s = drop (length ds - 100) ds" using assms delivery_log.push_all by simp
  let ?k = "if n \<le> 0 \<or> n > int (length (ss_log s)) then length (ss_log s) else nat n"
  have "RecentDeliveries n s = take ?k (rev (ss_log s))"
    using recent_loop_rev [of "length (ss_log s)" "ss_log s" "[]" ?k] by (simp add: RecentDeliveries_def Let_def)
  also have "\<dots> = take (if 0 < n then nat n else 100) (rev (ss_log s))"
    using lg by (cases "0 < n") (auto simp: take_all)
  finally show ?thesis using lg by simp
qed

theorem recent_deliveries_newest_first_witness:
  "\<exists>d1 d2 :: delivery. d1 \<noteq> d2 \<and> RecentDeliveries 1 (demo_store\<lparr>ss_log := foldl log_push [] [d1, d2]\<rparr>) = [d2]"
proof -
  let ?d = "\<lambda>i. \<lparr>wd_ID = i, wd_ScheduleID = '''', wd_URL = '''', wd_Attempt = 1, wd_Status = '''', wd_HTTPCode = 200, wd_Error = '''',
      wd_DurationMs = 0, wd_Timestamp = 0\<rparr>"
  have "RecentDeliveries 1 (demo_store\<lparr>ss_log := foldl log_push [] [?d ''a'', ?d ''b'']\<rparr>) = [?d ''b'']"
    using recent_deliveries_newest_first [of "demo_store\<lparr>ss_log := foldl log_push [] [?d ''a'', ?d ''b'']\<rparr>" "[?d ''a'', ?d ''b'']" 1] by simp
  then show ?thesis by (intro exI [of _ "?d ''a''"] exI [of _ "?d ''b''"]) simp
qed

end
