(* ===== verification/Scan_Types.thy ===== *)
theory Scan_Types
  imports Go_Map Go_Strings
begin

text \<open>
  The data of the scanner: fingerprints (\<^verbatim>\<open>internal/fingerprint/loader.go\<close>), detections and
  scan results (\<^verbatim>\<open>internal/scanner/scanner.go\<close>) and the enrichment records of
  \<^verbatim>\<open>internal/scanner/enrich.go\<close>, with the look-ups of the fingerprint package. An optional
  pointer is an \<open>option\<close>; a Go \<^verbatim>\<open>error\<close> is its message.
\<close>

record detection_rule =
  dr_Pattern :: string
  dr_Match :: string
  dr_Confidence :: int
  dr_Name :: string
  dr_Header :: string

record detectors =
  d_HTML :: "detection_rule list"
  d_Headers :: "detection_rule list"
  d_Scripts :: "detection_rule list"
  d_Cookies :: "detection_rule list"
  d_URL :: "detection_rule list"
  d_JSGlobals :: "detection_rule list"
  d_CSS :: "detection_rule list"
  d_Meta :: "detection_rule list"

record technology =
  t_Slug :: string
  t_Name :: string
  t_Website :: string
  t_Category :: string
  t_Icon :: string
  t_Detectors :: detectors
  t_Implies :: "string list"
  t_Excludes :: "string list"

record database =
  db_Version :: string
  db_Updated :: string
  db_Technologies :: "technology list"

record tech_match =
  m_Type :: string
  m_Rule :: string
  m_Detail :: string

record tech_result =
  tr_Technology :: technology
  tr_Confidence :: int
  tr_Matches :: "tech_match list"

record dns_mx =
  mx_Host :: string
  mx_Pref :: int

record dns_info =
  dns_A :: "string list"
  dns_AAAA :: "string list"
  dns_MX :: "dns_mx list"
  dns_NS :: "string list"
  dns_TXT :: "string list"
  dns_CNAME :: string
  dns_EmailProvider :: string
  dns_DNSProvider :: string
  dns_Error :: string

record whois_info =
  wh_Registrar :: string
  wh_CreatedDate :: string
  wh_ExpiryDate :: string
  wh_UpdatedDate :: string
  wh_Status :: "string list"
  wh_NameServers :: "string list"
  wh_DomainAgeDays :: int
  wh_DaysToExpiry :: int
  wh_RDAPEndpoint :: string
  wh_Error :: string

record ssl_info =
  ssl_Issuer :: string
  ssl_Subject :: string
  ssl_NotBefore :: time
  ssl_NotAfter :: time
  ssl_DaysUntilExpiry :: int
  ssl_SANCount :: int
  ssl_SelfSigned :: bool
  ssl_TLSVersion :: string
  ssl_CipherSuite :: string
  ssl_Error :: string

record perf_metrics =
  pf_TTFB :: int
  pf_TotalDuration :: int
  pf_HTMLSizeBytes :: int
  pf_JSBundleSizeBytes :: int
  pf_CSSBundleSizeBytes :: int
  pf_ScriptCount :: int
  pf_StylesheetCount :: int
  pf_InlineScriptBytes :: int
  pf_ExternalScriptBytes :: int
  pf_TotalAssetBytes :: int
  pf_HeadingsCount :: int
  pf_MetaTagsCount :: int
  pf_LinksCount :: int
  pf_ImagesCount :: int

record scan_result =
  sr_URL :: string
  sr_HTML :: string
  sr_Headers :: "(string, string) gomap"
  sr_Scripts :: "string list"
  sr_CSSLinks :: "string list"
  sr_JSGlobals :: "string list"
  sr_MetaTags :: "(string, string) gomap"
  sr_Cookies :: "string list"
  sr_Results :: "tech_result list"
  sr_Emails :: "string list"
  sr_DNS :: "dns_info option"
  sr_WHOIS :: "whois_info option"
  sr_SSL :: "ssl_info option"
  sr_Perf :: "perf_metrics option"
  sr_ScanDuration :: duration
  sr_Error :: "string option"

definition empty_scan :: "string \<Rightarrow> scan_result" where
  "empty_scan url =
     \<lparr>sr_URL = url, sr_HTML = '''', sr_Headers = [], sr_Scripts = [], sr_CSSLinks = [], sr_JSGlobals = [],
      sr_MetaTags = [], sr_Cookies = [], sr_Results = [], sr_Emails = [], sr_DNS = None, sr_WHOIS = None,
      sr_SSL = None, sr_Perf = None, sr_ScanDuration = 0, sr_Error = None\<rparr>"

section \<open>The fingerprint database\<close>

datatype load_error = ReadFingerprint | ParseFingerprint

text \<open>The package variable \<^verbatim>\<open>db\<close> is \<open>None\<close> until the first successful \<open>Load\<close>. \<open>file\<close> is what
  \<^verbatim>\<open>os.ReadFile\<close> returns and \<open>parse\<close> the JSON decoder.\<close>

definition Load ::
  "(string \<Rightarrow> database option) \<Rightarrow> string option \<Rightarrow> database option \<Rightarrow> (load_error + database) \<times> database option"
where
  "Load parse file db =
     (case file of
        None \<Rightarrow> (Inl ReadFingerprint, db)
      | Some data \<Rightarrow> (case parse data of
          None \<Rightarrow> (Inl ParseFingerprint, db)
        | Some d \<Rightarrow> (Inr d, Some d)))"

definition GetTechnologies :: "database option \<Rightarrow> technology list" where
  "GetTechnologies db = (case db of None \<Rightarrow> [] | Some d \<Rightarrow> db_Technologies d)"

definition GetByCategory :: "string \<Rightarrow> database option \<Rightarrow> technology list" where
  "GetByCategory category db =
     (case db of None \<Rightarrow> [] | Some d \<Rightarrow> filter (\<lambda>tech. t_Category tech = category) (db_Technologies d))"

definition FindBySlug :: "string \<Rightarrow> database option \<Rightarrow> technology option" where
  "FindBySlug slug db =
     (case db of None \<Rightarrow> None | Some d \<Rightarrow> find (\<lambda>tech. t_Slug tech = slug) (db_Technologies d))"

end
