(* ===== verification/Webhook.thy ===== *)
theory Webhook
  imports Sched_Validate Sched_Store Scan_Types
begin

text \<open>
  Webhook delivery, \<^verbatim>\<open>internal/scheduler/scheduler.go\<close>: the payload, its truncation, one POST
  and the retry loop. The dispatcher keeps a pointer to the schedule and reads it several
  times while others may change it: \<open>de_sch 0\<close> is what it reads up to the validation,
  \<open>de_sch k\<close> what it reads during attempt \<open>k\<close>. Parameters: the JSON encoder, the HMAC in
  hexadecimal, and the HTTP client, which answers each attempt with a status or an error.
\<close>

definition MaxPayloadHTMLBytes :: nat where
  "MaxPayloadHTMLBytes = 4096"

record webhook_payload =
  wp_Version :: string
  wp_Event :: string
  wp_ScheduleID :: string
  wp_URL :: string
  wp_Status :: string
  wp_Error :: string
  wp_Timestamp :: time
  wp_Result :: "scan_result option"

definition sanitizeForWebhook :: "scan_result option \<Rightarrow> scan_result option" where
  "sanitizeForWebhook r =
     (case r of
        None \<Rightarrow> None
      | Some cp \<Rightarrow> Some
          (if length (sr_HTML cp) > MaxPayloadHTMLBytes
           then cp\<lparr>sr_HTML := take MaxPayloadHTMLBytes (sr_HTML cp) @ ''...[truncated, fetch full result via /api/results/'' @ sr_URL cp @ '']''\<rparr>
           else cp))"

section \<open>One POST\<close>

record out_request =
  oq_Method :: string
  oq_URL :: string
  oq_Header :: "(string, string) gomap"
  oq_Body :: string

record http_client =
  hc_NewRequest :: "string \<Rightarrow> string option"
  hc_Do :: "out_request \<Rightarrow> string + int"

text \<open>The result: the request that was sent, if any, the status code and the error.\<close>

definition postOnce :: "(string \<Rightarrow> string \<Rightarrow> string) \<Rightarrow> http_client \<Rightarrow> string \<Rightarrow> string \<Rightarrow> string \<Rightarrow> out_request option \<times> int \<times> string option" where
  "postOnce hmac hc url body secret =
     (case hc_NewRequest hc url of
        Some err \<Rightarrow> (None, 0, Some err)
      | None \<Rightarrow>
          let h1 = gm_put ''Content-Type'' ''application/json'' [];
              h2 = gm_put ''User-Agent'' ''Stackly-Webhook/1.0'' h1;
              h3 = gm_put ''X-Stackly-Event'' ''scan'' h2;
              h4 = (if secret \<noteq> '''' then gm_put ''X-Stackly-Signature'' (''sha256='' @ hmac secret body) h3 else h3);
              req = \<lparr>oq_Method = ''POST'', oq_URL = url, oq_Header = h4, oq_Body = body\<rparr>
          in (case hc_Do hc req of
                Inl err \<Rightarrow> (Some req, 0, Some err)
              | Inr code \<Rightarrow>
                  if 200 \<le> code \<and> code < 300 then (Some req, code, None)
                  else (Some req, code, Some (''non-2xx response: '' @ Itoa code))))"

section \<open>The retry loop\<close>

record dispatch_env =
  de_sch :: "nat \<Rightarrow> schedule"
  de_now :: time
  de_Marshal :: "webhook_payload \<Rightarrow> string + string"
  de_net :: net_env
  de_net_msg :: "url_error \<Rightarrow> string"
  de_hmac :: "string \<Rightarrow> string \<Rightarrow> string"
  de_client :: "nat \<Rightarrow> http_client"
  de_ms :: "nat \<Rightarrow> int"

datatype wh_effect = WPost out_request | WSleep duration | WLog delivery

definition logDelivery :: "string \<Rightarrow> string \<Rightarrow> int \<Rightarrow> string \<Rightarrow> int \<Rightarrow> string \<Rightarrow> int \<Rightarrow> wh_effect" where
  "logDelivery scheduleID url attempt status code errMsg durMs =
     WLog \<lparr>wd_ID = '''', wd_ScheduleID = scheduleID, wd_URL = url, wd_Attempt = attempt, wd_Status = status,
       wd_HTTPCode = code, wd_Error = errMsg, wd_DurationMs = durMs, wd_Timestamp = 0\<rparr>"

definition maxAttempts :: nat where
  "maxAttempts = 3"

definition post_effect :: "out_request option \<Rightarrow> wh_effect list" where
  "post_effect r = (case r of None \<Rightarrow> [] | Some req \<Rightarrow> [WPost req])"

function attempt_loop :: "dispatch_env \<Rightarrow> string \<Rightarrow> nat \<Rightarrow> duration \<Rightarrow> wh_effect list" where
  "attempt_loop de body attempt backoff =
     (if attempt \<le> maxAttempts then
        let sch = de_sch de attempt;
            (req, code, derr) = postOnce (de_hmac de) (de_client de attempt) (sch_WebhookURL sch) body (sch_WebhookSecret sch);
            dur = de_ms de attempt
        in if derr = None \<and> 200 \<le> code \<and> code < 300 then
             post_effect req @ [logDelivery (sch_ID sch) (sch_WebhookURL sch) (int attempt) ''success'' code '''' dur]
           else
             let errMsg = (case derr of Some e \<Rightarrow> e | None \<Rightarrow> ''HTTP '' @ Itoa code)
             in if attempt = maxAttempts then
                  post_effect req @ [logDelivery (sch_ID sch) (sch_WebhookURL sch) (int attempt) ''failed'' code errMsg dur]
                else post_effect req @ WSleep backoff # attempt_loop de body (attempt + 1) (backoff * 3)
      else [])"
  by pat_completeness auto
termination by (relation "measure (\<lambda>(de, body, attempt, backoff). maxAttempts + 1 - attempt)") auto

definition webhook_event :: "string \<Rightarrow> string" where
  "webhook_event status = (if status \<noteq> ''success'' then ''scan.failed'' else ''scan.completed'')"

definition payload_of :: "dispatch_env \<Rightarrow> scan_result option \<Rightarrow> string \<Rightarrow> string \<Rightarrow> webhook_payload" where
  "payload_of de result status errStr =
     \<lparr>wp_Version = ''v1'', wp_Event = webhook_event status, wp_ScheduleID = sch_ID (de_sch de 0), wp_URL = sch_URL (de_sch de 0),
      wp_Status = status, wp_Error = errStr, wp_Timestamp = de_now de, wp_Result = sanitizeForWebhook result\<rparr>"

definition dispatchWebhook :: "dispatch_env \<Rightarrow> scan_result option \<Rightarrow> string \<Rightarrow> string \<Rightarrow> wh_effect list" where
  "dispatchWebhook de result status errStr =
     (let sch = de_sch de 0 in
      case de_Marshal de (payload_of de result status errStr) of
        Inl err \<Rightarrow> [logDelivery (sch_ID sch) (sch_WebhookURL sch) 0 ''failed'' 0 (''marshal: '' @ err) 0]
      | Inr body \<Rightarrow>
          (case ValidateWebhookURL (de_net de) (sch_WebhookURL sch) of
             Some vErr \<Rightarrow> [logDelivery (sch_ID sch) (sch_WebhookURL sch) 0 ''failed'' 0 (''validation: '' @ de_net_msg de vErr) 0]
           | None \<Rightarrow> attempt_loop de body 1 (1 * second)))"

section \<open>The request body\<close>

record bytesReader =
  br_b :: string
  br_off :: nat

definition readerOf :: "string \<Rightarrow> bytesReader" where
  "readerOf b = \<lparr>br_b = b, br_off = 0\<rparr>"

text \<open>\<open>Read\<close> into a buffer of \<open>n\<close> bytes: \<open>None\<close> is end of file, otherwise the bytes copied.\<close>

definition reader_Read :: "nat \<Rightarrow> bytesReader \<Rightarrow> string option \<times> bytesReader" where
  "reader_Read n r =
     (if br_off r \<ge> length (br_b r) then (None, r)
      else let p = take n (drop (br_off r) (br_b r)) in (Some p, r\<lparr>br_off := br_off r + length p\<rparr>))"

text \<open>A consumer that reads with the buffer sizes \<open>ns\<close> until the end of file.\<close>

fun read_all :: "nat list \<Rightarrow> bytesReader \<Rightarrow> (string \<times> bool)" where
  "read_all [] r = ('''', False)"
| "read_all (n # ns) r =
     (case reader_Read n r of
        (None, r') \<Rightarrow> ('''', True)
      | (Some p, r') \<Rightarrow> let (rest, eof) = read_all ns r' in (p @ rest, eof))"

lemma read_all_drop:
  assumes "\<forall>n \<in> set ns. 0 < n"
  shows "prefix (fst (read_all ns r)) (drop (br_off r) (br_b r)) \<and>
     (length (br_b r) - br_off r < length ns \<longrightarrow> read_all ns r = (drop (br_off r) (br_b r), True))"
  using assms
proof (induction ns arbitrary: r)
  case (Cons n ns)
  show ?case
  proof (cases "br_off r \<ge> length (br_b r)")
    case True
    then show ?thesis by (simp add: reader_Read_def)
  next
    case False
    let ?p = "take n (drop (br_off r) (br_b r))"
    let ?r = "r\<lparr>br_off := br_off r + length ?p\<rparr>"
    have split: "drop (br_off r) (br_b r) = ?p @ drop (br_off ?r) (br_b r)"
    proof -
      have "drop (br_off ?r) (br_b r) = drop (length ?p) (drop (br_off r) (br_b r))" by (simp add: add.commute)
      moreover have "?p = take (length ?p) (drop (br_off r) (br_b r))" by (metis append_eq_conv_conj append_take_drop_id)
      ultimately show ?thesis by (metis append_take_drop_id)
    qed
    have p: "0 < length ?p" using False Cons.prems by simp
    obtain rest eof where ra: "read_all ns ?r = (rest, eof)" by (cases "read_all ns ?r")
    have all: "read_all (n # ns) r = (?p @ rest, eof)" using False ra by (simp add: reader_Read_def Let_def)
    have IH: "prefix rest (drop (br_off ?r) (br_b r))"
      "length (br_b r) - br_off ?r < length ns \<Longrightarrow> rest = drop (br_off ?r) (br_b r) \<and> eof"
      using Cons.IH [of ?r] Cons.prems unfolding ra by simp_all
    have "length (br_b r) - br_off ?r < length ns" if "length (br_b r) - br_off r < length (n # ns)" using that False p by simp
    then show ?thesis unfolding all fst_conv by (subst (1 2) split) (use IH in \<open>simp only: same_prefix_prefix prod.inject simp_thms; blast\<close>)
  qed
qed simp

section \<open>Deliveries\<close>

declare attempt_loop.simps [simp del]

text \<open>The outcome of attempt \<open>k\<close>, and whether the receiver accepted it.\<close>

definition attempt_at :: "dispatch_env \<Rightarrow> string \<Rightarrow> nat \<Rightarrow> out_request option \<times> int \<times> string option" where
  "attempt_at de body k =
     postOnce (de_hmac de) (de_client de k) (sch_WebhookURL (de_sch de k)) body (sch_WebhookSecret (de_sch de k))"

definition accepted :: "dispatch_env \<Rightarrow> string \<Rightarrow> nat \<Rightarrow> bool" where
  "accepted de body k \<longleftrightarrow> 200 \<le> fst (snd (attempt_at de body k)) \<and> fst (snd (attempt_at de body k)) < 300"

lemma postOnce_ok: "200 \<le> fst (snd (postOnce hmac hc url body secret)) \<and> fst (snd (postOnce hmac hc url body secret)) < 300 \<Longrightarrow>
    snd (snd (postOnce hmac hc url body secret)) = None"
  by (auto simp: postOnce_def Let_def split: option.splits sum.splits if_splits)

text \<open>The record written for attempt \<open>k\<close> when it is the last one.\<close>

definition final_log :: "dispatch_env \<Rightarrow> string \<Rightarrow> nat \<Rightarrow> wh_effect" where
  "final_log de body k =
     logDelivery (sch_ID (de_sch de k)) (sch_WebhookURL (de_sch de k)) (int k)
       (if accepted de body k then ''success'' else ''failed'') (fst (snd (attempt_at de body k)))
       (if accepted de body k then ''''
        else case snd (snd (attempt_at de body k)) of Some e \<Rightarrow> e | None \<Rightarrow> ''HTTP '' @ Itoa (fst (snd (attempt_at de body k))))
       (de_ms de k)"

lemma attempt_loop_unroll:
  assumes "k \<le> 3"
  shows "attempt_loop de body k b = post_effect (fst (attempt_at de body k)) @
     (if accepted de body k \<or> k = 3 then [final_log de body k] else WSleep b # attempt_loop de body (k + 1) (b * 3))"
proof -
  obtain req code derr where at: "attempt_at de body k = (req, code, derr)" by (cases "attempt_at de body k")
  have "derr = None" if "200 \<le> code" "code < 300" using postOnce_ok that at unfolding attempt_at_def by (metis fst_conv snd_conv)
  moreover have "accepted de body k \<longleftrightarrow> 200 \<le> code \<and> code < 300" by (simp add: accepted_def at)
  ultimately show ?thesis
    using assms unfolding attempt_loop.simps [of de body k b] attempt_at_def [symmetric] Let_def final_log_def at fst_conv snd_conv
    by (cases "accepted de body k") (auto simp: maxAttempts_def)
qed

lemma attempt_loop_all:
  "attempt_loop de body 1 b =
     post_effect (fst (attempt_at de body 1)) @
     (if accepted de body 1 then [final_log de body 1]
      else WSleep b # post_effect (fst (attempt_at de body 2)) @
        (if accepted de body 2 then [final_log de body 2]
         else WSleep (b * 3) # post_effect (fst (attempt_at de body 3)) @ [final_log de body 3]))"
  using attempt_loop_unroll [of 1 de body b] attempt_loop_unroll [of 2 de body "b * 3"] attempt_loop_unroll [of 3 de body "b * 3 * 3"]
  by (simp add: nat_1_add_1 [symmetric] numeral_3_eq_3)

definition is_log :: "wh_effect \<Rightarrow> bool" where
  "is_log e = (case e of WLog d \<Rightarrow> True | _ \<Rightarrow> False)"

definition is_post :: "wh_effect \<Rightarrow> bool" where
  "is_post e = (case e of WPost r \<Rightarrow> True | _ \<Rightarrow> False)"

lemma is_simps [simp]:
  "\<not> is_log (WPost r)" "\<not> is_log (WSleep b)" "is_log (WLog d)" "is_post (WPost r)" "\<not> is_post (WSleep b)" "\<not> is_post (WLog d)"
  "is_log (logDelivery i u a st c e ms)" "\<not> is_post (logDelivery i u a st c e ms)" "is_log (final_log de body k)" "\<not> is_post (final_log de body k)"
  "filter is_log (post_effect p) = []" "filter is_post (post_effect p) = post_effect p" "length (post_effect p) \<le> 1"
  by (auto simp: is_log_def is_post_def logDelivery_def final_log_def post_effect_def split: option.splits)

lemma post_effect_at: "WPost r \<in> set (post_effect (fst (attempt_at de body k))) \<longleftrightarrow> fst (attempt_at de body k) = Some r"
  by (auto simp: post_effect_def split: option.splits)

lemma posted_request:
  assumes "fst (attempt_at de body k) = Some r"
  shows "oq_Method r = ''POST'' \<and> oq_URL r = sch_WebhookURL (de_sch de k) \<and> oq_Body r = body \<and>
     gm_get (oq_Header r) ''X-Stackly-Signature'' =
       (if sch_WebhookSecret (de_sch de k) = '''' then None else Some (''sha256='' @ de_hmac de (sch_WebhookSecret (de_sch de k)) body))"
  using assms
  by (auto simp: attempt_at_def postOnce_def Let_def gm.get_put gm.get_empty split: option.splits sum.splits if_splits)

lemma dispatch_posts:
  assumes "WPost r \<in> set (dispatchWebhook de result status errStr)"
  shows "ValidateWebhookURL (de_net de) (sch_WebhookURL (de_sch de 0)) = None \<and>
     de_Marshal de (payload_of de result status errStr) = Inr (oq_Body r) \<and>
     (\<exists>k \<in> {1, 2, 3}. oq_Method r = ''POST'' \<and> oq_URL r = sch_WebhookURL (de_sch de k) \<and>
        gm_get (oq_Header r) ''X-Stackly-Signature'' =
          (if sch_WebhookSecret (de_sch de k) = '''' then None
           else Some (''sha256='' @ de_hmac de (sch_WebhookSecret (de_sch de k)) (oq_Body r))))"
proof -
  have no: "WPost r \<noteq> logDelivery i u a st c e ms" "WPost r \<noteq> final_log de b k" for i u a st c e ms b k by (simp_all add: logDelivery_def final_log_def)
  obtain body where b: "de_Marshal de (payload_of de result status errStr) = Inr body"
    and v: "ValidateWebhookURL (de_net de) (sch_WebhookURL (de_sch de 0)) = None"
    and r: "WPost r \<in> set (attempt_loop de body 1 second)"
    using assms no by (auto simp: dispatchWebhook_def Let_def split: sum.splits option.splits)
  have "\<exists>k \<in> {1, 2, 3}. fst (attempt_at de body k) = Some r"
    using r no by (auto simp: attempt_loop_all [unfolded One_nat_def] post_effect_at split: if_splits)
  then show ?thesis using posted_request b v by blast
qed

section \<open>Properties\<close>

text \<open>C19: One record per delivery. Every dispatch ends with its only entry in the delivery log, after
  at most three POSTs, with pauses of one and three seconds between them. The entry says
  success exactly when the payload could be encoded, the URL was accepted and one of the three
  attempts was answered with a 2xx status; it then carries the number of the first such attempt.\<close>

theorem one_record_per_delivery:
  "\<exists>effs d. dispatchWebhook de result status errStr = effs @ [WLog d] \<and> filter is_log effs = [] \<and> length (filter is_post effs) \<le> 3 \<and>
     (filter (\<lambda>e. \<not> is_post e) effs = [] \<or> filter (\<lambda>e. \<not> is_post e) effs = [WSleep second] \<or>
      filter (\<lambda>e. \<not> is_post e) effs = [WSleep second, WSleep (3 * second)]) \<and>
     (wd_Status d = ''success'' \<longleftrightarrow> (\<exists>body k. de_Marshal de (payload_of de result status errStr) = Inr body \<and>
        ValidateWebhookURL (de_net de) (sch_WebhookURL (de_sch de 0)) = None \<and> find (accepted de body) [1, 2, 3] = Some k \<and> wd_Attempt d = int k))"
proof (cases "\<exists>body. de_Marshal de (payload_of de result status errStr) = Inr body \<and> ValidateWebhookURL (de_net de) (sch_WebhookURL (de_sch de 0)) = None")
  case False
  then have "\<exists>d. dispatchWebhook de result status errStr = [] @ [WLog d] \<and> wd_Status d = ''failed''"
    by (auto simp: dispatchWebhook_def Let_def logDelivery_def split: sum.splits option.splits)
  then obtain d where "dispatchWebhook de result status errStr = [] @ [WLog d]" "wd_Status d = ''failed''" by blast
  then show ?thesis using False by (intro exI [of _ "[]"] exI [of _ d]) auto
next
  case True
  then obtain body where b: "de_Marshal de (payload_of de result status errStr) = Inr body"
    and v: "ValidateWebhookURL (de_net de) (sch_WebhookURL (de_sch de 0)) = None" by blast
  have run: "dispatchWebhook de result status errStr = attempt_loop de body 1 second" using b v by (simp add: dispatchWebhook_def)
  obtain d where d: "\<And>k. final_log de body k = WLog (d k)" "\<And>k. wd_Status (d k) = ''success'' \<longleftrightarrow> accepted de body k" "\<And>k. wd_Attempt (d k) = int k"
    by (rule that [of "\<lambda>k. case final_log de body k of WLog d \<Rightarrow> d"]) (auto simp: final_log_def logDelivery_def)
  let ?p = "\<lambda>k. post_effect (fst (attempt_at de body k))"
  have np: "filter (\<lambda>e. \<not> is_post e) (?p k) = []" for k by (auto simp: post_effect_def split: option.splits)
  have len: "length (?p k) \<le> 1" for k by (rule is_simps)
  have len2: "length (?p 1) + length (?p 2) + length (?p 3) \<le> 3" using len [of 1] len [of 2] len [of 3] by linarith
  consider "accepted de body 1" | "\<not> accepted de body 1" "accepted de body 2" | "\<not> accepted de body 1" "\<not> accepted de body 2" by blast
  then show ?thesis
  proof cases
    case 1
    then have "dispatchWebhook de result status errStr = ?p 1 @ [WLog (d 1)]" using run d by (simp add: attempt_loop_all [unfolded One_nat_def])
    then show ?thesis using 1 b v d(2,3) np len2 by (intro exI [of _ "?p 1"] exI [of _ "d 1"]) simp
  next
    case 2
    then have "dispatchWebhook de result status errStr = (?p 1 @ WSleep second # ?p 2) @ [WLog (d 2)]" using run d by (simp add: attempt_loop_all [unfolded One_nat_def])
    then show ?thesis using 2 b v d(2,3) np len2 by (intro exI [of _ "?p 1 @ WSleep second # ?p 2"] exI [of _ "d 2"]) simp
  next
    case 3
    then have "dispatchWebhook de result status errStr = (?p 1 @ WSleep second # ?p 2 @ WSleep (3 * second) # ?p 3) @ [WLog (d 3)]"
      using run d by (simp add: attempt_loop_all [unfolded One_nat_def] mult.commute)
    then show ?thesis using 3 b v d(2,3) np len2 by (intro exI [of _ "?p 1 @ WSleep second # ?p 2 @ WSleep (3 * second) # ?p 3"] exI [of _ "d 3"]) simp
  qed
qed


text \<open>C18: What is sent where. A dispatch sends nothing unless the schedule's webhook URL passed
  \<open>ValidateWebhookURL\<close> just before. Every request is a POST of the encoded payload to the
  webhook URL the schedule has at that attempt, and carries the HMAC of the body under the
  schedule's secret exactly when there is a secret.\<close>

theorem posts_validated_and_signed:
  assumes "WPost r \<in> set (dispatchWebhook de result status errStr)"
  shows "ValidateWebhookURL (de_net de) (sch_WebhookURL (de_sch de 0)) = None \<and>
     de_Marshal de (payload_of de result status errStr) = Inr (oq_Body r) \<and>
     (\<exists>k \<in> {1, 2, 3}. oq_Method r = ''POST'' \<and> oq_URL r = sch_WebhookURL (de_sch de k) \<and>
        gm_get (oq_Header r) ''X-Stackly-Signature'' =
          (if sch_WebhookSecret (de_sch de k) = '''' then None
           else Some (''sha256='' @ de_hmac de (sch_WebhookSecret (de_sch de k)) (oq_Body r))))"
  by (rule dispatch_posts [OF assms])

definition demo_dispatch :: dispatch_env where
  "demo_dispatch =
     \<lparr>de_sch = (\<lambda>k. \<lparr>sch_ID = ''s'', sch_URL = ''u'', sch_Interval = ''daily'', sch_Owner = '''', sch_Enabled = True,
        sch_WebhookURL = ''h'', sch_WebhookSecret = ''k'', sch_HasSecret = True, sch_LastRun = 0, sch_LastStatus = '''', sch_LastError = '''',
        sch_NextRun = 0, sch_RunCount = 0, sch_CreatedAt = 0\<rparr>),
      de_now = 1, de_Marshal = (\<lambda>p. Inr (wp_Status p)),
      de_net = \<lparr>ne_Parse = (\<lambda>s. Some (''https'', s)), ne_ParseIP = (\<lambda>s. Some [8, 8, 8, 8]), ne_LookupIP = (\<lambda>s. None), ne_ALLOW_PRIVATE = ''''\<rparr>,
      de_net_msg = (\<lambda>e. ''bad''), de_hmac = (\<lambda>key body. key @ body),
      de_client = (\<lambda>k. \<lparr>hc_NewRequest = (\<lambda>u. None), hc_Do = (\<lambda>r. if k = 2 then Inr 204 else Inr 500)\<rparr>), de_ms = (\<lambda>k. 5)\<rparr>"

theorem posts_validated_and_signed_witness:
  "\<exists>r. WPost r \<in> set (dispatchWebhook demo_dispatch None ''failed'' ''e'') \<and>
     (gm_get (oq_Header r) ''X-Stackly-Signature'' = Some ''sha256=kfailed'')"
proof -
  let ?b = "''failed''"
  have v: "ValidateWebhookURL (de_net demo_dispatch) (sch_WebhookURL (de_sch demo_dispatch 0)) = None"
    by (simp add: webhook_url_accepts public_address demo_dispatch_def)
  have m: "de_Marshal demo_dispatch (payload_of demo_dispatch None ''failed'' ''e'') = Inr ?b" by (simp add: demo_dispatch_def payload_of_def)
  obtain r where r: "fst (attempt_at demo_dispatch ?b 1) = Some r"
    by (simp add: attempt_at_def postOnce_def demo_dispatch_def Let_def)
  have "WPost r \<in> set (dispatchWebhook demo_dispatch None ''failed'' ''e'')"
    using v m r by (simp add: dispatchWebhook_def attempt_loop_all [unfolded One_nat_def] post_effect_def)
  moreover from posts_validated_and_signed [OF this] m
  have "gm_get (oq_Header r) ''X-Stackly-Signature'' = Some ''sha256=kfailed''"
    by (auto simp: demo_dispatch_def)
  ultimately show ?thesis by blast
qed

text \<open>The size of the payload. The result that is sent differs from the scan result in its
  HTML at most; the HTML is unchanged up to 4096 bytes and is otherwise its first 4096 bytes
  and a note, so it is never longer than 4148 bytes and the URL.\<close>

theorem payload_html_bounded:
  "sanitizeForWebhook (Some r) = Some (r\<lparr>sr_HTML := (if length (sr_HTML r) \<le> 4096 then sr_HTML r
      else take 4096 (sr_HTML r) @ ''...[truncated, fetch full result via /api/results/'' @ sr_URL r @ '']'')\<rparr>) \<and>
   length (sr_HTML (the (sanitizeForWebhook (Some r)))) \<le> 4148 + length (sr_URL r)"
  by (auto simp: sanitizeForWebhook_def MaxPayloadHTMLBytes_def)

text \<open>Every attempt sends the whole body. Reading a fresh \<open>bytesReader\<close> with any positive buffer
  sizes gives a prefix of the body, and all of it followed by end of file once there are more
  reads than bytes.\<close>

theorem reader_yields_body:
  assumes "\<forall>n \<in> set ns. 0 < n"
  shows "prefix (fst (read_all ns (readerOf b))) b \<and> (length b < length ns \<longrightarrow> read_all ns (readerOf b) = (b, True))"
  using read_all_drop [OF assms, of "readerOf b"] by (simp add: readerOf_def)

theorem reader_yields_body_witness: "read_all [2, 1, 5, 1] (readerOf ''abc'') = (''abc'', True)"
  using reader_yields_body [of "[2, 1, 5, 1]" "''abc''"] by simp

end
