(* ===== verification/Scheduler.thy ===== *)
theory Scheduler
  imports Webhook
begin

text \<open>
  The scheduler, \<^verbatim>\<open>internal/scheduler/scheduler.go\<close>: the ticker, the runs and the dispatch slots.
  A run (\<^verbatim>\<open>runOne\<close>) is a goroutine; \<open>run\<close> lists the places where it can be between two
  accesses to shared state. The step relation \<open>sched_step\<close> interleaves the ticker, all runs,
  all dispatches and the API's operations on the store. Scan results, clock readings and what
  a dispatch meets are inputs of the steps.
\<close>

definition MaxConcurrentDispatches :: nat where
  "MaxConcurrentDispatches = 10"

definition unix_zero :: time where
  "unix_zero = 62135596800 * second"

definition Unix :: "time \<Rightarrow> int" where
  "Unix t = (t - unix_zero) div second"

datatype run =
    RunGet string
  | RunMark string addr
  | RunScan string addr time string string
  | RunSend string addr "scan_result option" string string
  | RunDone

datatype dispatch = Dispatch addr "scan_result option" string string

datatype ticker = Waiting | Ticking "addr list" | TickerExited

record scheduler =
  sd_store :: sched_store
  sd_inflight :: "(string, bool) gomap"
  sd_sem :: nat
  sd_ticker :: ticker
  sd_runs :: "run list"
  sd_dispatches :: "dispatch list"
  sd_stopped :: bool

text \<open>\<^verbatim>\<open>run\<close> fires a first tick before it waits, so the loop starts where a tick can begin.\<close>

definition New :: "sched_store \<Rightarrow> scheduler" where
  "New store =
     \<lparr>sd_store = store, sd_inflight = [], sd_sem = 0, sd_ticker = Waiting, sd_runs = [], sd_dispatches = [], sd_stopped = False\<rparr>"

definition Stop :: "scheduler \<Rightarrow> scheduler" where
  "Stop w = w\<lparr>sd_stopped := True\<rparr>"

section \<open>The tick\<close>

definition tick_item :: "addr \<Rightarrow> scheduler \<Rightarrow> scheduler" where
  "tick_item a w =
     (let i = sch_ID (sched_at (sd_store w) a) in
      if gm_get (sd_inflight w) i \<noteq> None then w
      else w\<lparr>sd_inflight := gm_put i True (sd_inflight w), sd_runs := sd_runs w @ [RunGet i]\<rparr>)"

definition tick :: "time \<Rightarrow> scheduler \<Rightarrow> scheduler" where
  "tick now w = foldl (\<lambda>w a. tick_item a w) w (DueSchedules now (sd_store w))"

section \<open>One run\<close>

definition run_get :: "string \<Rightarrow> sched_store \<Rightarrow> run" where
  "run_get i s = (case GetSchedule i s of None \<Rightarrow> RunDone | Some a \<Rightarrow> RunMark i a)"

definition run_mark :: "time \<Rightarrow> string \<Rightarrow> addr \<Rightarrow> sched_store \<Rightarrow> run \<times> sched_store" where
  "run_mark now i a s =
     (let nextNext = now + IntervalDur (sch_Interval (sched_at s a));
          s' = snd (UpdateSchedule i (\<lambda>x. x\<lparr>sch_NextRun := nextNext, sch_RunCount := wrap64 (sch_RunCount x + 1)\<rparr>) s);
          jobID = ''sched-'' @ i @ ''-'' @ Itoa (Unix now)
      in (RunScan i a now jobID (sch_URL (sched_at s' a)), s'))"

definition scan_status :: "scan_result option \<Rightarrow> string \<times> string" where
  "scan_status result =
     (case result of
        None \<Rightarrow> (''failed'', ''scan returned nil'')
      | Some r \<Rightarrow> (case sr_Error r of Some e \<Rightarrow> (''failed'', e) | None \<Rightarrow> (''success'', '''')))"

definition run_record :: "scan_result option \<Rightarrow> string \<Rightarrow> addr \<Rightarrow> time \<Rightarrow> sched_store \<Rightarrow> run \<times> sched_store" where
  "run_record result i a now s =
     (let (status, errStr) = scan_status result;
          s' = snd (UpdateSchedule i (\<lambda>x. x\<lparr>sch_LastRun := now, sch_LastStatus := status, sch_LastError := errStr\<rparr>) s)
      in (if sch_WebhookURL (sched_at s' a) \<noteq> '''' then RunSend i a result status errStr else RunDone, s'))"

text \<open>The whole run when nobody else touches the store; the result is the dispatch it starts.\<close>

definition runOne :: "time \<Rightarrow> scan_result option \<Rightarrow> string \<Rightarrow> sched_store \<Rightarrow> dispatch option \<times> sched_store" where
  "runOne now result i s =
     (case run_get i s of
        RunMark i a \<Rightarrow>
          let (r1, s1) = run_mark now i a s; (r2, s2) = run_record result i a now s1
          in (case r2 of RunSend j b res status errStr \<Rightarrow> Some (Dispatch b res status errStr) | _ \<Rightarrow> None, s2)
      | _ \<Rightarrow> (None, s))"

text \<open>A run moves on; when it is done its deferred call removes it from \<open>inflight\<close>.\<close>

fun run_id :: "run \<Rightarrow> string option" where
  "run_id (RunGet i) = Some i"
| "run_id (RunMark i a) = Some i"
| "run_id (RunScan i a t job url) = Some i"
| "run_id (RunSend i a r st e) = Some i"
| "run_id RunDone = None"

definition move_run :: "nat \<Rightarrow> string \<Rightarrow> run \<Rightarrow> scheduler \<Rightarrow> scheduler" where
  "move_run n i r w =
     w\<lparr>sd_runs := (sd_runs w)[n := r], sd_inflight := (if r = RunDone then gm_del i (sd_inflight w) else sd_inflight w)\<rparr>"

section \<open>Dispatches\<close>

text \<open>The log entries of a dispatch, written with fresh identifiers.\<close>

fun log_effects :: "string list \<Rightarrow> time \<Rightarrow> wh_effect list \<Rightarrow> sched_store \<Rightarrow> sched_store" where
  "log_effects ids now [] s = s"
| "log_effects ids now (WLog d # es) s =
     log_effects (tl ids) now es (LogDelivery (case ids of i # _ \<Rightarrow> i | [] \<Rightarrow> '''') now d s)"
| "log_effects ids now (_ # es) s = log_effects ids now es s"

definition remove_at :: "nat \<Rightarrow> 'a list \<Rightarrow> 'a list" where
  "remove_at n xs = take n xs @ drop (Suc n) xs"

inductive sched_step :: "scheduler \<Rightarrow> scheduler \<Rightarrow> bool" where
  st_tick: "sd_ticker w = Waiting \<Longrightarrow> sched_step w (w\<lparr>sd_ticker := Ticking (DueSchedules now (sd_store w))\<rparr>)"
| st_item: "sd_ticker w = Ticking (a # rest) \<Longrightarrow> sched_step w (tick_item a (w\<lparr>sd_ticker := Ticking rest\<rparr>))"
| st_wait: "sd_ticker w = Ticking [] \<Longrightarrow> sched_step w (w\<lparr>sd_ticker := Waiting\<rparr>)"
| st_exit: "sd_ticker w = Waiting \<Longrightarrow> sd_stopped w \<Longrightarrow> sched_step w (w\<lparr>sd_ticker := TickerExited\<rparr>)"
| st_stop: "sched_step w (Stop w)"
| st_get: "n < length (sd_runs w) \<Longrightarrow> sd_runs w ! n = RunGet i \<Longrightarrow> sched_step w (move_run n i (run_get i (sd_store w)) w)"
| st_mark: "n < length (sd_runs w) \<Longrightarrow> sd_runs w ! n = RunMark i a \<Longrightarrow> run_mark now i a (sd_store w) = (r, s') \<Longrightarrow>
    sched_step w (move_run n i r (w\<lparr>sd_store := s'\<rparr>))"
| st_record: "n < length (sd_runs w) \<Longrightarrow> sd_runs w ! n = RunScan i a now job url \<Longrightarrow>
    run_record result i a now (sd_store w) = (r, s') \<Longrightarrow> sched_step w (move_run n i r (w\<lparr>sd_store := s'\<rparr>))"
| st_send: "n < length (sd_runs w) \<Longrightarrow> sd_runs w ! n = RunSend i a result status errStr \<Longrightarrow> sd_sem w < MaxConcurrentDispatches \<Longrightarrow>
    sched_step w (move_run n i RunDone (w\<lparr>sd_sem := Suc (sd_sem w), sd_dispatches := sd_dispatches w @ [Dispatch a result status errStr]\<rparr>))"
| st_dispatched: "n < length (sd_dispatches w) \<Longrightarrow> sd_dispatches w ! n = Dispatch a result status errStr \<Longrightarrow>
    sched_step w (w\<lparr>sd_store := log_effects ids t (dispatchWebhook de result status errStr) (sd_store w),
      sd_sem := sd_sem w - 1, sd_dispatches := remove_at n (sd_dispatches w)\<rparr>)"
| st_add: "AddSchedule new_id t1 t2 sch (sd_store w) = (i, a, s') \<Longrightarrow> sched_step w (w\<lparr>sd_store := s'\<rparr>)"
| st_update: "keeps_id f \<Longrightarrow> sched_step w (w\<lparr>sd_store := snd (UpdateSchedule i f (sd_store w))\<rparr>)"
| st_write: "keeps_id f \<Longrightarrow> a < length (ss_heap (sd_store w)) \<Longrightarrow> sched_step w (w\<lparr>sd_store := mutate a f (sd_store w)\<rparr>)"
| st_delete: "sched_step w (w\<lparr>sd_store := snd (DeleteSchedule i (sd_store w))\<rparr>)"
| st_save: "sched_step w (w\<lparr>sd_store := saveLoop_round sc oc (sd_store w)\<rparr>)"

section \<open>The invariant\<close>

text \<open>The identifiers of the runs under way.\<close>

definition running :: "scheduler \<Rightarrow> string list" where
  "running w = List.map_filter run_id (sd_runs w)"

definition sched_ok :: "scheduler \<Rightarrow> bool" where
  "sched_ok w \<longleftrightarrow> sched_inv (sd_store w) \<and> gm_wf (sd_inflight w) \<and> distinct (running w) \<and>
     set (running w) = fst ` set (sd_inflight w) \<and> sd_sem w = length (sd_dispatches w) \<and> sd_sem w \<le> 10"

lemma map_filter_append [simp]: "List.map_filter f (xs @ ys) = List.map_filter f xs @ List.map_filter f ys"
  by (simp add: List.map_filter_def)

lemma map_filter_Cons [simp]: "List.map_filter f (x # xs) = (case f x of None \<Rightarrow> [] | Some y \<Rightarrow> [y]) @ List.map_filter f xs"
  by (simp add: List.map_filter_def split: option.splits)

lemma map_filter_Nil [simp]: "List.map_filter f [] = []"
  by (simp add: List.map_filter_def)

lemma map_filter_inj:
  "distinct (List.map_filter f xs) \<Longrightarrow> m < length xs \<Longrightarrow> n < length xs \<Longrightarrow> f (xs ! m) = Some y \<Longrightarrow> f (xs ! n) = Some y \<Longrightarrow> m = n"
proof (induction xs arbitrary: m n)
  case (Cons x xs)
  have no: "y \<notin> set (List.map_filter f xs)" if "f x = Some y" using Cons.prems(1) that by auto
  have mem: "y \<in> set (List.map_filter f xs)" if "k < length xs" "f (xs ! k) = Some y" for k
    using that nth_mem [OF that(1)] by (force simp: List.map_filter_def)
  show ?case
  proof (cases m; cases n)
    fix m' n' assume "m = Suc m'" "n = Suc n'"
    then show ?thesis using Cons.IH [of m' n'] Cons.prems by (auto split: option.splits)
  qed (use Cons.prems no mem in auto)
qed simp


lemma running_move:
  assumes "n < length (sd_runs w)" "run_id (sd_runs w ! n) = Some i"
  obtains xs ys where "running w = xs @ i # ys"
    "\<And>r. running (move_run n i r w) = xs @ (case run_id r of None \<Rightarrow> [] | Some y \<Rightarrow> [y]) @ ys"
proof
  let ?xs = "List.map_filter run_id (take n (sd_runs w))" and ?ys = "List.map_filter run_id (drop (Suc n) (sd_runs w))"
  show "running w = ?xs @ i # ?ys"
    unfolding running_def by (subst id_take_nth_drop [OF assms(1)]) (simp add: assms(2))
  show "running (move_run n i r w) = ?xs @ (case run_id r of None \<Rightarrow> [] | Some y \<Rightarrow> [y]) @ ?ys" for r
    unfolding running_def move_run_def by (simp add: upd_conv_take_nth_drop [OF assms(1)] split: option.splits)
qed

lemma running_fields [simp]:
  "running (w\<lparr>sd_store := s\<rparr>) = running w" "running (w\<lparr>sd_sem := n\<rparr>) = running w" "running (w\<lparr>sd_dispatches := d\<rparr>) = running w"
  "running (w\<lparr>sd_ticker := t\<rparr>) = running w" "running (w\<lparr>sd_stopped := b\<rparr>) = running w"
  by (simp_all add: running_def)

lemma run_id_None [simp]: "run_id r = None \<longleftrightarrow> r = RunDone"
  by (cases r) auto

lemma move_run_ok [inv_intros]:
  assumes "sched_ok w" "n < length (sd_runs w)" "run_id (sd_runs w ! n) = Some i" "run_id r = Some i \<or> r = RunDone"
  shows "sched_ok (move_run n i r w)"
proof -
  obtain xs ys where r: "running w = xs @ i # ys" "\<And>r. running (move_run n i r w) = xs @ (case run_id r of None \<Rightarrow> [] | Some y \<Rightarrow> [y]) @ ys"
    by (rule running_move [OF assms(2,3)]) blast
  have wf: "gm_wf (sd_inflight w)" using assms(1) by (simp add: sched_ok_def)
  have del: "fst ` set (gm_del i (sd_inflight w)) = fst ` set (sd_inflight w) - {i}" by (auto simp: gm_set_del)
  show ?thesis
  proof (cases "r = RunDone")
    case True
    then show ?thesis using assms(1) r(1) r(2) [of r] wf del unfolding sched_ok_def
      by (simp add: move_run_def gm.wf_del) auto
  next
    case False
    then show ?thesis using assms(1,4) r(1) r(2) [of r] unfolding sched_ok_def by (simp add: move_run_def)
  qed
qed

lemma tick_item_ok [inv_intros]: "sched_ok w \<Longrightarrow> sched_ok (tick_item a w)"
proof -
  assume ok: "sched_ok w"
  let ?i = "sch_ID (sched_at (sd_store w) a)"
  have wf: "gm_wf (sd_inflight w)" using ok by (simp add: sched_ok_def)
  have "?i \<notin> fst ` set (sd_inflight w)" if "gm_get (sd_inflight w) ?i = None" using that by (simp add: gm_get_def map_of_eq_None_iff)
  moreover have "fst ` set (gm_put ?i True (sd_inflight w)) = insert ?i (fst ` set (sd_inflight w))"
    using gm_set_put [OF wf, of ?i True] by force
  ultimately show ?thesis using ok gm.wf_put [OF wf]
    by (auto simp: tick_item_def Let_def sched_ok_def running_def)
qed

lemma store_ok [inv_intros]: "sched_ok w \<Longrightarrow> sched_inv s \<Longrightarrow> sched_ok (w\<lparr>sd_store := s\<rparr>)"
  by (simp add: sched_ok_def)

lemma run_mark_inv: "sched_inv s \<Longrightarrow> run_mark now i a s = (r, s') \<Longrightarrow> sched_inv s' \<and> run_id r = Some i"
  by (auto simp: run_mark_def Let_def keeps_id_def intro: UpdateSchedule_inv)

lemma run_record_inv: "sched_inv s \<Longrightarrow> run_record result i a now s = (r, s') \<Longrightarrow> sched_inv s' \<and> (run_id r = Some i \<or> r = RunDone)"
  by (auto simp: run_record_def Let_def keeps_id_def intro: UpdateSchedule_inv split: prod.splits if_splits)

lemma log_effects_inv [inv_intros]: "sched_inv s \<Longrightarrow> sched_inv (log_effects ids now es s)"
  by (induction ids now es s rule: log_effects.induct) (auto intro: LogDelivery_inv)

lemma saveLoop_inv [inv_intros]: "sched_inv s \<Longrightarrow> sched_inv (saveLoop_round sc oc s)"
  by (auto simp: saveLoop_round_def store_save_def sched_inv_def split: option.splits prod.splits)

lemma length_remove_at: "n < length xs \<Longrightarrow> length (remove_at n xs) = length xs - 1"
  by (simp add: remove_at_def)

lemma sched_step_ok: "sched_step w w' \<Longrightarrow> sched_ok w \<Longrightarrow> sched_ok w'"
proof (induction rule: sched_step.induct)
  case (st_get n w i)
  then show ?case by (intro move_run_ok) (auto simp: run_get_def split: option.splits)
next
  case (st_mark n w i a now r s')
  then show ?case using run_mark_inv [of "sd_store w"] by (intro move_run_ok store_ok) (auto simp: sched_ok_def)
next
  case (st_record n w i a now job url result r s')
  then show ?case using run_record_inv [of "sd_store w"] by (intro move_run_ok store_ok) (auto simp: sched_ok_def)
next
  case (st_item w a rest)
  then show ?case by (intro tick_item_ok) (simp add: sched_ok_def)
next
  case (st_send n w i a result status errStr)
  let ?w = "w\<lparr>sd_sem := Suc (sd_sem w), sd_dispatches := sd_dispatches w @ [Dispatch a result status errStr]\<rparr>"
  have "sched_ok ?w" using st_send(3,4) by (simp add: sched_ok_def MaxConcurrentDispatches_def)
  then show ?case using st_send(1,2) by (intro move_run_ok) auto
next
  case (st_add new_id t1 t2 sch w i a s')
  then show ?case using AddSchedule_view(1) by (intro store_ok) (auto simp: sched_ok_def)
qed (auto simp: sched_ok_def Stop_def length_remove_at intro: inv_intros)

interpretation sched_life: kept_by_steps sched_step sched_ok
  by unfold_locales (rule sched_step_ok)

lemma New_ok: "sched_inv s \<Longrightarrow> sched_ok (New s)"
  by (simp add: sched_ok_def New_def gm_wf_def running_def)

section \<open>Properties\<close>

text \<open>C6: No schedule is run twice at a time. In every interleaving of ticks, runs, dispatches and
  API calls that starts from a well-formed store, two runs under way have different
  schedules, the \<open>inflight\<close> map holds exactly the identifiers of the runs under way, and at
  most 10 dispatches are under way, one for each slot taken.\<close>

theorem runs_are_exclusive:
  assumes "sched_inv s" "sched_step\<^sup>*\<^sup>* (New s) w"
  shows "(\<forall>m < length (sd_runs w). \<forall>n < length (sd_runs w). \<forall>i.
       run_id (sd_runs w ! m) = Some i \<and> run_id (sd_runs w ! n) = Some i \<longrightarrow> m = n) \<and>
     (\<forall>i. gm_get (sd_inflight w) i \<noteq> None \<longleftrightarrow> (\<exists>r \<in> set (sd_runs w). run_id r = Some i)) \<and>
     length (sd_dispatches w) = sd_sem w \<and> sd_sem w \<le> 10 \<and> sched_inv (sd_store w)"
proof -
  have ok: "sched_ok w" by (rule sched_life.run_keeps [OF assms(2) New_ok [OF assms(1)]])
  have "m = n" if "m < length (sd_runs w)" "n < length (sd_runs w)" "run_id (sd_runs w ! m) = Some i" "run_id (sd_runs w ! n) = Some i" for m n i
    using map_filter_inj [of run_id "sd_runs w"] ok that unfolding sched_ok_def running_def by blast
  moreover have "gm_get (sd_inflight w) i \<noteq> None \<longleftrightarrow> i \<in> set (running w)" for i
    using ok unfolding sched_ok_def by (simp add: gm_get_def map_of_eq_None_iff)
  moreover have "i \<in> set (running w) \<longleftrightarrow> (\<exists>r \<in> set (sd_runs w). run_id r = Some i)" for i
    by (force simp: running_def List.map_filter_def)
  ultimately show ?thesis using ok unfolding sched_ok_def by metis
qed


theorem runs_are_exclusive_witness:
  "\<exists>w. sched_step\<^sup>*\<^sup>* (New demo_store) w \<and> sd_runs w = [RunGet ''s1''] \<and> gm_get (sd_inflight w) ''s1'' \<noteq> None"
proof -
  have due: "DueSchedules 7 demo_store = [0]"
    by (simp add: DueSchedules_def ListAllSchedules_def demo_store_def sched_at_def demo_schedule_def)
  let ?w1 = "(New demo_store)\<lparr>sd_ticker := Ticking [0]\<rparr>"
  have "sched_step (New demo_store) ?w1" using st_tick [of "New demo_store" 7] due by (simp add: New_def)
  moreover have "sched_step ?w1 (tick_item 0 (?w1\<lparr>sd_ticker := Ticking []\<rparr>))" by (rule st_item) simp
  ultimately have run: "sched_step\<^sup>*\<^sup>* (New demo_store) (tick_item 0 (?w1\<lparr>sd_ticker := Ticking []\<rparr>))" by simp
  have "sd_runs (tick_item 0 (?w1\<lparr>sd_ticker := Ticking []\<rparr>)) = [RunGet ''s1'']"
    by (simp add: tick_item_def Let_def New_def gm_get_def demo_store_def sched_at_def demo_schedule_def)
  then show ?thesis using runs_are_exclusive [OF demo_store_inv run] run by (metis list.set_intros(1) run_id.simps(1))
qed

lemma tick_fold:
  assumes "distinct (map (\<lambda>a. sch_ID (sched_at s a)) as)" "sd_store w = s"
  shows "sd_runs (foldl (\<lambda>w a. tick_item a w) w as) =
       sd_runs w @ map RunGet (filter (\<lambda>i. gm_get (sd_inflight w) i = None) (map (\<lambda>a. sch_ID (sched_at s a)) as)) \<and>
     (\<forall>i. gm_get (sd_inflight (foldl (\<lambda>w a. tick_item a w) w as)) i \<noteq> None \<longleftrightarrow>
       gm_get (sd_inflight w) i \<noteq> None \<or> i \<in> (\<lambda>a. sch_ID (sched_at s a)) ` set as) \<and>
     sd_store (foldl (\<lambda>w a. tick_item a w) w as) = s"
  using assms
proof (induction as arbitrary: w)
  case (Cons a as)
  let ?w = "tick_item a w"
  have w: "sd_store ?w = s" "\<And>i. gm_get (sd_inflight ?w) i \<noteq> None \<longleftrightarrow> gm_get (sd_inflight w) i \<noteq> None \<or> i = sch_ID (sched_at s a)"
    "sd_runs ?w = sd_runs w @ (if gm_get (sd_inflight w) (sch_ID (sched_at s a)) = None then [RunGet (sch_ID (sched_at s a))] else [])"
    using Cons.prems(2) by (auto simp: tick_item_def Let_def gm.get_put)
  have eq: "filter (\<lambda>i. gm_get (sd_inflight ?w) i = None) (map (\<lambda>a. sch_ID (sched_at s a)) as) =
      filter (\<lambda>i. gm_get (sd_inflight w) i = None) (map (\<lambda>a. sch_ID (sched_at s a)) as)"
  proof (rule filter_cong [OF refl])
    fix i assume "i \<in> set (map (\<lambda>a. sch_ID (sched_at s a)) as)"
    then have "i \<noteq> sch_ID (sched_at s a)" using Cons.prems(1) by (metis distinct.simps(2) list.simps(9))
    then show "(gm_get (sd_inflight ?w) i = None) = (gm_get (sd_inflight w) i = None)" using w(2) [of i] by blast
  qed
  have ds: "distinct (map (\<lambda>a. sch_ID (sched_at s a)) as)" using Cons.prems(1) by simp
  note IH = Cons.IH [OF ds w(1), unfolded eq]
  show ?case unfolding foldl_Cons using IH w(2,3) by auto
qed simp

lemma tick_effect:
  assumes "sched_inv (sd_store w)"
  shows "sd_runs (tick now w) = sd_runs w @ map RunGet (filter (\<lambda>i. gm_get (sd_inflight w) i = None)
       (map (\<lambda>a. sch_ID (sched_at (sd_store w) a)) (DueSchedules now (sd_store w)))) \<and>
     (\<forall>i x. view (sd_store w) i = Some x \<and> sch_Enabled x \<and> sch_NextRun x \<le> now \<longrightarrow> gm_get (sd_inflight (tick now w)) i \<noteq> None) \<and>
     sd_store (tick now w) = sd_store w"
proof -
  let ?s = "sd_store w" and ?due = "DueSchedules now (sd_store w)"
  have wf: "gm_wf (ss_schedules ?s)" using assms by (simp add: sched_inv_def)
  have id: "sch_ID (sched_at ?s a) = i" if "gm_get (ss_schedules ?s) i = Some a" for i a using sched_inv_get [OF assms that] by blast
  have key: "\<exists>i. gm_get (ss_schedules ?s) i = Some a" if "a \<in> set ?due" for a
    using that gm_in_set_get [OF wf] by (force simp: DueSchedules_def)
  have "distinct ?due" by (rule DueSchedules_distinct [OF assms])
  moreover have "inj_on (\<lambda>a. sch_ID (sched_at ?s a)) (set ?due)" by (rule inj_onI) (metis key id option.inject)
  ultimately have ds: "distinct (map (\<lambda>a. sch_ID (sched_at ?s a)) ?due)" by (simp add: distinct_map)
  have "i \<in> (\<lambda>a. sch_ID (sched_at ?s a)) ` set ?due" if vi: "view ?s i = Some x" "sch_Enabled x" "sch_NextRun x \<le> now" for i x
  proof -
    obtain a where a: "gm_get (ss_schedules ?s) i = Some a" "sched_at ?s a = x" using vi(1) by (auto simp: view_def)
    then have "a \<in> set ?due" using vi(2,3) a(2) gm_get_in_set [OF a(1)] by (force simp: DueSchedules_def)
    then show ?thesis using id [OF a(1)] by blast
  qed
  then show ?thesis using tick_fold [OF ds refl] unfolding tick_def by simp
qed

lemma tick_due:
  "sched_inv (sd_store w) \<Longrightarrow> view (sd_store w) i = Some x \<Longrightarrow> sch_Enabled x \<Longrightarrow> sch_NextRun x \<le> now \<Longrightarrow> gm_get (sd_inflight (tick now w)) i \<noteq> None"
  using tick_effect by blast

text \<open>C28: A tick starts every due schedule that is not running, once. After \<open>tick\<close> the runs are the
  earlier ones followed by one new run for each due schedule whose identifier was not in
  flight, soonest first, and all due schedules are in flight.\<close>

theorem tick_starts_due:
  assumes "sched_inv (sd_store w)"
  shows "sd_runs (tick now w) = sd_runs w @ map RunGet (filter (\<lambda>i. gm_get (sd_inflight w) i = None)
       (map (\<lambda>a. sch_ID (sched_at (sd_store w) a)) (DueSchedules now (sd_store w)))) \<and>
     (\<forall>i x. view (sd_store w) i = Some x \<and> sch_Enabled x \<and> sch_NextRun x \<le> now \<longrightarrow> gm_get (sd_inflight (tick now w)) i \<noteq> None) \<and>
     sd_store (tick now w) = sd_store w"
  by (rule tick_effect [OF assms])

theorem tick_starts_due_witness: "sched_inv (sd_store (New demo_store)) \<and> sd_runs (tick 7 (New demo_store)) = [RunGet ''s1'']"
proof -
  have inv: "sched_inv (sd_store (New demo_store))" using demo_store_inv by (simp add: New_def)
  have "DueSchedules 7 demo_store = [0]"
    by (simp add: DueSchedules_def ListAllSchedules_def demo_store_def sched_at_def demo_schedule_def)
  then show ?thesis using tick_starts_due [OF inv, of 7] inv
    by (simp add: New_def gm_get_def) (simp add: demo_store_def sched_at_def demo_schedule_def)
qed

text \<open>C29: What a run leaves behind. A run that nobody interferes with sets the next run one interval
  after its start, counts itself, and records its start, status and error; every other
  schedule is unchanged; the schedule is not due again before its next run; and a dispatch is
  started exactly when there is a webhook URL.\<close>

theorem run_effect:
  assumes "sched_inv s" "view s i = Some x" "runOne now result i s = (d, s')"
  shows "view s' = (view s)(i \<mapsto> x\<lparr>sch_NextRun := now + IntervalDur (sch_Interval x), sch_RunCount := wrap64 (sch_RunCount x + 1),
       sch_LastRun := now, sch_LastStatus := fst (scan_status result), sch_LastError := snd (scan_status result)\<rparr>) \<and>
     (\<forall>t a. t < now + IntervalDur (sch_Interval x) \<and> a \<in> set (DueSchedules t s') \<longrightarrow> sch_ID (sched_at s' a) \<noteq> i) \<and>
     (d \<noteq> None \<longleftrightarrow> sch_WebhookURL x \<noteq> '''') \<and> sched_inv s'"
proof -
  obtain a where a: "gm_get (ss_schedules s) i = Some a" "sched_at s a = x" using assms(2) by (auto simp: view_def)
  obtain status e where st: "scan_status result = (status, e)" by (cases "scan_status result")
  let ?f = "\<lambda>y. y\<lparr>sch_NextRun := now + IntervalDur (sch_Interval x), sch_RunCount := wrap64 (sch_RunCount y + 1)\<rparr>"
  let ?g = "\<lambda>y. y\<lparr>sch_LastRun := now, sch_LastStatus := status, sch_LastError := e\<rparr>"
  have k: "keeps_id ?f" "keeps_id ?g" by (simp_all add: keeps_id_def)
  let ?s1 = "snd (UpdateSchedule i ?f s)"
  let ?s2 = "snd (UpdateSchedule i ?g ?s1)"
  have v: "view ?s2 = (view s)(i \<mapsto> ?g (?f x))" using scheds.update_twice [OF assms(1) k] assms(2) by simp
  have inv: "sched_inv ?s2" using scheds.update_inv k assms(1) by blast
  have get: "gm_get (ss_schedules ?s2) i = Some a" using a by (simp add: UpdateSchedule_eq)
  have "view ?s2 i = Some (sched_at ?s2 a)" using get by (simp add: view_def)
  then have x2: "sched_at ?s2 a = ?g (?f x)" unfolding v by simp
  have run: "s' = ?s2" "d \<noteq> None \<longleftrightarrow> sch_WebhookURL (sched_at ?s2 a) \<noteq> ''''"
    using assms(3) a st
    by (auto simp: runOne_def run_get_def GetSchedule_def run_mark_def run_record_def Let_def split: if_splits)
  have "sch_ID (sched_at s' b) \<noteq> i" if t: "t < now + IntervalDur (sch_Interval x)" and b: "b \<in> set (DueSchedules t s')" for t b
  proof
    assume bi: "sch_ID (sched_at s' b) = i"
    have wf: "gm_wf (ss_schedules s')" using inv run by (simp add: sched_inv_def)
    obtain j where j: "gm_get (ss_schedules s') j = Some b" using b gm_in_set_get [OF wf] by (force simp: DueSchedules_def)
    then have "j = i" using sched_inv_get [OF inv, of j b] run bi by simp
    then have "b = a" using j get run by simp
    then show False using t b x2 run by (simp add: DueSchedules_def)
  qed
  then show ?thesis using v inv run x2 st by auto
qed

theorem run_effect_witness:
  "\<exists>d s'. runOne 9 None ''s1'' demo_store = (d, s') \<and> d \<noteq> None \<and> sched_inv s' \<and>
     map_option sch_LastError (view s' ''s1'') = Some ''scan returned nil''"
proof -
  have v: "view demo_store ''s1'' = Some demo_schedule" by (simp add: view_def demo_store_def gm_get_def sched_at_def)
  obtain d s' where r: "runOne 9 None ''s1'' demo_store = (d, s')" by (cases "runOne 9 None ''s1'' demo_store")
  have "sch_WebhookURL demo_schedule \<noteq> ''''" by (simp add: demo_schedule_def)
  with run_effect [OF demo_store_inv v r] show ?thesis using r by (simp add: scan_status_def)
qed

end
