(* ===== verification/Http.thy ===== *)
theory Http
  imports Go_Map Go_Strings
begin

text \<open>
  What the handlers use of Go's \<^verbatim>\<open>net/http\<close>: requests, responses, \<^verbatim>\<open>Header.Get\<close> and
  \<^verbatim>\<open>Header.Set\<close> (header names are in canonical form), \<^verbatim>\<open>http.Error\<close> and the program's
  own \<^verbatim>\<open>writeJSON\<close>. A missing header or query parameter reads as the empty string. The
  JSON body of a request is an argument of the handler that decodes it.
\<close>

record request =
  r_Method :: string
  r_Path :: string
  r_Header :: "(string, string) gomap"
  r_Query :: "(string, string) gomap"
  r_RemoteAddr :: string
  r_Host :: string
  r_TLS :: bool

definition header_Get :: "request \<Rightarrow> string \<Rightarrow> string" where
  "header_Get r k = (case gm_get (r_Header r) k of Some v \<Rightarrow> v | None \<Rightarrow> '''')"

definition query_Get :: "request \<Rightarrow> string \<Rightarrow> string" where
  "query_Get r k = (case gm_get (r_Query r) k of Some v \<Rightarrow> v | None \<Rightarrow> '''')"

datatype body =
    NoBody
  | Text string
  | Json json
  | File string

record response =
  rs_Status :: int
  rs_Header :: "(string, string) gomap"
  rs_Body :: body

definition StatusOK :: int where "StatusOK = 200"
definition StatusCreated :: int where "StatusCreated = 201"
definition StatusAccepted :: int where "StatusAccepted = 202"
definition StatusBadRequest :: int where "StatusBadRequest = 400"
definition StatusUnauthorized :: int where "StatusUnauthorized = 401"
definition StatusForbidden :: int where "StatusForbidden = 403"
definition StatusNotFound :: int where "StatusNotFound = 404"
definition StatusMethodNotAllowed :: int where "StatusMethodNotAllowed = 405"
definition StatusConflict :: int where "StatusConflict = 409"
definition StatusUnprocessableEntity :: int where "StatusUnprocessableEntity = 422"
definition StatusTooManyRequests :: int where "StatusTooManyRequests = 429"
definition StatusInternalServerError :: int where "StatusInternalServerError = 500"
definition StatusServiceUnavailable :: int where "StatusServiceUnavailable = 503"

lemmas status_defs [go_simps] =
  StatusOK_def StatusCreated_def StatusAccepted_def StatusBadRequest_def StatusUnauthorized_def
  StatusForbidden_def StatusNotFound_def StatusMethodNotAllowed_def StatusConflict_def
  StatusUnprocessableEntity_def StatusTooManyRequests_def StatusInternalServerError_def
  StatusServiceUnavailable_def

text \<open>\<^verbatim>\<open>http.Error\<close> with the headers already set by the handler; it overwrites the content
  type and ends the text with a line feed.\<close>

definition http_Error :: "(string, string) gomap \<Rightarrow> string \<Rightarrow> int \<Rightarrow> response" where
  "http_Error hs msg code =
     \<lparr>rs_Status = code,
      rs_Header = gm_put ''X-Content-Type-Options'' ''nosniff'' (gm_put ''Content-Type'' ''text/plain; charset=utf-8'' hs),
      rs_Body = Text (msg @ [CHR 0x0A])\<rparr>"

definition http_NotFound :: response where
  "http_NotFound = http_Error [] ''404 page not found'' StatusNotFound"

definition writeJSON :: "(string, string) gomap \<Rightarrow> int \<Rightarrow> json \<Rightarrow> response" where
  "writeJSON hs status data =
     \<lparr>rs_Status = status, rs_Header = gm_put ''Content-Type'' ''application/json'' hs, rs_Body = Json data\<rparr>"

definition json_error :: "string \<Rightarrow> json" where
  "json_error msg = JObj [(''error'', JStr msg)]"

lemma status_http_Error [simp]: "rs_Status (http_Error hs msg code) = code"
  by (simp add: http_Error_def)

lemma status_writeJSON [simp]: "rs_Status (writeJSON hs code j) = code"
  by (simp add: writeJSON_def)

lemma body_writeJSON [simp]: "rs_Body (writeJSON hs code j) = Json j"
  by (simp add: writeJSON_def)

lemma status_http_NotFound [simp]: "rs_Status http_NotFound = 404"
  by (simp add: http_NotFound_def StatusNotFound_def)

end
