(* ===== verification/Go_Time.thy ===== *)
theory Go_Time
  imports Prelude
begin

text \<open>
  What the program uses of Go's \<^verbatim>\<open>time\<close> package: the civil calendar behind
  \<^verbatim>\<open>t.Year()\<close>, \<^verbatim>\<open>t.Month()\<close> and \<^verbatim>\<open>time.Date\<close>. Days are counted from
  0001-01-01; the year of a day is found by Go's cycle arithmetic (400, 100, 4 and 1 years),
  and \<^verbatim>\<open>time.Date\<close> normalises a month beyond December into the next year. The main lemma
  \<open>day_before_next_month\<close> says that the first day of the month after the month of a day
  lies strictly after that day.
\<close>

definition day_ns :: duration where
  "day_ns = 86400 * second"

lemma day_ns_pos [simp]: "0 < day_ns"
  by (simp add: day_ns_def second_def)

definition is_leap :: "int \<Rightarrow> bool" where
  "is_leap y \<longleftrightarrow> y mod 4 = 0 \<and> (y mod 100 \<noteq> 0 \<or> y mod 400 = 0)"

text \<open>Days from 0001-01-01 to the first of January of year \<open>y\<close>.\<close>

definition days_before_year :: "int \<Rightarrow> int" where
  "days_before_year y = 365 * (y - 1) + (y - 1) div 4 - (y - 1) div 100 + (y - 1) div 400"

definition year_yday :: "int \<Rightarrow> int \<times> int" where
  "year_yday d =
     (let n400 = d div 146097; d1 = d mod 146097;
          a = d1 div 36524; n100 = a - a div 4; d2 = d1 - 36524 * n100;
          n4 = d2 div 1461; d3 = d2 mod 1461;
          b = d3 div 365; n1 = b - b div 4; d4 = d3 - 365 * n1
      in (400 * n400 + 100 * n100 + 4 * n4 + n1 + 1, d4))"

definition leap_day :: "int \<Rightarrow> int" where
  "leap_day y = (if is_leap y then 1 else 0)"

definition days_before_month :: "int \<Rightarrow> int \<Rightarrow> int" where
  "days_before_month y m =
     (if m \<le> 1 then 0 else if m = 2 then 31 else leap_day y +
       (if m = 3 then 59 else if m = 4 then 90 else if m = 5 then 120 else if m = 6 then 151
        else if m = 7 then 181 else if m = 8 then 212 else if m = 9 then 243
        else if m = 10 then 273 else if m = 11 then 304 else 334))"

definition month_of_yday :: "int \<Rightarrow> int \<Rightarrow> int" where
  "month_of_yday y yd =
     (let l = leap_day y in
      if yd < 31 then 1 else if yd < 59 + l then 2 else if yd < 90 + l then 3
      else if yd < 120 + l then 4 else if yd < 151 + l then 5 else if yd < 181 + l then 6
      else if yd < 212 + l then 7 else if yd < 243 + l then 8 else if yd < 273 + l then 9
      else if yd < 304 + l then 10 else if yd < 334 + l then 11 else 12)"

text \<open>\<^verbatim>\<open>time.Date(y, m, 1, 0, 0, 0, 0, time.UTC)\<close> in days, for any month number.\<close>

definition date_days :: "int \<Rightarrow> int \<Rightarrow> int" where
  "date_days y m =
     (let y' = y + (m - 1) div 12; m' = (m - 1) mod 12 + 1
      in days_before_year y' + days_before_month y' m')"

text \<open>\<^verbatim>\<open>t.Year()\<close> and \<^verbatim>\<open>t.Month()\<close> in a location \<open>off\<close> east of UTC.\<close>

definition local_day :: "duration \<Rightarrow> time \<Rightarrow> int" where
  "local_day off t = (t + off) div day_ns"

definition time_Year :: "duration \<Rightarrow> time \<Rightarrow> int" where
  "time_Year off t = fst (year_yday (local_day off t))"

definition time_Month :: "duration \<Rightarrow> time \<Rightarrow> int" where
  "time_Month off t =
     (let (y, yd) = year_yday (local_day off t) in month_of_yday y yd)"

definition time_Date_first :: "int \<Rightarrow> int \<Rightarrow> time" where
  "time_Date_first y m = date_days y m * day_ns"

subsection \<open>The year of a day\<close>

lemma div_capped_at_3:
  fixes r k :: int
  assumes "0 < k" "0 \<le> r" "r < 4 * k + k"
  shows "0 \<le> r div k - r div k div 4 \<and> r div k - r div k div 4 \<le> 3 \<and>
    k * (r div k - r div k div 4) \<le> r \<and>
    (r \<le> 4 * k \<longrightarrow> r \<le> k * (r div k - r div k div 4) + k \<and>
      (r = k * (r div k - r div k div 4) + k \<longrightarrow> r div k - r div k div 4 = 3))"
proof -
  define a where "a = r div k"
  have "r = k * a + r mod k" "0 \<le> r mod k" "r mod k < k"
    using assms(1) unfolding a_def by simp_all
  then have a: "k * a \<le> r" "r < k * a + k" by linarith+
  have "0 \<le> a" using assms(1,2) unfolding a_def by (simp add: pos_imp_zdiv_nonneg_iff)
  moreover have "a < 5"
    using a(1) assms(1,3) mult_less_cancel_left_pos [of k a 5] by linarith
  ultimately consider "a = 0" | "a = 1" | "a = 2" | "a = 3" | "a = 4" by linarith
  then show ?thesis unfolding a_def [symmetric] using a assms(1,2) by cases auto
qed

lemma year_yday_parts:
  obtains q n100 n4 n1 where
    "year_yday d = (400 * q + 100 * n100 + 4 * n4 + n1 + 1, d - (146097 * q + 36524 * n100 + 1461 * n4 + 365 * n1))"
    "0 \<le> n100" "n100 \<le> 3" "0 \<le> n4" "n4 \<le> 24" "0 \<le> n1" "n1 \<le> 3"
    "146097 * q + 36524 * n100 + 1461 * n4 + 365 * n1 \<le> d"
    "d \<le> 146097 * q + 36524 * n100 + 1461 * n4 + 365 * n1 + 365"
    "d = 146097 * q + 36524 * n100 + 1461 * n4 + 365 * n1 + 365 \<Longrightarrow> n1 = 3 \<and> (n4 = 24 \<longrightarrow> n100 = 3)"
proof -
  define q where "q = d div 146097"
  define r where "r = d mod 146097"
  define n100 where "n100 = r div 36524 - r div 36524 div 4"
  define d2 where "d2 = r - 36524 * n100"
  define n4 where "n4 = d2 div 1461"
  define d3 where "d3 = d2 mod 1461"
  define n1 where "n1 = d3 div 365 - d3 div 365 div 4"
  have d: "d = 146097 * q + r" "0 \<le> r" "r < 146097"
    unfolding q_def r_def by simp_all
  have h: "0 \<le> n100 \<and> n100 \<le> 3 \<and> 36524 * n100 \<le> r \<and> r \<le> 36524 * n100 + 36524 \<and>
      (r = 36524 * n100 + 36524 \<longrightarrow> n100 = 3)"
    using div_capped_at_3 [of 36524 r] d unfolding n100_def by simp
  have d3: "d2 = 1461 * n4 + d3" "0 \<le> d3" "d3 < 1461"
    unfolding n4_def d3_def by simp_all
  have q4: "0 \<le> n4" "n4 \<le> 24" "d2 = 1461 * n4 + d3" "0 \<le> d3" "d3 < 1461"
    using h d3 unfolding d2_def by linarith+
  have y1: "0 \<le> n1 \<and> n1 \<le> 3 \<and> 365 * n1 \<le> d3 \<and> d3 \<le> 365 * n1 + 365 \<and>
      (d3 = 365 * n1 + 365 \<longrightarrow> n1 = 3)"
    using div_capped_at_3 [of 365 d3] q4(4,5) unfolding n1_def by simp
  have sum: "d = 146097 * q + 36524 * n100 + 1461 * n4 + d3"
    using d(1) q4(3) unfolding d2_def by linarith
  have eq: "year_yday d = (400 * q + 100 * n100 + 4 * n4 + n1 + 1, d3 - 365 * n1)"
    unfolding year_yday_def Let_def n1_def d3_def n4_def d2_def n100_def r_def q_def by simp
  show ?thesis
  proof (rule that [of q n100 n4 n1])
    show "year_yday d = (400 * q + 100 * n100 + 4 * n4 + n1 + 1,
        d - (146097 * q + 36524 * n100 + 1461 * n4 + 365 * n1))"
      using eq sum by simp
    assume "d = 146097 * q + 36524 * n100 + 1461 * n4 + 365 * n1 + 365"
    then have d3: "d3 = 365 * n1 + 365" using sum by linarith
    then have "n1 = 3" using y1 by blast
    moreover have "n100 = 3" if "n4 = 24"
      using h q4(3) d3 \<open>n1 = 3\<close> that unfolding d2_def by simp
    ultimately show "n1 = 3 \<and> (n4 = 24 \<longrightarrow> n100 = 3)" by simp
  qed (use h q4 y1 sum in linarith)+
qed

lemma days_before_year_parts:
  assumes "0 \<le> n100" "n100 \<le> 3" "0 \<le> n4" "n4 \<le> 24" "0 \<le> n1" "n1 \<le> (3::int)"
  shows "days_before_year (400 * q + 100 * n100 + 4 * n4 + n1 + 1)
    = 146097 * q + 36524 * n100 + 1461 * n4 + 365 * n1"
proof -
  let ?y = "400 * q + 100 * n100 + 4 * n4 + n1"
  have "?y div 4 = 100 * q + 25 * n100 + n4"
    by (rule int_div_pos_eq [where r = n1]) (use assms in simp_all)
  moreover have "?y div 100 = 4 * q + n100"
    by (rule int_div_pos_eq [where r = "4 * n4 + n1"]) (use assms in simp_all)
  moreover have "?y div 400 = q"
    by (rule int_div_pos_eq [where r = "100 * n100 + 4 * n4 + n1"]) (use assms in simp_all)
  ultimately show ?thesis unfolding days_before_year_def by simp
qed

lemma div_step:
  fixes y k :: int
  assumes "1 < k"
  shows "y div k = (y - 1) div k + (if y mod k = 0 then 1 else 0)"
proof -
  define q r where "q = (y - 1) div k" and "r = (y - 1) mod k"
  have y: "y = k * q + (r + 1)" "0 \<le> r" "r < k"
    using assms unfolding q_def r_def by (simp_all add: algebra_simps)
  show ?thesis
  proof (cases "r + 1 = k")
    case True
    then have "y = k * (q + 1)" using y by (simp add: algebra_simps)
    then show ?thesis using assms unfolding q_def [symmetric] by simp
  next
    case False
    then have "y div k = q" "y mod k = r + 1"
      using y by (auto intro: int_div_pos_eq int_mod_pos_eq)
    then show ?thesis using y(2) unfolding q_def [symmetric] by simp
  qed
qed

lemma days_before_year_Suc: "days_before_year (y + 1) = days_before_year y + 365 + leap_day y"
proof -
  define c4 c100 c400 where "c4 = (y - 1) div 4" and "c100 = (y - 1) div 100"
    and "c400 = (y - 1) div 400"
  have c: "y div 4 = c4 + (if y mod 4 = 0 then 1 else 0)"
    "y div 100 = c100 + (if y mod 100 = 0 then 1 else 0)"
    "y div 400 = c400 + (if y mod 400 = 0 then 1 else 0)"
    unfolding c4_def c100_def c400_def by (rule div_step, simp)+
  define p4 p100 p400 where "p4 \<longleftrightarrow> y mod 4 = 0" and "p100 \<longleftrightarrow> y mod 100 = 0"
    and "p400 \<longleftrightarrow> y mod 400 = 0"
  have "p400 \<Longrightarrow> p100" "p100 \<Longrightarrow> p4"
    using mod_mod_cancel [of 100 400 y] mod_mod_cancel [of 4 100 y]
    unfolding p4_def p100_def p400_def by simp_all
  then show ?thesis
    unfolding days_before_year_def leap_day_def is_leap_def add_diff_cancel_right' c
      c4_def [symmetric] c100_def [symmetric] c400_def [symmetric]
      p4_def [symmetric] p100_def [symmetric] p400_def [symmetric]
    by auto
qed

lemma year_yday_bounds:
  assumes "year_yday d = (y, yd)"
  shows "d = days_before_year y + yd" "0 \<le> yd" "yd < 365 + leap_day y"
proof -
  obtain q n100 n4 n1 where p:
    "year_yday d = (400 * q + 100 * n100 + 4 * n4 + n1 + 1, d - (146097 * q + 36524 * n100 + 1461 * n4 + 365 * n1))"
    "0 \<le> n100" "n100 \<le> 3" "0 \<le> n4" "n4 \<le> 24" "0 \<le> n1" "n1 \<le> 3"
    "146097 * q + 36524 * n100 + 1461 * n4 + 365 * n1 \<le> d"
    "d \<le> 146097 * q + 36524 * n100 + 1461 * n4 + 365 * n1 + 365"
    "d = 146097 * q + 36524 * n100 + 1461 * n4 + 365 * n1 + 365 \<Longrightarrow> n1 = 3 \<and> (n4 = 24 \<longrightarrow> n100 = 3)"
    using year_yday_parts [of d] by blast
  note dy = days_before_year_parts [OF p(2-7), of q]
  have y: "y = 400 * q + 100 * n100 + 4 * n4 + n1 + 1"
    and yd: "yd = d - (146097 * q + 36524 * n100 + 1461 * n4 + 365 * n1)"
    using assms p(1) by simp_all
  show "d = days_before_year y + yd" using dy y yd by simp
  show "0 \<le> yd" using p(8) yd by simp
  show "yd < 365 + leap_day y"
  proof (cases "yd = 365")
    case True
    then have n1: "n1 = 3" and n4: "n4 = 24 \<Longrightarrow> n100 = 3"
      using p(10) yd by auto
    have "y = 4 * (100 * q + 25 * n100 + n4 + 1)" using y n1 by simp
    then have "y mod 4 = 0" by simp
    moreover have "y mod 100 \<noteq> 0 \<or> y mod 400 = 0"
    proof (cases "n4 = 24")
      case True
      then have "y = 400 * (q + 1)" using y n1 n4 by simp
      then show ?thesis by simp
    next
      case False
      then have "y mod 100 = 4 * (n4 + 1)"
        using y n1 p(4,5)
        by (intro int_mod_pos_eq [where q = "4 * q + n100"]) arith+
      then show ?thesis using p(4) by simp
    qed
    ultimately have "is_leap y" by (simp add: is_leap_def)
    with True show ?thesis by (simp add: leap_day_def)
  next
    case False
    with p(9) yd show ?thesis by (simp add: leap_day_def)
  qed
qed

subsection \<open>The month of a day\<close>

lemma month_of_yday_range: "1 \<le> month_of_yday y yd \<and> month_of_yday y yd \<le> 12"
  by (simp add: month_of_yday_def Let_def)

lemma month_of_yday_upper:
  assumes "yd < 365 + leap_day y" and "month_of_yday y yd < 12"
  shows "yd < days_before_month y (month_of_yday y yd + 1)"
  using assms by (auto simp: month_of_yday_def days_before_month_def Let_def split: if_splits)

lemma month_of_yday_lower: "0 \<le> yd \<Longrightarrow> days_before_month y (month_of_yday y yd) \<le> yd"
  by (auto simp: month_of_yday_def days_before_month_def Let_def)

lemma date_days_in_year: "1 \<le> m \<Longrightarrow> m \<le> 12 \<Longrightarrow> date_days y m = days_before_year y + days_before_month y m"
  by (simp add: date_days_def Let_def)

lemma date_days_13: "date_days y 13 = days_before_year (y + 1)"
  by (simp add: date_days_def days_before_month_def)

lemma day_before_next_month:
  assumes "year_yday d = (y, yd)"
  shows "d < date_days y (month_of_yday y yd + 1)"
proof -
  note b = year_yday_bounds [OF assms]
  show ?thesis
  proof (cases "month_of_yday y yd = 12")
    case True
    then show ?thesis using b by (simp add: date_days_13 days_before_year_Suc)
  next
    case False
    then have "month_of_yday y yd < 12" using month_of_yday_range [of y yd] by linarith
    then show ?thesis
      using b month_of_yday_upper [of yd y] month_of_yday_range [of y yd] date_days_in_year
      by simp
  qed
qed

lemma month_start_le_day:
  assumes "year_yday d = (y, yd)"
  shows "date_days y (month_of_yday y yd) \<le> d"
  using year_yday_bounds [OF assms] month_of_yday_lower [of yd y] month_of_yday_range [of y yd]
  by (simp add: date_days_in_year)

text \<open>The year and the month of a day are the only ones whose days include it.\<close>

lemma days_before_year_strict: "y < y' \<Longrightarrow> days_before_year y < days_before_year y'"
proof (induction "nat (y' - y)" arbitrary: y')
  case (Suc n)
  have step: "days_before_year (y' - 1) < days_before_year y'"
    using days_before_year_Suc [of "y' - 1"] by (simp add: leap_day_def)
  show ?case
  proof (cases "y = y' - 1")
    case False
    then have "days_before_year y < days_before_year (y' - 1)" using Suc by (intro Suc.hyps(1)) auto
    then show ?thesis using step by simp
  qed (use step in simp)
qed simp

lemma year_of_day:
  assumes "days_before_year y \<le> d" "d < days_before_year (y + 1)"
  shows "fst (year_yday d) = y"
proof -
  obtain y' yd where yy: "year_yday d = (y', yd)" by (cases "year_yday d")
  note b = year_yday_bounds [OF yy]
  have "days_before_year y' \<le> d" "d < days_before_year (y' + 1)" using b days_before_year_Suc [of y'] by simp_all
  then have "\<not> y' + 1 \<le> y" "\<not> y + 1 \<le> y'"
    using assms days_before_year_strict [of "y' + 1" y] days_before_year_strict [of "y + 1" y'] by (auto simp: order_le_less)
  then show ?thesis using yy by simp
qed

lemma months_of_year:
  assumes "1 \<le> m" "m \<le> 12"
  shows "days_before_year y \<le> date_days y m" "date_days y (m + 1) \<le> days_before_year (y + 1)"
    and "date_days y m + 28 \<le> date_days y (m + 1)"
proof -
  have m: "m \<in> {1, 2, 3, 4, 5, 6, 7, 8, 9, 10, 11, 12}" using assms by (simp, arith)
  then show "days_before_year y \<le> date_days y m" "date_days y (m + 1) \<le> days_before_year (y + 1)"
    and "date_days y m + 28 \<le> date_days y (m + 1)"
    by (auto simp: date_days_in_year date_days_13 days_before_year_Suc days_before_month_def leap_day_def)
qed

lemma month_of_day:
  assumes "1 \<le> m" "m \<le> 12" "date_days y m \<le> d" "d < date_days y (m + 1)"
  shows "\<exists>yd. year_yday d = (y, yd) \<and> month_of_yday y yd = m"
proof -
  have "fst (year_yday d) = y" by (rule year_of_day) (use months_of_year [OF assms(1,2), of y] assms(3,4) in linarith)+
  then obtain yd where yy: "year_yday d = (y, yd)" by (cases "year_yday d") simp
  note b = year_yday_bounds [OF yy]
  have m: "m \<in> {1, 2, 3, 4, 5, 6, 7, 8, 9, 10, 11, 12}" using assms(1,2) by (simp, arith)
  then have "month_of_yday y yd = m"
    using b assms(3,4)
    by (auto simp: month_of_yday_def date_days_in_year date_days_13 days_before_year_Suc days_before_month_def Let_def leap_day_def split: if_splits)
  then show ?thesis using yy by simp
qed


lemma local_day_bounds: "local_day off t * day_ns \<le> t + off \<and> t + off < (local_day off t + 1) * day_ns"
proof -
  have "t + off = day_ns * local_day off t + (t + off) mod day_ns"
    unfolding local_day_def by simp
  moreover have "0 \<le> (t + off) mod day_ns" "(t + off) mod day_ns < day_ns" by simp_all
  ultimately show ?thesis
    unfolding mult.commute [of _ day_ns] distrib_left mult_1_right by linarith
qed


text \<open>The last day of a month, as a location sees it.\<close>

lemma last_day_of_month:
  assumes "1 \<le> m" "m \<le> 12" "time_Date_first y (m + 1) - day_ns \<le> t + off" "t + off < time_Date_first y (m + 1)"
  shows "time_Year off t = y" "time_Month off t = m"
proof -
  let ?e = "date_days y (m + 1)"
  have "local_day off t * day_ns < ?e * day_ns" "(?e - 1) * day_ns < (local_day off t + 1) * day_ns"
    using assms(3,4) local_day_bounds [of off t] unfolding time_Date_first_def left_diff_distrib mult_1_left by linarith+
  then have "local_day off t < ?e" "?e - 1 \<le> local_day off t" using mult_less_cancel_right_pos [of day_ns] by auto
  then obtain yd where "year_yday (local_day off t) = (y, yd)" "month_of_yday y yd = m"
    using month_of_day [OF assms(1,2), of y "local_day off t"] months_of_year(3) [OF assms(1,2), of y] by auto
  then show "time_Year off t = y" "time_Month off t = m" by (simp_all add: time_Year_def time_Month_def)
qed

end
