(* ===== verification/Auth_Store.thy ===== *)
theory Auth_Store
  imports Go_Map Go_Strings Go_Time
begin

text \<open>
  The persistent user store of \<^verbatim>\<open>internal/auth/auth.go\<close>: the user model, the bootstrap
  from the environment, look-up, usage counting, the monthly scan quota, and persistence.
  Every operation runs under the store's mutex in the source, so it is one atomic function
  on the record \<open>auth_store\<close>. Parameters: \<open>sha\<close> is the hexadecimal SHA-256 digest,
  \<open>off\<close> the offset of the server's time zone east of UTC, \<open>now\<close> (or the sequence
  \<open>clock\<close>) the values of \<^verbatim>\<open>time.Now()\<close>, \<open>encode\<close>/\<open>decode\<close> the JSON codec of the file.
\<close>

section \<open>User model\<close>

record user =
  u_ID :: string
  u_Key :: string
  u_Name :: string
  u_Tier :: string
  u_RateLimit :: int
  u_CreatedAt :: time
  u_LastSeenAt :: time
  u_RequestCount :: int
  u_Disabled :: bool
  u_ScanCount :: int
  u_MonthReset :: time

definition QuotaByTier :: "(string, int) gomap" where
  "QuotaByTier = [(''free'', 100), (''basic'', 1000), (''pro'', 10000), (''admin'', 2 ^ 30)]"

definition QuotaForTier :: "string \<Rightarrow> int" where
  "QuotaForTier tier =
     (case gm_get QuotaByTier tier of
        Some q \<Rightarrow> q
      | None \<Rightarrow> (case gm_get QuotaByTier ''free'' of Some q \<Rightarrow> q | None \<Rightarrow> 0))"

record auth_store =
  as_path :: string
  as_users :: "(string, user) gomap"
  as_dirty :: bool
  as_stopped :: bool

section \<open>Bootstrap\<close>

definition splitKeyTier :: "string \<Rightarrow> string \<Rightarrow> string \<times> string" where
  "splitKeyTier entry dflt =
     (let parts = SplitN2 entry (CHR '':'')
      in if length parts = 2 \<and> parts ! 1 \<noteq> '''' then (TrimSpace (parts ! 0), TrimSpace (parts ! 1))
         else (TrimSpace (parts ! 0), dflt))"

definition defaultRateForTier :: "string \<Rightarrow> int" where
  "defaultRateForTier tier =
     (let t = ToLower tier in
      if t = ''admin'' then 10000
      else if t = ''pro'' then 600
      else if t = ''basic'' then 120
      else 60)"

definition deriveName :: "string \<Rightarrow> string" where
  "deriveName key =
     (if length key \<le> 8 then key else take 4 key @ ''...'' @ drop (length key - 4) key)"

definition unix_epoch :: time where
  "unix_epoch = days_before_year 1970 * day_ns"

definition newID :: "(string \<Rightarrow> string) \<Rightarrow> time \<Rightarrow> string" where
  "newID sha now = take 12 (sha (Itoa (wrap64 (now - unix_epoch))))"

definition hashKey :: "(string \<Rightarrow> string) \<Rightarrow> string \<Rightarrow> string" where
  "hashKey sha s = sha s"

definition fresh_user :: "string \<Rightarrow> string \<Rightarrow> string \<Rightarrow> string \<Rightarrow> time \<Rightarrow> user" where
  "fresh_user uid key nm tier now =
     \<lparr>u_ID = uid, u_Key = key, u_Name = nm, u_Tier = tier, u_RateLimit = defaultRateForTier tier,
      u_CreatedAt = now, u_LastSeenAt = 0, u_RequestCount = 0, u_Disabled = False,
      u_ScanCount = 0, u_MonthReset = 0\<rparr>"

text \<open>One round of the loop over \<^verbatim>\<open>STACKLY_API_KEYS\<close>. The counter \<open>n\<close> numbers the calls
  of \<open>newID\<close>, each of which reads the clock.\<close>

definition boot_api_entry ::
  "(string \<Rightarrow> string) \<Rightarrow> (nat \<Rightarrow> time) \<Rightarrow> time \<Rightarrow> (string, user) gomap \<times> nat \<Rightarrow> string \<Rightarrow> (string, user) gomap \<times> nat"
where
  "boot_api_entry sha clock now st raw =
     (let (users, n) = st; entry = TrimSpace raw in
      if entry = '''' then st
      else let (key, tier) = splitKeyTier entry ''free'' in
        if gm_get users key \<noteq> None then st
        else (gm_put key (fresh_user (newID sha (clock n)) key (deriveName key) tier now) users, Suc n))"

definition boot_basic_entry ::
  "(string \<Rightarrow> string) \<Rightarrow> (nat \<Rightarrow> time) \<Rightarrow> time \<Rightarrow> (string, user) gomap \<times> nat \<Rightarrow> string \<Rightarrow> (string, user) gomap \<times> nat"
where
  "boot_basic_entry sha clock now st raw =
     (let (users, n) = st; entry = TrimSpace raw in
      if entry = '''' then st
      else let parts = SplitN2 entry (CHR '':'') in
        if length parts \<noteq> 2 then st
        else let usr = TrimSpace (parts ! 0); pass = TrimSpace (parts ! 1);
                 key = hashKey sha (''basic:'' @ usr @ '':'' @ pass) in
          if gm_get users key \<noteq> None then st
          else (gm_put key (fresh_user (newID sha (clock n)) key usr ''basic'' now) users, Suc n))"

text \<open>The two loops of \<^verbatim>\<open>bootstrapFromEnv\<close>; an unset variable is the empty string. The
  function's error value is discarded by its only caller.\<close>

definition bootstrapFromEnv ::
  "(string \<Rightarrow> string) \<Rightarrow> (nat \<Rightarrow> time) \<Rightarrow> time \<Rightarrow> string \<Rightarrow> string \<Rightarrow> (string, user) gomap \<Rightarrow> (string, user) gomap"
where
  "bootstrapFromEnv sha clock now ks bs users =
     (let st1 = (if ks \<noteq> '''' then foldl (boot_api_entry sha clock now) (users, 0) (Split ks (CHR '','')) else (users, 0));
          st2 = (if bs \<noteq> '''' then foldl (boot_basic_entry sha clock now) st1 (Split bs (CHR '','')) else st1)
      in fst st2)"

datatype store_error = ParseError string | NilUser

text \<open>The loop over the decoded pointers. A \<^verbatim>\<open>null\<close> in the file's array decodes to a nil
  pointer, and reading its key panics.\<close>

fun load_users :: "user option list \<Rightarrow> (string, user) gomap \<Rightarrow> store_error + (string, user) gomap" where
  "load_users [] users = Inr users"
| "load_users (None # us) users = Inl NilUser"
| "load_users (Some u # us) users = load_users us (gm_put (u_Key u) u users)"

text \<open>\<open>file\<close> is the result of \<^verbatim>\<open>os.ReadFile\<close>: \<open>None\<close> when it fails.\<close>

definition NewStore ::
  "(string \<Rightarrow> string) \<Rightarrow> (nat \<Rightarrow> time) \<Rightarrow> time \<Rightarrow> (string \<Rightarrow> user option list option) \<Rightarrow> string \<Rightarrow> string \<Rightarrow>
    string \<Rightarrow> string option \<Rightarrow> store_error + auth_store"
where
  "NewStore sha clock now decode ks bs path file =
     (let mk = (\<lambda>us. Inr \<lparr>as_path = path, as_users = bootstrapFromEnv sha clock now ks bs us,
                          as_dirty = False, as_stopped = False\<rparr>) in
      case file of
        None \<Rightarrow> mk []
      | Some data \<Rightarrow>
          if data = '''' then mk []
          else (case decode data of
                  None \<Rightarrow> Inl (ParseError path)
                | Some us \<Rightarrow> (case load_users us [] of Inl e \<Rightarrow> Inl e | Inr users \<Rightarrow> mk users)))"

section \<open>Look-up and usage\<close>

definition AuthenticateAPIKey :: "string \<Rightarrow> auth_store \<Rightarrow> user option" where
  "AuthenticateAPIKey key s =
     (case gm_get (as_users s) key of
        None \<Rightarrow> None
      | Some u \<Rightarrow> if u_Disabled u then None else Some u)"

definition redactKey :: "string \<Rightarrow> string" where
  "redactKey k = (if length k \<le> 8 then ''***'' else take 4 k @ ''...'' @ drop (length k - 4) k)"

definition AllUsers :: "auth_store \<Rightarrow> user list" where
  "AllUsers s = map (\<lambda>(k, u). u\<lparr>u_Key := redactKey (u_Key u)\<rparr>) (as_users s)"

definition RecordUsage :: "time \<Rightarrow> string \<Rightarrow> auth_store \<Rightarrow> auth_store" where
  "RecordUsage now key s =
     (case gm_get (as_users s) key of
        None \<Rightarrow> s
      | Some u \<Rightarrow> s\<lparr>as_users := gm_put key (u\<lparr>u_RequestCount := wrap64 (u_RequestCount u + 1), u_LastSeenAt := now\<rparr>) (as_users s),
                    as_dirty := True\<rparr>)"

definition Usage :: "string \<Rightarrow> auth_store \<Rightarrow> json option" where
  "Usage key s =
     (case gm_get (as_users s) key of
        None \<Rightarrow> None
      | Some u \<Rightarrow> Some (JObj
          [(''id'', JStr (u_ID u)), (''name'', JStr (u_Name u)), (''tier'', JStr (u_Tier u)),
           (''rate_limit'', JNum (u_RateLimit u)), (''request_count'', JNum (u_RequestCount u)),
           (''created_at'', JTime (u_CreatedAt u)), (''last_seen_at'', JTime (u_LastSeenAt u)),
           (''key_preview'', JStr (redactKey (u_Key u)))]))"

section \<open>Monthly scan quota\<close>

record quota_info =
  qi_UserID :: string
  qi_Tier :: string
  qi_Used :: int
  qi_Limit :: int
  qi_Remaining :: int
  qi_MonthReset :: time
  qi_Unlimited :: bool

datatype quota_error = ErrQuotaExceeded | ErrUserNotFound

definition max0 :: "int \<Rightarrow> int" where
  "max0 n = (if n < 0 then 0 else n)"

definition nextMonthStart :: "duration \<Rightarrow> time \<Rightarrow> time" where
  "nextMonthStart off now = time_Date_first (time_Year off now) (time_Month off now + 1)"

text \<open>The reset of \<^verbatim>\<open>maybeResetLocked\<close>: the new user and whether the store became dirty.\<close>

definition maybeResetLocked :: "duration \<Rightarrow> time \<Rightarrow> user \<Rightarrow> user \<times> bool" where
  "maybeResetLocked off now u =
     (if u_MonthReset u = 0 \<or> u_MonthReset u < now
      then (u\<lparr>u_ScanCount := 0, u_MonthReset := nextMonthStart off now\<rparr>, True)
      else (u, False))"

definition quota_of :: "user \<Rightarrow> quota_info" where
  "quota_of u =
     \<lparr>qi_UserID = u_ID u, qi_Tier = u_Tier u, qi_Used = u_ScanCount u, qi_Limit = QuotaForTier (u_Tier u),
      qi_Remaining = max0 (wrap64 (QuotaForTier (u_Tier u) - u_ScanCount u)),
      qi_MonthReset = u_MonthReset u, qi_Unlimited = (u_Tier u = ''admin'')\<rparr>"

definition Quota :: "duration \<Rightarrow> time \<Rightarrow> string \<Rightarrow> auth_store \<Rightarrow> quota_info option \<times> auth_store" where
  "Quota off now key s =
     (case gm_get (as_users s) key of
        None \<Rightarrow> (None, s)
      | Some u \<Rightarrow>
          let (u', reset) = maybeResetLocked off now u
          in (Some (quota_of u'),
              s\<lparr>as_users := gm_put key u' (as_users s), as_dirty := as_dirty s \<or> reset\<rparr>))"

definition CheckAndIncrementQuota ::
  "duration \<Rightarrow> time \<Rightarrow> string \<Rightarrow> auth_store \<Rightarrow> (quota_info option \<times> quota_error option) \<times> auth_store"
where
  "CheckAndIncrementQuota off now key s =
     (case gm_get (as_users s) key of
        None \<Rightarrow> ((None, Some ErrUserNotFound), s)
      | Some u \<Rightarrow>
          let (u', reset) = maybeResetLocked off now u;
              limit = QuotaForTier (u_Tier u') in
          if u_Tier u' \<noteq> ''admin'' \<and> limit \<le> u_ScanCount u'
          then ((Some ((quota_of u')\<lparr>qi_Remaining := 0, qi_Unlimited := False\<rparr>), Some ErrQuotaExceeded),
                s\<lparr>as_users := gm_put key u' (as_users s), as_dirty := as_dirty s \<or> reset\<rparr>)
          else let u'' = u'\<lparr>u_ScanCount := wrap64 (u_ScanCount u' + 1)\<rparr>
               in ((Some (quota_of u''), None),
                   s\<lparr>as_users := gm_put key u'' (as_users s), as_dirty := True\<rparr>))"

section \<open>Persistence\<close>

definition save :: "(user list \<Rightarrow> string) \<Rightarrow> write_outcome \<Rightarrow> auth_store \<Rightarrow> string option" where
  "save encode w s = write_file w (encode (map snd (as_users s)))"

text \<open>The select loop of \<^verbatim>\<open>persistLoop\<close>, one case per function: a tick of the 30 s
  ticker, and the closed \<^verbatim>\<open>stopCh\<close>. The second component is the file on disk.\<close>

definition persist_tick ::
  "(user list \<Rightarrow> string) \<Rightarrow> write_outcome \<Rightarrow> auth_store \<times> string option \<Rightarrow> auth_store \<times> string option"
where
  "persist_tick encode w st =
     (let (s, disk) = st; s' = s\<lparr>as_dirty := False\<rparr>
      in if as_dirty s then (s', save encode w s') else (s', disk))"

definition persist_stop ::
  "(user list \<Rightarrow> string) \<Rightarrow> write_outcome \<Rightarrow> auth_store \<times> string option \<Rightarrow> auth_store \<times> string option"
where
  "persist_stop encode w st = (let (s, disk) = st in (s, save encode w s))"

text \<open>\<^verbatim>\<open>Stop\<close> closes the channel once; the loop then saves and exits before it returns.\<close>

definition Stop ::
  "(user list \<Rightarrow> string) \<Rightarrow> write_outcome \<Rightarrow> auth_store \<times> string option \<Rightarrow> auth_store \<times> string option"
where
  "Stop encode w st =
     (let (s, disk) = st in
      if as_stopped s then st else persist_stop encode w (s\<lparr>as_stopped := True\<rparr>, disk))"

text \<open>The store's invariant: the keys of the map are distinct and are the users' keys.\<close>

definition keyed :: "(string, user) gomap \<Rightarrow> bool" where
  "keyed m \<longleftrightarrow> gm_wf m \<and> (\<forall>(k, u) \<in> set m. u_Key u = k)"

definition users_ok :: "auth_store \<Rightarrow> bool" where
  "users_ok s \<longleftrightarrow> keyed (as_users s)"

text \<open>A client that asks for one scan at each time of a list: how many are granted.\<close>

fun grants :: "duration \<Rightarrow> string \<Rightarrow> time list \<Rightarrow> auth_store \<Rightarrow> nat" where
  "grants off key [] s = 0"
| "grants off key (t # ts) s =
     (let r = CheckAndIncrementQuota off t key s
      in (if snd (fst r) = None then 1 else 0) + grants off key ts (snd r))"

section \<open>The invariant is kept\<close>

lemma users_ok_get: "users_ok s \<Longrightarrow> gm_get (as_users s) k = Some u \<Longrightarrow> u_Key u = k"
  by (auto simp: users_ok_def keyed_def dest: gm_get_in_set)

lemma keyed_put: "keyed m \<Longrightarrow> u_Key u = k \<Longrightarrow> keyed (gm_put k u m)"
  by (auto simp: keyed_def gm.wf_put gm_set_put)

lemma keyed_empty: "keyed []"
  by (simp add: keyed_def gm.wf_empty)

lemma users_ok_put: "users_ok s \<Longrightarrow> u_Key u = k \<Longrightarrow> users_ok (s\<lparr>as_users := gm_put k u (as_users s)\<rparr>)"
  by (simp add: users_ok_def keyed_put)

lemma users_ok_dirty [simp]: "users_ok (s\<lparr>as_dirty := d\<rparr>) = users_ok s"
  by (simp add: users_ok_def)

lemma maybeReset_key [simp]: "u_Key (fst (maybeResetLocked off now u)) = u_Key u"
  by (simp add: maybeResetLocked_def)

lemma maybeReset_tier [simp]: "u_Tier (fst (maybeResetLocked off now u)) = u_Tier u"
  by (simp add: maybeResetLocked_def)

lemma RecordUsage_ok [inv_intros]: "users_ok s \<Longrightarrow> users_ok (RecordUsage now key s)"
  by (auto simp: RecordUsage_def users_ok_get intro!: users_ok_put split: option.splits)

lemma Quota_ok [inv_intros]: "users_ok s \<Longrightarrow> users_ok (snd (Quota off now key s))"
  by (auto simp: Quota_def users_ok_get split_def Let_def intro!: users_ok_put split: option.splits)

lemma CheckAndIncrementQuota_ok [inv_intros]:
  "users_ok s \<Longrightarrow> users_ok (snd (CheckAndIncrementQuota off now key s))"
  by (auto simp: CheckAndIncrementQuota_def users_ok_get split_def Let_def
      intro!: users_ok_put split: option.splits)

section \<open>Quota\<close>

lemma QuotaForTier_cases:
  "QuotaForTier tier =
    (if tier = ''free'' then 100 else if tier = ''basic'' then 1000 else if tier = ''pro'' then 10000
     else if tier = ''admin'' then 2 ^ 30 else 100)"
  by (simp add: QuotaForTier_def QuotaByTier_def gm_get_def)

lemma QuotaForTier_range: "100 \<le> QuotaForTier tier \<and> QuotaForTier tier \<le> 2 ^ 30"
  by (simp add: QuotaForTier_cases)

lemma wrap64_count: "0 \<le> n \<Longrightarrow> n < 2 ^ 30 \<Longrightarrow> wrap64 (n + 1) = n + 1"
  by (rule wrap64_id) simp_all

lemma no_reset_in_period:
  "u_MonthReset u \<noteq> 0 \<Longrightarrow> now \<le> u_MonthReset u \<Longrightarrow> maybeResetLocked off now u = (u, False)"
  by (simp add: maybeResetLocked_def)

text \<open>One call inside the period: refused at the limit, granted and counted below it.\<close>

lemma check_at_limit:
  assumes "gm_get (as_users s) key = Some u" "u_Tier u \<noteq> ''admin''"
    and "u_MonthReset u \<noteq> 0" "now \<le> u_MonthReset u" "QuotaForTier (u_Tier u) \<le> u_ScanCount u"
  shows "snd (fst (CheckAndIncrementQuota off now key s)) = Some ErrQuotaExceeded"
    and "gm_get (as_users (snd (CheckAndIncrementQuota off now key s))) key = Some u"
  using assms by (simp_all add: CheckAndIncrementQuota_def no_reset_in_period gm.get_put Let_def)

lemma check_below_limit:
  assumes "gm_get (as_users s) key = Some u"
    and "u_MonthReset u \<noteq> 0" "now \<le> u_MonthReset u"
    and "u_ScanCount u < QuotaForTier (u_Tier u)" "0 \<le> u_ScanCount u"
  shows "snd (fst (CheckAndIncrementQuota off now key s)) = None"
    and "gm_get (as_users (snd (CheckAndIncrementQuota off now key s))) key =
      Some (u\<lparr>u_ScanCount := u_ScanCount u + 1\<rparr>)"
proof -
  have "u_ScanCount u < 2 ^ 30" using assms(4) QuotaForTier_range [of "u_Tier u"] by linarith
  then show "snd (fst (CheckAndIncrementQuota off now key s)) = None"
    "gm_get (as_users (snd (CheckAndIncrementQuota off now key s))) key =
      Some (u\<lparr>u_ScanCount := u_ScanCount u + 1\<rparr>)"
    using assms by (simp_all add: CheckAndIncrementQuota_def no_reset_in_period gm.get_put wrap64_count Let_def)
qed

lemma grants_at_limit:
  assumes "gm_get (as_users s) key = Some u" "u_Tier u \<noteq> ''admin''" "u_MonthReset u \<noteq> 0"
    and "\<And>t. t \<in> set ts \<Longrightarrow> t \<le> u_MonthReset u" "QuotaForTier (u_Tier u) \<le> u_ScanCount u"
  shows "grants off key ts s = 0"
  using assms
proof (induction ts arbitrary: s)
  case Nil
  then show ?case by simp
next
  case (Cons t ts)
  note c = check_at_limit [OF Cons.prems(1-3) Cons.prems(4) [OF list.set_intros(1)] Cons.prems(5), of off]
  have "grants off key ts (snd (CheckAndIncrementQuota off t key s)) = 0"
    by (rule Cons.IH [OF c(2) Cons.prems(2,3)]) (use Cons.prems in auto)
  then show ?case using c(1) by (simp add: Let_def)
qed

lemma grants_in_period:
  assumes "gm_get (as_users s) key = Some u" "u_Tier u \<noteq> ''admin''" "u_MonthReset u \<noteq> 0"
    and "\<And>t. t \<in> set ts \<Longrightarrow> t \<le> u_MonthReset u"
    and "0 \<le> u_ScanCount u" "u_ScanCount u \<le> QuotaForTier (u_Tier u)"
  shows "grants off key ts s = min (length ts) (nat (QuotaForTier (u_Tier u) - u_ScanCount u))"
  using assms
proof (induction ts arbitrary: s u)
  case Nil
  then show ?case by simp
next
  case (Cons t ts)
  show ?case
  proof (cases "u_ScanCount u < QuotaForTier (u_Tier u)")
    case True
    note c = check_below_limit [OF Cons.prems(1,3) Cons.prems(4) [OF list.set_intros(1)] True
        Cons.prems(5), of off]
    have "grants off key ts (snd (CheckAndIncrementQuota off t key s)) =
        min (length ts) (nat (QuotaForTier (u_Tier u) - (u_ScanCount u + 1)))"
      using Cons.IH [OF c(2)] Cons.prems True by simp
    moreover have "min (Suc n) (nat a) = Suc (min n (nat (a - 1)))" if "0 < a" for a :: int and n
      using that by (simp add: min_def) linarith
    ultimately show ?thesis using c(1) True by (simp add: Let_def algebra_simps)
  next
    case False
    then have "grants off key (t # ts) s = 0"
      using Cons.prems by (intro grants_at_limit) auto
    then show ?thesis using False by simp
  qed
qed

section \<open>The monthly reset\<close>

lemma local_now_before_reset: "now + off < nextMonthStart off now"
proof -
  obtain y yd where yy: "year_yday (local_day off now) = (y, yd)" by (cases "year_yday (local_day off now)")
  have "local_day off now + 1 \<le> date_days y (month_of_yday y yd + 1)"
    using day_before_next_month [OF yy] by simp
  then have "(local_day off now + 1) * day_ns \<le> date_days y (month_of_yday y yd + 1) * day_ns"
    by (rule mult_right_mono) (simp add: less_imp_le)
  moreover have "now + off < (local_day off now + 1) * day_ns"
    using local_day_bounds by blast
  ultimately have "now + off < date_days y (month_of_yday y yd + 1) * day_ns" by (rule less_le_trans [rotated])
  then show ?thesis
    using yy by (simp add: nextMonthStart_def time_Date_first_def time_Year_def time_Month_def)
qed

lemma reset_is_future: "0 \<le> off \<Longrightarrow> now < nextMonthStart off now"
  using local_now_before_reset [of now off] by linarith

text \<open>A call that finds the period over: the counter restarts at one.\<close>

lemma check_after_reset:
  assumes "gm_get (as_users s) key = Some u" "u_MonthReset u = 0 \<or> u_MonthReset u < now"
  shows "snd (fst (CheckAndIncrementQuota off now key s)) = None"
    and "gm_get (as_users (snd (CheckAndIncrementQuota off now key s))) key =
      Some (u\<lparr>u_ScanCount := 1, u_MonthReset := nextMonthStart off now\<rparr>)"
  using assms QuotaForTier_range [of "u_Tier u"] wrap64_count [of 0]
  by (simp_all add: CheckAndIncrementQuota_def maybeResetLocked_def gm.get_put Let_def)

text \<open>What one accepted scan costs: the counters of the store's record before and after, by
  the tier's limit and by whether the quota period had ended.\<close>

definition used_scans :: "time \<Rightarrow> user \<Rightarrow> int" where
  "used_scans now u = (if u_MonthReset u = 0 \<or> u_MonthReset u < now then 0 else u_ScanCount u)"

definition scan_charged :: "time \<Rightarrow> string \<Rightarrow> (string, user) gomap \<Rightarrow> (string, user) gomap \<Rightarrow> bool" where
  "scan_charged now key us us' \<longleftrightarrow>
     (\<forall>k. k \<noteq> key \<longrightarrow> gm_get us' k = gm_get us k) \<and>
     (case gm_get us key of
        None \<Rightarrow> gm_get us' key = None
      | Some x \<Rightarrow>
          (u_Tier x = ''admin'' \<or> used_scans now x < QuotaForTier (u_Tier x)) \<and>
          (\<exists>y. gm_get us' key = Some y \<and> u_Tier y = u_Tier x \<and>
             u_RequestCount y = wrap64 (u_RequestCount x + 1) \<and>
             u_ScanCount y = wrap64 (used_scans now x + 1)))"

lemma check_charges:
  assumes "snd (fst (CheckAndIncrementQuota off now key (RecordUsage now' key s))) \<noteq> Some ErrQuotaExceeded"
  shows "scan_charged now key (as_users s) (as_users (snd (CheckAndIncrementQuota off now key (RecordUsage now' key s))))"
proof (cases "gm_get (as_users s) key")
  case None
  then show ?thesis by (simp add: scan_charged_def CheckAndIncrementQuota_def RecordUsage_def)
next
  case (Some x)
  then show ?thesis
    using assms by (auto simp: scan_charged_def CheckAndIncrementQuota_def RecordUsage_def maybeResetLocked_def used_scans_def
        gm.get_put Let_def split: if_splits)
qed

text \<open>When the computed reset date is already past, every call resets the count.\<close>

lemma grants_reset_in_past:
  assumes "gm_get (as_users s) key = Some u" "u_MonthReset u = 0 \<or> (\<forall>t \<in> set ts. u_MonthReset u < t)"
    and "\<And>t. t \<in> set ts \<Longrightarrow> nextMonthStart off t = M \<and> M < t"
  shows "grants off key ts s = length ts"
  using assms
proof (induction ts arbitrary: s u)
  case Nil
  then show ?case by simp
next
  case (Cons t ts)
  have "u_MonthReset u = 0 \<or> u_MonthReset u < t" using Cons.prems(2) by auto
  note c = check_after_reset [OF Cons.prems(1) this, of off]
  have "grants off key ts (snd (CheckAndIncrementQuota off t key s)) = length ts"
    by (rule Cons.IH [OF c(2)]) (use Cons.prems in auto)
  then show ?case using c(1) by (simp add: Let_def)
qed

section \<open>Bootstrap and persistence\<close>

lemma boot_api_keeps:
  "gm_get (fst st) k = Some u \<Longrightarrow> gm_get (fst (boot_api_entry sha clock now st raw)) k = Some u"
  by (auto simp: boot_api_entry_def Let_def split_def gm.get_put)

lemma boot_basic_keeps:
  "gm_get (fst st) k = Some u \<Longrightarrow> gm_get (fst (boot_basic_entry sha clock now st raw)) k = Some u"
  by (auto simp: boot_basic_entry_def Let_def split_def gm.get_put)

lemma foldl_keeps:
  assumes "\<And>st x. P st \<Longrightarrow> P (f st x)" "P st"
  shows "P (foldl f st xs)"
  using assms(2) by (induction xs arbitrary: st) (auto intro: assms(1))

lemma bootstrap_keeps:
  assumes "gm_get users k = Some u"
  shows "gm_get (bootstrapFromEnv sha clock now ks bs users) k = Some u"
proof -
  let ?P = "\<lambda>st. gm_get (fst st) k = Some u"
  have "?P (foldl (boot_api_entry sha clock now) (users, 0) xs)" for xs
    by (rule foldl_keeps [where P = ?P, OF boot_api_keeps]) (use assms in simp_all)
  moreover have "?P (foldl (boot_basic_entry sha clock now) st xs)" if "?P st" for st xs
    by (rule foldl_keeps [where P = ?P, OF boot_basic_keeps]) (use that in simp_all)
  ultimately show ?thesis using assms by (simp add: bootstrapFromEnv_def Let_def)
qed

lemma boot_api_keyed: "keyed (fst st) \<Longrightarrow> keyed (fst (boot_api_entry sha clock now st raw))"
  by (simp add: boot_api_entry_def Let_def split_def fresh_user_def keyed_put)

lemma boot_basic_keyed: "keyed (fst st) \<Longrightarrow> keyed (fst (boot_basic_entry sha clock now st raw))"
  by (simp add: boot_basic_entry_def Let_def split_def fresh_user_def keyed_put)

lemma bootstrap_keyed:
  assumes "keyed users"
  shows "keyed (bootstrapFromEnv sha clock now ks bs users)"
proof -
  let ?P = "\<lambda>st :: (string, user) gomap \<times> nat. keyed (fst st)"
  have "?P (foldl (boot_api_entry sha clock now) (users, 0) xs)" for xs
    by (rule foldl_keeps [where P = ?P, OF boot_api_keyed]) (use assms in simp_all)
  moreover have "?P (foldl (boot_basic_entry sha clock now) st xs)" if "?P st" for st xs
    by (rule foldl_keeps [where P = ?P, OF boot_basic_keyed]) (use that in simp_all)
  ultimately show ?thesis using assms by (simp add: bootstrapFromEnv_def Let_def)
qed

lemma load_users_keyed: "load_users us m = Inr m' \<Longrightarrow> keyed m \<Longrightarrow> keyed m'"
  by (induction us m rule: load_users.induct) (auto simp: keyed_put)

lemma NewStore_ok [inv_intros]:
  "NewStore sha clock now decode ks bs path file = Inr s \<Longrightarrow> users_ok s"
  by (auto simp: NewStore_def users_ok_def Let_def keyed_empty intro!: bootstrap_keyed intro: load_users_keyed [OF _ keyed_empty]
      split: option.splits if_splits sum.splits)

text \<open>A file with a null user is not survived: \<open>NewStore\<close> panics exactly then.\<close>

lemma load_users_panics: "load_users us m = Inl e \<longleftrightarrow> e = NilUser \<and> None \<in> set us"
  by (induction us m rule: load_users.induct) auto

text \<open>Loading what a well-formed store saved gives the store's map back.\<close>

lemma load_users_step:
  "gm_wf m \<Longrightarrow> k \<notin> fst ` set m \<Longrightarrow> gm_put k u m = m @ [(k, u)]"
  by (induction m) (auto simp: gm_put_def gm_wf_def)

lemma load_users_saved_acc:
  assumes "gm_wf (acc @ m)" "\<forall>(k, u) \<in> set m. u_Key u = k"
  shows "load_users (map (Some \<circ> snd) m) acc = Inr (acc @ m)"
  using assms
proof (induction m arbitrary: acc)
  case Nil
  then show ?case by simp
next
  case (Cons a m)
  obtain k u where a: "a = (k, u)" by (cases a)
  have "gm_put k u acc = acc @ [(k, u)]"
    by (rule load_users_step) (use Cons.prems a in \<open>auto simp: gm_wf_def\<close>)
  then show ?case using Cons.IH [of "acc @ [(k, u)]"] Cons.prems a by simp
qed

lemma load_users_saved: "users_ok s \<Longrightarrow> load_users (map (Some \<circ> snd) (as_users s)) [] = Inr (as_users s)"
  unfolding users_ok_def keyed_def using load_users_saved_acc [of "[]" "as_users s"] by simp

section \<open>Properties\<close>

text \<open>C7: Monthly quota enforcement. For a user below the admin tier, inside one quota period,
  any sequence of calls of \<open>CheckAndIncrementQuota\<close> is granted exactly as many times as the
  tier's limit leaves room for: the first calls up to the limit succeed, all others are
  refused.\<close>

theorem quota_exact:
  assumes "gm_get (as_users s) key = Some u" and "u_Tier u \<noteq> ''admin''" and "u_MonthReset u \<noteq> 0"
    and "\<forall>t \<in> set ts. t \<le> u_MonthReset u"
    and "0 \<le> u_ScanCount u" and "u_ScanCount u \<le> QuotaForTier (u_Tier u)"
  shows "grants off key ts s = min (length ts) (nat (QuotaForTier (u_Tier u) - u_ScanCount u))"
  using assms by (intro grants_in_period) auto

theorem quota_exact_witness:
  "grants 0 ''k'' [1, 2, 3]
     \<lparr>as_path = ''p'',
      as_users = [(''k'', (fresh_user ''id'' ''k'' ''n'' ''free'' 0)\<lparr>u_ScanCount := 98, u_MonthReset := 10\<rparr>)],
      as_dirty = False, as_stopped = False\<rparr> = 2"
proof -
  let ?u = "(fresh_user ''id'' ''k'' ''n'' ''free'' 0)\<lparr>u_ScanCount := 98, u_MonthReset := 10\<rparr>"
  let ?s = "\<lparr>as_path = ''p'', as_users = [(''k'', ?u)], as_dirty = False, as_stopped = False\<rparr>"
  have "grants 0 ''k'' [1, 2, 3] ?s =
      min (length [1, 2, 3 :: int]) (nat (QuotaForTier (u_Tier ?u) - u_ScanCount ?u))"
    by (rule quota_exact) (simp_all add: gm_get_def fresh_user_def QuotaForTier_cases)
  then show ?thesis by (simp add: fresh_user_def QuotaForTier_cases)
qed

text \<open>Monthly reset. On a server at or east of UTC, a call made after the quota period ended
  is granted whatever the old count, restarts the count at one, and moves the reset date to
  an instant after the call; the other users' records are not touched.\<close>

theorem quota_reset:
  assumes "gm_get (as_users s) key = Some u" and "u_MonthReset u = 0 \<or> u_MonthReset u < now"
    and "0 \<le> off"
  shows "snd (fst (CheckAndIncrementQuota off now key s)) = None \<and>
    (\<exists>reset > now. gm_get (as_users (snd (CheckAndIncrementQuota off now key s))) key =
      Some (u\<lparr>u_ScanCount := 1, u_MonthReset := reset\<rparr>)) \<and>
    (\<forall>k. k \<noteq> key \<longrightarrow> gm_get (as_users (snd (CheckAndIncrementQuota off now key s))) k = gm_get (as_users s) k)"
proof -
  have "gm_get (as_users (snd (CheckAndIncrementQuota off now key s))) k = gm_get (as_users s) k"
    if "k \<noteq> key" for k
    using assms(1) that by (simp add: CheckAndIncrementQuota_def Let_def split_def gm.get_put)
  then show ?thesis
    using check_after_reset [OF assms(1,2), of off] reset_is_future [OF assms(3), of now] by auto
qed

theorem quota_reset_witness:
  "snd (fst (CheckAndIncrementQuota 0 5 ''k''
     \<lparr>as_path = ''p'', as_users = [(''k'', (fresh_user ''id'' ''k'' ''n'' ''free'' 0)\<lparr>u_ScanCount := 100, u_MonthReset := 4\<rparr>)],
      as_dirty = False, as_stopped = False\<rparr>)) = None"
proof -
  let ?u = "(fresh_user ''id'' ''k'' ''n'' ''free'' 0)\<lparr>u_ScanCount := 100, u_MonthReset := 4\<rparr>"
  let ?s = "\<lparr>as_path = ''p'', as_users = [(''k'', ?u)], as_dirty = False, as_stopped = False\<rparr>"
  have "gm_get (as_users ?s) ''k'' = Some ?u" by (simp add: gm_get_def)
  from quota_reset [OF this, of 5 0] show ?thesis by simp
qed

text \<open>C40: The time-zone gap of the monthly reset. \<open>nextMonthStart\<close> takes year and month in the
  server's zone but midnight in UTC. On a server west of UTC (an offset \<open>off\<close> below zero, by
  a day at most) let \<open>M\<close> be the first instant in UTC of the month after month \<open>m\<close> of year \<open>y\<close>.
  All instants from \<open>M\<close> to the local end of the month, the last \<open>- off\<close> of it, are in month \<open>m\<close> of
  year \<open>y\<close> by the server's clock; and in this window a user of any tier whose reset date is
  unset or not after \<open>M\<close> is granted every scan of any sequence of calls: the quota is not
  enforced.\<close>

theorem quota_gap_west_of_utc:
  assumes "gm_get (as_users s) key = Some u" and "u_MonthReset u \<le> time_Date_first y (m + 1) \<or> u_MonthReset u = 0"
    and "- 24 * hour \<le> off" and "off < 0" and "1 \<le> m" and "m \<le> 12"
    and "\<forall>t \<in> set ts. time_Date_first y (m + 1) < t \<and> t < time_Date_first y (m + 1) - off"
  shows "(\<forall>t \<in> set ts. time_Year off t = y \<and> time_Month off t = m) \<and> grants off key ts s = length ts"
proof -
  let ?M = "time_Date_first y (m + 1)"
  have "day_ns = 24 * hour" by (simp add: day_ns_def hour_def second_def)
  then have ym: "time_Year off t = y \<and> time_Month off t = m" if "t \<in> set ts" for t
    using last_day_of_month [OF assms(5,6), of y t off] assms(3,7) that by auto
  have "grants off key ts s = length ts"
    by (rule grants_reset_in_past [where M = ?M, OF assms(1)]) (use assms(2,7) ym in \<open>auto simp: nextMonthStart_def\<close>)
  then show ?thesis using ym by blast
qed

text \<open>The witness: a server at UTC-8, 101 calls of a user of the tier free, whose limit is
  100, at 04:00 UTC on 2026-02-01, which is 20:00 on January 31st there.\<close>

theorem quota_gap_west_of_utc_witness:
  "grants (- 8 * hour) ''k'' (replicate 101 (time_Date_first 2026 2 + 4 * hour))
     \<lparr>as_path = ''p'', as_users = [(''k'', fresh_user ''id'' ''k'' ''n'' ''free'' 0)],
      as_dirty = False, as_stopped = False\<rparr> = 101 \<and> QuotaForTier ''free'' = 100"
proof -
  let ?s = "\<lparr>as_path = ''p'', as_users = [(''k'', fresh_user ''id'' ''k'' ''n'' ''free'' 0)],
      as_dirty = False, as_stopped = False\<rparr>"
  have "grants (- 8 * hour) ''k'' (replicate 101 (time_Date_first 2026 2 + 4 * hour)) ?s
      = length (replicate 101 (time_Date_first 2026 2 + 4 * hour))"
    by (rule conjunct2 [OF quota_gap_west_of_utc [where u = "fresh_user ''id'' ''k'' ''n'' ''free'' 0" and y = 2026 and m = 1]])
      (simp_all add: gm_get_def fresh_user_def hour_def second_def)
  then show ?thesis by (simp add: QuotaForTier_cases)
qed

text \<open>Users survive a restart. \<open>Stop\<close> writes every user of the store, and \<open>NewStore\<close> on that
  file succeeds and finds each of them again with the same record (counters, quota and
  reset date included), whatever keys the environment lists at the next start. In
  particular a key that came from the environment keeps authenticating after it was removed
  from the environment.\<close>

theorem restart_keeps_users:
  assumes "users_ok s" and "\<not> as_stopped s"
    and "decode (encode (map snd (as_users s))) = Some (map (Some \<circ> snd) (as_users s))"
    and "encode (map snd (as_users s)) \<noteq> ''''"
  shows "\<exists>s'. NewStore sha clock now decode ks bs path (snd (Stop encode WriteOk (s, disk))) = Inr s' \<and>
    (\<forall>k u. gm_get (as_users s) k = Some u \<longrightarrow> gm_get (as_users s') k = Some u)"
  using assms
  by (simp add: Stop_def persist_stop_def save_def write_file_def NewStore_def load_users_saved bootstrap_keeps Let_def)

theorem restart_keeps_users_witness:
  "\<exists>s'. NewStore (\<lambda>x. x) (\<lambda>_. 0) 0 (\<lambda>_. Some [Some (fresh_user ''id'' ''k1'' ''k1'' ''admin'' 7)]) '''' '''' ''p''
      (snd (Stop (\<lambda>_. ''x'') WriteOk
        (\<lparr>as_path = ''p'', as_users = [(''k1'', fresh_user ''id'' ''k1'' ''k1'' ''admin'' 7)],
          as_dirty = False, as_stopped = False\<rparr>, None))) = Inr s' \<and>
    gm_get (as_users s') ''k1'' = Some (fresh_user ''id'' ''k1'' ''k1'' ''admin'' 7)"
proof -
  let ?u = "fresh_user ''id'' ''k1'' ''k1'' ''admin'' 7"
  let ?s = "\<lparr>as_path = ''p'', as_users = [(''k1'', ?u)], as_dirty = False, as_stopped = False\<rparr>"
  have ok: "users_ok ?s" by (simp add: users_ok_def keyed_def gm_wf_def fresh_user_def)
  have get: "gm_get (as_users ?s) ''k1'' = Some ?u" by (simp add: gm_get_def)
  from restart_keeps_users [OF ok, of "\<lambda>_. Some [Some ?u]" "\<lambda>_. ''x''" "\<lambda>x. x" "\<lambda>_. 0" 0 "''''" "''''" "''p''" None] get
  show ?thesis by auto
qed

end
