(* ===== verification/Api_Schedules.thy ===== *)
theory Api_Schedules
  imports Scheduler Http Auth_Store
begin

text \<open>
  The schedule and webhook endpoints, \<^verbatim>\<open>internal/api/schedules.go\<close> and
  \<^verbatim>\<open>webhook_test_helper.go\<close>. A handler maps the store to a response and a store; the server
  may have no store (\<open>None\<close>). The user the middleware put into the request's context is the
  argument \<open>usr\<close>, the decoded JSON body an argument with \<open>Inl\<close> the decoder's error. The
  handlers write through the pointers the store gave them, so the store sees \<open>redactSchedule\<close>.
\<close>

section \<open>JSON of the records\<close>

definition omit_empty :: "string \<Rightarrow> string \<Rightarrow> (string \<times> json) list" where
  "omit_empty k v = (if v = '''' then [] else [(k, JStr v)])"

definition schedule_json :: "schedule \<Rightarrow> json" where
  "schedule_json x = JObj (
     [(''id'', JStr (sch_ID x)), (''url'', JStr (sch_URL x)), (''interval'', JStr (sch_Interval x)), (''owner'', JStr (sch_Owner x)),
      (''enabled'', JBool (sch_Enabled x))] @
     omit_empty ''webhook_url'' (sch_WebhookURL x) @ omit_empty ''webhook_secret'' (sch_WebhookSecret x) @
     [(''has_secret'', JBool (sch_HasSecret x)), (''last_run'', JTime (sch_LastRun x))] @
     omit_empty ''last_status'' (sch_LastStatus x) @ omit_empty ''last_error'' (sch_LastError x) @
     [(''next_run'', JTime (sch_NextRun x)), (''run_count'', JNum (sch_RunCount x)), (''created_at'', JTime (sch_CreatedAt x))])"

definition delivery_json :: "delivery \<Rightarrow> json" where
  "delivery_json d = JObj (
     [(''id'', JStr (wd_ID d)), (''schedule_id'', JStr (wd_ScheduleID d)), (''url'', JStr (wd_URL d)), (''attempt'', JNum (wd_Attempt d)),
      (''status'', JStr (wd_Status d))] @
     (if wd_HTTPCode d = 0 then [] else [(''http_code'', JNum (wd_HTTPCode d))]) @ omit_empty ''error'' (wd_Error d) @
     [(''duration_ms'', JNum (wd_DurationMs d)), (''timestamp'', JTime (wd_Timestamp d))])"

text \<open>\<^verbatim>\<open>%q\<close> for printable ASCII text.\<close>

definition quote_char :: "char \<Rightarrow> string" where
  "quote_char c = (if c = CHR 0x22 then [CHR 0x5C, CHR 0x22] else if c = CHR 0x5C then [CHR 0x5C, CHR 0x5C] else [c])"

definition go_quote :: "string \<Rightarrow> string" where
  "go_quote s = [CHR 0x22] @ concat (map quote_char s) @ [CHR 0x22]"

definition method_not_allowed :: response where
  "method_not_allowed = http_Error [] ''{\"error\":\"Method not allowed\"}'' StatusMethodNotAllowed"

section \<open>Handlers\<close>

record create_body =
  cb_URL :: string
  cb_Interval :: string
  cb_WebhookURL :: string
  cb_WebhookSecret :: string

record patch_body =
  pb_Enabled :: "bool option"
  pb_Interval :: "string option"
  pb_WebhookURL :: "string option"
  pb_WebhookSecret :: "string option"

record test_body =
  tb_URL :: string
  tb_Secret :: string

text \<open>What the handlers meet: the network, the texts of the validation errors, the random
  identifier and the clock.\<close>

record api_env =
  ae_net :: net_env
  ae_msg :: "url_error \<Rightarrow> string"
  ae_id :: string
  ae_now :: time
  ae_now' :: time

definition bad_request :: "string \<Rightarrow> response" where
  "bad_request msg = writeJSON [] StatusBadRequest (json_error msg)"

definition schedule_not_found :: response where
  "schedule_not_found = writeJSON [] StatusNotFound (json_error ''schedule not found'')"

definition scheduleOwner :: "user option \<Rightarrow> string" where
  "scheduleOwner usr = (case usr of Some u \<Rightarrow> u_ID u | None \<Rightarrow> ''default'')"

definition redacted :: "schedule \<Rightarrow> schedule" where
  "redacted x = x\<lparr>sch_HasSecret := (if sch_WebhookSecret x \<noteq> '''' then True else sch_HasSecret x), sch_WebhookSecret := ''''\<rparr>"

definition redactSchedule :: "addr \<Rightarrow> sched_store \<Rightarrow> sched_store" where
  "redactSchedule a s = mutate a redacted s"

definition preset :: "string \<Rightarrow> bool" where
  "preset i \<longleftrightarrow> i = IntervalHourly \<or> i = IntervalDaily \<or> i = IntervalWeekly"

definition requireSchedStore :: "sched_store option \<Rightarrow> response + sched_store" where
  "requireSchedStore st =
     (case st of
        None \<Rightarrow> Inl (writeJSON [] StatusServiceUnavailable (json_error ''scheduler not initialized''))
      | Some s \<Rightarrow> Inr s)"

definition new_schedule :: "create_body \<Rightarrow> string \<Rightarrow> string \<Rightarrow> schedule" where
  "new_schedule body interval owner =
     \<lparr>sch_ID = '''', sch_URL = cb_URL body, sch_Interval = interval, sch_Owner = owner, sch_Enabled = True,
      sch_WebhookURL = cb_WebhookURL body, sch_WebhookSecret = cb_WebhookSecret body, sch_HasSecret = (cb_WebhookSecret body \<noteq> ''''),
      sch_LastRun = 0, sch_LastStatus = '''', sch_LastError = '''', sch_NextRun = 0, sch_RunCount = 0, sch_CreatedAt = 0\<rparr>"

text \<open>The POST handler takes the store's lock twice: \<open>create_check\<close> is everything up to the test of
  the quota, which reads the owner's schedules, and \<open>create_commit\<close> the addition and the answer.
  Another request may come in between.\<close>

definition create_check :: "api_env \<Rightarrow> create_body \<Rightarrow> user option \<Rightarrow> sched_store \<Rightarrow> response + schedule" where
  "create_check ae body usr s =
     (if cb_URL body = '''' then Inl (bad_request ''url is required'')
      else case ValidateScanURL (ae_net ae) (cb_URL body) of
        Some e \<Rightarrow> Inl (bad_request (''invalid url: '' @ ae_msg ae e))
      | None \<Rightarrow>
          (case (if cb_WebhookURL body \<noteq> '''' then ValidateWebhookURL (ae_net ae) (cb_WebhookURL body) else None) of
             Some e \<Rightarrow> Inl (bad_request (''invalid webhook_url: '' @ ae_msg ae e))
           | None \<Rightarrow>
               let interval = (if cb_Interval body = '''' then IntervalDaily else cb_Interval body) in
               if \<not> preset interval then Inl (bad_request ''interval must be one of: hourly, daily, weekly'')
               else
                 let owner = scheduleOwner usr;
                     (tier, hasAuth) = (case usr of Some u \<Rightarrow> (u_Tier u, True) | None \<Rightarrow> (''free'', False));
                     quota = QuotaForOwner tier hasAuth;
                     existing = int (length (ListSchedulesByOwner owner s)) in
                 if existing \<ge> quota then
                   Inl (writeJSON [] StatusTooManyRequests (json_error
                      (''schedule quota exceeded ('' @ Itoa existing @ ''/'' @ Itoa quota @ '' for tier '' @ go_quote tier @ '')'')))
                 else Inr (new_schedule body interval owner)))"

definition create_commit :: "api_env \<Rightarrow> schedule \<Rightarrow> sched_store \<Rightarrow> response \<times> sched_store" where
  "create_commit ae sch s =
     (let (i, a, s1) = AddSchedule (ae_id ae) (ae_now ae) (ae_now' ae) sch s;
          s2 = mutate a (\<lambda>x. x\<lparr>sch_ID := i\<rparr>) s1;
          s3 = redactSchedule a s2
      in (writeJSON [] StatusCreated (schedule_json (sched_at s3 a)), s3))"

text \<open>A request that no other one interrupts.\<close>

definition create_schedule :: "api_env \<Rightarrow> create_body \<Rightarrow> user option \<Rightarrow> sched_store \<Rightarrow> response \<times> sched_store" where
  "create_schedule ae body usr s =
     (case create_check ae body usr s of Inl resp \<Rightarrow> (resp, s) | Inr sch \<Rightarrow> create_commit ae sch s)"

definition handleSchedules ::
  "api_env \<Rightarrow> (string + create_body) \<Rightarrow> request \<Rightarrow> user option \<Rightarrow> sched_store option \<Rightarrow> response \<times> sched_store option"
where
  "handleSchedules ae body r usr st =
     (case requireSchedStore st of
        Inl resp \<Rightarrow> (resp, st)
      | Inr s \<Rightarrow>
          let owner = scheduleOwner usr in
          if r_Method r = ''GET'' then
            let out = ListSchedulesByOwner owner s;
                s' = foldl (\<lambda>s a. redactSchedule a s) s out
            in (writeJSON [] StatusOK (JObj [(''schedules'', JArr (map (\<lambda>a. schedule_json (sched_at s' a)) out))]), Some s')
          else if r_Method r = ''POST'' then
            (case body of
               Inl err \<Rightarrow> (bad_request (''invalid JSON: '' @ err), st)
             | Inr b \<Rightarrow> let (resp, s') = create_schedule ae b usr s in (resp, Some s'))
          else (method_not_allowed, st))"

definition handleScheduleRun :: "api_env \<Rightarrow> request \<Rightarrow> addr \<Rightarrow> sched_store \<Rightarrow> response \<times> sched_store" where
  "handleScheduleRun ae r a s =
     (if r_Method r \<noteq> ''POST'' then (method_not_allowed, s)
      else
        let i = sch_ID (sched_at s a);
            s' = snd (UpdateSchedule i (\<lambda>x. x\<lparr>sch_NextRun := ae_now ae\<rparr>) s)
        in (writeJSON [] StatusOK (JObj [(''status'', JStr ''queued''),
              (''message'', JStr ''schedule will run on next scheduler tick (within 30s)''), (''schedule_id'', JStr i)]), s'))"

definition patched :: "patch_body \<Rightarrow> schedule \<Rightarrow> schedule" where
  "patched b x =
     (let x1 = (case pb_Enabled b of Some e \<Rightarrow> x\<lparr>sch_Enabled := e\<rparr> | None \<Rightarrow> x);
          x2 = (case pb_Interval b of Some i \<Rightarrow> if preset i then x1\<lparr>sch_Interval := i\<rparr> else x1 | None \<Rightarrow> x1);
          x3 = (case pb_WebhookURL b of Some u \<Rightarrow> x2\<lparr>sch_WebhookURL := u\<rparr> | None \<Rightarrow> x2)
      in (case pb_WebhookSecret b of Some k \<Rightarrow> x3\<lparr>sch_WebhookSecret := k, sch_HasSecret := (k \<noteq> '''')\<rparr> | None \<Rightarrow> x3))"

definition patch_schedule :: "api_env \<Rightarrow> patch_body \<Rightarrow> string \<Rightarrow> sched_store \<Rightarrow> response \<times> sched_store" where
  "patch_schedule ae b i s =
     (case (case pb_WebhookURL b of Some u \<Rightarrow> if u \<noteq> '''' then ValidateWebhookURL (ae_net ae) u else None | None \<Rightarrow> None) of
        Some e \<Rightarrow> (bad_request (''invalid webhook_url: '' @ ae_msg ae e), s)
      | None \<Rightarrow>
          (case UpdateSchedule i (patched b) s of
             (None, s') \<Rightarrow> (schedule_not_found, s')
           | (Some a, s') \<Rightarrow> let s'' = redactSchedule a s' in (writeJSON [] StatusOK (schedule_json (sched_at s'' a)), s'')))"

definition handleScheduleSubpath ::
  "api_env \<Rightarrow> (string + patch_body) \<Rightarrow> request \<Rightarrow> user option \<Rightarrow> sched_store option \<Rightarrow> response \<times> sched_store option"
where
  "handleScheduleSubpath ae body r usr st =
     (case requireSchedStore st of
        Inl resp \<Rightarrow> (resp, st)
      | Inr s \<Rightarrow>
          let parts = Split (TrimPrefix (r_Path r) ''/api/schedules/'') (CHR ''/'') in
          if length parts = 0 \<or> parts ! 0 = '''' then (http_NotFound, st)
          else
            let i = parts ! 0 in
            case GetSchedule i s of
              None \<Rightarrow> (schedule_not_found, st)
            | Some a \<Rightarrow>
                if sch_Owner (sched_at s a) \<noteq> scheduleOwner usr then (schedule_not_found, st)
                else if length parts = 2 \<and> parts ! 1 = ''run'' then
                  let (resp, s') = handleScheduleRun ae r a s in (resp, Some s')
                else if length parts > 1 then (http_NotFound, st)
                else if r_Method r = ''GET'' then
                  let s' = redactSchedule a s in (writeJSON [] StatusOK (schedule_json (sched_at s' a)), Some s')
                else if r_Method r = ''PATCH'' then
                  (case body of
                     Inl err \<Rightarrow> (bad_request (''invalid JSON: '' @ err), st)
                   | Inr b \<Rightarrow> let (resp, s') = patch_schedule ae b i s in (resp, Some s'))
                else if r_Method r = ''DELETE'' then
                  (case DeleteSchedule i s of
                     (False, s') \<Rightarrow> (schedule_not_found, Some s')
                   | (True, s') \<Rightarrow> (writeJSON [] StatusOK (JObj [(''status'', JStr ''deleted'')]), Some s'))
                else (method_not_allowed, st))"

section \<open>Webhook log and test\<close>

definition testWebhookDelivery ::
  "(string \<Rightarrow> string \<Rightarrow> string) \<Rightarrow> http_client \<Rightarrow> string \<Rightarrow> string \<Rightarrow> string \<Rightarrow> out_request option \<times> int \<times> string option"
where
  "testWebhookDelivery hmac hc url body secret =
     (case hc_NewRequest hc url of
        Some err \<Rightarrow> (None, 0, Some err)
      | None \<Rightarrow>
          let h1 = gm_put ''Content-Type'' ''application/json'' [];
              h2 = gm_put ''User-Agent'' ''Stackly-Webhook/1.0'' h1;
              h3 = gm_put ''X-Stackly-Event'' ''test'' h2;
              h4 = (if secret \<noteq> '''' then gm_put ''X-Stackly-Signature'' (''sha256='' @ hmac secret body) h3 else h3);
              req = \<lparr>oq_Method = ''POST'', oq_URL = url, oq_Header = h4, oq_Body = body\<rparr>
          in (case hc_Do hc req of
                Inl err \<Rightarrow> (Some req, 0, Some err)
              | Inr code \<Rightarrow>
                  if code < 200 \<or> code \<ge> 300 then (Some req, code, Some (''non-2xx response: '' @ Itoa code))
                  else (Some req, code, None)))"

record hook_env =
  he_hmac :: "string \<Rightarrow> string \<Rightarrow> string"
  he_client :: http_client
  he_Marshal :: "json \<Rightarrow> string"

definition webhook_log :: "string \<Rightarrow> sched_store \<Rightarrow> delivery list" where
  "webhook_log owner s =
     (let out = filter (\<lambda>d. case GetSchedule (wd_ScheduleID d) s of Some a \<Rightarrow> sch_Owner (sched_at s a) = owner | None \<Rightarrow> False) (RecentDeliveries 100 s)
      in if length out > 50 then take 50 out else out)"

definition webhook_test :: "api_env \<Rightarrow> hook_env \<Rightarrow> (string + test_body) \<Rightarrow> response \<times> out_request option" where
  "webhook_test ae he body =
     (case body of
        Inl err \<Rightarrow> (bad_request ''invalid JSON'', None)
      | Inr b \<Rightarrow>
          if tb_URL b = '''' then (bad_request ''url is required'', None)
          else (case ValidateWebhookURL (ae_net ae) (tb_URL b) of
             Some e \<Rightarrow> (bad_request (''invalid url: '' @ ae_msg ae e), None)
           | None \<Rightarrow>
               let payload = JObj [(''event'', JStr ''ping''), (''timestamp'', JTime (ae_now ae)), (''message'', JStr ''Stackly webhook test'')];
                   (req, code, err) = testWebhookDelivery (he_hmac he) (he_client he) (tb_URL b) (he_Marshal he payload) (tb_Secret b)
               in (writeJSON [] StatusOK (JObj ([(''http_code'', JNum code), (''success'', JBool (err = None \<and> 200 \<le> code \<and> code < 300))] @
                     (case err of Some e \<Rightarrow> [(''error'', JStr e)] | None \<Rightarrow> []))), req)))"

definition handleWebhookSubpath ::
  "api_env \<Rightarrow> hook_env \<Rightarrow> (string + test_body) \<Rightarrow> request \<Rightarrow> user option \<Rightarrow> sched_store option \<Rightarrow> response \<times> out_request option"
where
  "handleWebhookSubpath ae he body r usr st =
     (case requireSchedStore st of
        Inl resp \<Rightarrow> (resp, None)
      | Inr s \<Rightarrow>
          let trimmed = TrimPrefix (r_Path r) ''/api/webhooks/'' in
          if trimmed = ''log'' then
            if r_Method r \<noteq> ''GET'' then (method_not_allowed, None)
            else (writeJSON [] StatusOK (JObj [(''deliveries'', JArr (map delivery_json (webhook_log (scheduleOwner usr) s)))]), None)
          else if trimmed = ''test'' then
            if r_Method r \<noteq> ''POST'' then (method_not_allowed, None) else webhook_test ae he body
          else (http_NotFound, None))"

section \<open>The handlers and the store\<close>

lemma keeps_redacted [simp]: "keeps_id redacted"
  by (simp add: keeps_id_def redacted_def)

lemma keeps_patched [simp]: "keeps_id (patched b)"
  by (simp add: keeps_id_def patched_def Let_def split: option.splits)

lemma mutate_view:
  "sched_inv s \<Longrightarrow> keeps_id f \<Longrightarrow> gm_get (ss_schedules s) i = Some a \<Longrightarrow> view (mutate a f s) = (view s)(i := map_option f (view s i))"
  using UpdateSchedule_view [of s f i] by (simp add: UpdateSchedule_eq)

lemma redact_view:
  assumes "sched_inv s" "gm_get (ss_schedules s) i = Some a"
  shows "sched_inv (redactSchedule a s)" "view (redactSchedule a s) = (view s)(i \<mapsto> redacted (sched_at s a))"
    "sched_at (redactSchedule a s) a = redacted (sched_at s a)" "ss_schedules (redactSchedule a s) = ss_schedules s"
  using assms sched_inv_get [OF assms] mutate_view [OF assms(1) keeps_redacted assms(2)] mutate_inv [OF assms(1) keeps_redacted]
  by (simp_all add: redactSchedule_def view_def at_mutate)

lemma owner_redacted [simp]: "sch_Owner (redacted x) = sch_Owner x" "sch_WebhookSecret (redacted x) = ''''"
  by (simp_all add: redacted_def)

lemma owner_patched [simp]: "sch_Owner (patched b x) = sch_Owner x"
  by (simp add: patched_def Let_def split: option.splits)

text \<open>What a tenant's request may do to the store: keep its invariant and every schedule of the others.\<close>

definition spares :: "string \<Rightarrow> sched_store \<Rightarrow> sched_store \<Rightarrow> bool" where
  "spares owner s s' \<longleftrightarrow> sched_inv s' \<and> (\<forall>i x. view s i = Some x \<and> sch_Owner x \<noteq> owner \<longrightarrow> view s' i = Some x)"

lemma spares_refl: "sched_inv s \<Longrightarrow> spares owner s s"
  by (simp add: spares_def)

lemma spares_upd: "sched_inv s' \<Longrightarrow> view s' = (view s)(i := y) \<Longrightarrow> (\<And>x. view s i = Some x \<Longrightarrow> sch_Owner x = owner) \<Longrightarrow> spares owner s s'"
  unfolding spares_def by auto

lemma in_ListSchedulesByOwner:
  assumes "sched_inv s" "a \<in> set (ListSchedulesByOwner owner s)"
  obtains i where "gm_get (ss_schedules s) i = Some a" "sch_Owner (sched_at s a) = owner"
proof -
  have "gm_wf (ss_schedules s)" using assms(1) by (simp add: sched_inv_def)
  then show thesis using assms(2) that gm_in_set_get by (force simp: ListSchedulesByOwner_def)
qed

text \<open>Redacting a list of schedules changes the schedules of the list and no other.\<close>

lemma redact_all:
  assumes "sched_inv s" "\<forall>a \<in> set as. \<exists>i. gm_get (ss_schedules s) i = Some a \<and> sch_Owner (sched_at s a) = owner"
  shows "spares owner s (foldl (\<lambda>s a. redactSchedule a s) s as) \<and>
    ss_schedules (foldl (\<lambda>s a. redactSchedule a s) s as) = ss_schedules s \<and>
    (\<forall>a. sched_at (foldl (\<lambda>s a. redactSchedule a s) s as) a = (if a \<in> set as then redacted (sched_at s a) else sched_at s a))"
  using assms
proof (induction as rule: rev_induct)
  case (snoc b as)
  let ?s = "foldl (\<lambda>s a. redactSchedule a s) s as"
  have IH: "spares owner s ?s" "ss_schedules ?s = ss_schedules s" "\<And>a. sched_at ?s a = (if a \<in> set as then redacted (sched_at s a) else sched_at s a)"
    using snoc.IH snoc.prems by auto
  obtain i where i: "gm_get (ss_schedules s) i = Some b" "sch_Owner (sched_at s b) = owner" using snoc.prems(2) by auto
  have inv: "sched_inv ?s" using IH(1) by (simp add: spares_def)
  have gi: "gm_get (ss_schedules ?s) i = Some b" using i IH(2) by simp
  note r = redact_view [OF inv gi]
  have bl: "b < length (ss_heap ?s)" using sched_inv_get [OF inv gi] by blast
  have tw: "redacted (redacted x) = redacted x" for x by (simp add: redacted_def)
  have at': "sched_at (redactSchedule b ?s) a = (if a \<in> set (as @ [b]) then redacted (sched_at s a) else sched_at s a)" for a
    using IH(3) [of a] IH(3) [of b] bl by (auto simp: redactSchedule_def at_mutate tw)
  have "view (redactSchedule b ?s) k = view ?s k" if "k \<noteq> i" for k using r(2) that by simp
  moreover have "view s i = Some (sched_at s b)" using i by (simp add: view_def)
  ultimately have "spares owner s (redactSchedule b ?s)" using IH(1) r(1) i(2) unfolding spares_def by (metis option.inject)
  then show ?case using at' r(4) IH(2) by simp
qed (simp add: spares_refl)

text \<open>The only way to create a schedule.\<close>

definition create_ok :: "api_env \<Rightarrow> create_body \<Rightarrow> user option \<Rightarrow> sched_store \<Rightarrow> bool" where
  "create_ok ae b usr s \<longleftrightarrow>
     cb_URL b \<noteq> '''' \<and> ValidateScanURL (ae_net ae) (cb_URL b) = None \<and>
     (cb_WebhookURL b = '''' \<or> ValidateWebhookURL (ae_net ae) (cb_WebhookURL b) = None) \<and>
     cb_Interval b \<in> {'''', ''hourly'', ''daily'', ''weekly''} \<and>
     int (length (ListSchedulesByOwner (scheduleOwner usr) s)) <
       (case usr of Some u \<Rightarrow> QuotaForOwner (u_Tier u) True | None \<Rightarrow> QuotaForOwner ''free'' False)"

lemma preset_cases: "preset (if i = '''' then IntervalDaily else i) \<longleftrightarrow> i \<in> {'''', ''hourly'', ''daily'', ''weekly''}"
  by (auto simp: preset_def IntervalHourly_def IntervalDaily_def IntervalWeekly_def)

lemma create_refused:
  "\<not> create_ok ae b usr s \<Longrightarrow> snd (create_schedule ae b usr s) = s \<and> rs_Status (fst (create_schedule ae b usr s)) \<in> {400, 429}"
  unfolding create_ok_def preset_cases [symmetric]
  by (cases usr) (auto simp: create_schedule_def create_check_def bad_request_def Let_def StatusBadRequest_def StatusTooManyRequests_def split: option.splits if_splits)

definition requested :: "create_body \<Rightarrow> user option \<Rightarrow> schedule" where
  "requested b usr = new_schedule b (if cb_Interval b = '''' then IntervalDaily else cb_Interval b) (scheduleOwner usr)"

lemma create_checked: "create_ok ae b usr s \<Longrightarrow> create_check ae b usr s = Inr (requested b usr)"
  unfolding create_ok_def preset_cases [symmetric] create_check_def requested_def Let_def
  by (cases usr; cases "cb_WebhookURL b = ''''") simp_all

lemma create_committed:
  assumes "sched_inv s" "view s (ae_id ae) = None"
  obtains x s' where "create_commit ae (requested b usr) s = (writeJSON [] 201 (schedule_json x), s')" "sched_inv s'" "view s' = (view s)(ae_id ae \<mapsto> x)"
    "sch_URL x = cb_URL b" "sch_Owner x = scheduleOwner usr" "sch_Enabled x" "sch_WebhookURL x = cb_WebhookURL b" "sch_WebhookSecret x = ''''"
    "sch_HasSecret x = (cb_WebhookSecret b \<noteq> '''')" "\<And>a. a < length (ss_heap s) \<Longrightarrow> sched_at s' a = sched_at s a"
    "\<And>a. a < length (ss_heap s') \<Longrightarrow> a < length (ss_heap s) \<or> sched_at s' a = x"
proof -
  let ?sch = "requested b usr"
  let ?add = "AddSchedule (ae_id ae) (ae_now ae) (ae_now' ae) ?sch s"
  obtain i a s1 where add: "?add = (i, a, s1)" by (cases ?add)
  obtain y where y: "view s1 = (view s)(i \<mapsto> y)" "sched_at s1 a = y" and i: "i = ae_id ae" and a: "a = length (ss_heap s)"
    and y': "sch_URL y = cb_URL b" "sch_Owner y = scheduleOwner usr" "sch_Enabled y" "sch_WebhookURL y = cb_WebhookURL b"
      "sch_HasSecret y = (cb_WebhookSecret b \<noteq> '''')" "sch_WebhookSecret y = cb_WebhookSecret b"
    and s1: "ss_heap s1 = ss_heap s @ [y]"
    using added_schedule [OF assms(1) add] by (auto simp: requested_def new_schedule_def)
  have inv: "sched_inv s1" and get: "gm_get (ss_schedules s1) i = Some a" using AddSchedule_view(1,3) [OF assms(1) add] by auto
  have id: "sch_ID (sched_at s1 a) = i" and al: "a < length (ss_heap s1)" using sched_inv_get [OF inv get] by auto
  have same: "mutate a (\<lambda>x. x\<lparr>sch_ID := i\<rparr>) s1 = s1"
  proof -
    have "(sched_at s1 a)\<lparr>sch_ID := i\<rparr> = sched_at s1 a" using id by (cases "sched_at s1 a") simp
    then show ?thesis by (simp add: mutate_def sched_at_def)
  qed
  note r = redact_view [OF inv get]
  have "create_commit ae ?sch s = (writeJSON [] 201 (schedule_json (redacted y)), redactSchedule a s1)"
    using add by (simp add: create_commit_def same r(3) y(2) StatusCreated_def)
  moreover have "view (redactSchedule a s1) = (view s)(ae_id ae \<mapsto> redacted y)" using r(2) y i by simp
  ultimately show thesis
  proof (rule that [OF _ r(1)])
    show "sched_at (redactSchedule a s1) c = sched_at s c" if "c < length (ss_heap s)" for c
      using that a al s1 by (simp add: redactSchedule_def at_mutate) (simp add: sched_at_def nth_append)
    show "c < length (ss_heap s) \<or> sched_at (redactSchedule a s1) c = redacted y" if "c < length (ss_heap (redactSchedule a s1))" for c
      using that r(3) y(2) a s1 by (auto simp: redactSchedule_def less_Suc_eq)
  qed (use y' in \<open>auto simp: redacted_def\<close>)
qed

lemma create_accepted:
  assumes "create_ok ae b usr s" "sched_inv s" "view s (ae_id ae) = None"
  obtains x s' where "create_schedule ae b usr s = (writeJSON [] 201 (schedule_json x), s')" "sched_inv s'" "view s' = (view s)(ae_id ae \<mapsto> x)"
    "sch_URL x = cb_URL b" "sch_Owner x = scheduleOwner usr" "sch_Enabled x" "sch_WebhookURL x = cb_WebhookURL b" "sch_WebhookSecret x = ''''"
    "sch_HasSecret x = (cb_WebhookSecret b \<noteq> '''')" "\<And>a. a < length (ss_heap s) \<Longrightarrow> sched_at s' a = sched_at s a"
    "\<And>a. a < length (ss_heap s') \<Longrightarrow> a < length (ss_heap s) \<or> sched_at s' a = x"
proof -
  have "create_schedule ae b usr s = create_commit ae (requested b usr) s" using create_checked [OF assms(1)] by (simp add: create_schedule_def)
  then show thesis using that create_committed [OF assms(2,3), where b = b and usr = usr] by metis
qed


lemma create_spares:
  assumes "sched_inv s" "view s (ae_id ae) = None"
  shows "spares (scheduleOwner usr) s (snd (create_schedule ae b usr s))"
proof (cases "create_ok ae b usr s")
  case True
  from create_accepted [OF True assms] show ?thesis by (metis assms(2) option.distinct(1) snd_conv spares_upd)
qed (use create_refused assms spares_refl in auto)

lemma handleSchedules_spares:
  assumes "sched_inv s" "view s (ae_id ae) = None" "handleSchedules ae body r usr (Some s) = (resp, st)"
  shows "\<exists>s'. st = Some s' \<and> spares (scheduleOwner usr) s s'"
proof -
  have "\<forall>a \<in> set (ListSchedulesByOwner (scheduleOwner usr) s). \<exists>i. gm_get (ss_schedules s) i = Some a \<and> sch_Owner (sched_at s a) = scheduleOwner usr"
    by (meson in_ListSchedulesByOwner [OF assms(1)])
  note redact = redact_all [OF assms(1) this]
  have create: "spares (scheduleOwner usr) s s'" if "create_schedule ae b usr s = (q, s')" for b q s'
    using create_spares [OF assms(1,2), of usr b] that by simp
  show ?thesis using assms(3) redact create spares_refl [OF assms(1)]
    by (auto simp: handleSchedules_def requireSchedStore_def Let_def split: if_splits sum.splits prod.splits)
qed

lemma run_spares:
  assumes "sched_inv s" "gm_get (ss_schedules s) i = Some a" "sch_Owner (sched_at s a) = owner"
  shows "spares owner s (snd (handleScheduleRun ae r a s))"
proof -
  have id: "sch_ID (sched_at s a) = i" using sched_inv_get [OF assms(1,2)] by blast
  let ?f = "\<lambda>x. x\<lparr>sch_NextRun := ae_now ae\<rparr>"
  have k: "keeps_id ?f" by (simp add: keeps_id_def)
  have "view s i = Some (sched_at s a)" using assms(2) by (simp add: view_def)
  then have "spares owner s (snd (UpdateSchedule i ?f s))"
    using scheds.update_look [OF assms(1) k] scheds.update_inv [OF assms(1) k] assms(3) by (intro spares_upd) auto
  then show ?thesis using spares_refl [OF assms(1)] by (simp add: handleScheduleRun_def Let_def id)
qed

lemma redact_spares:
  assumes "sched_inv s" "gm_get (ss_schedules s) i = Some a" "sch_Owner (sched_at s a) = owner"
  shows "spares owner s (redactSchedule a s)"
  using redact_view [OF assms(1,2)] assms(2,3) by (intro spares_upd) (auto simp: view_def)

lemma patch_spares:
  assumes "sched_inv s" "gm_get (ss_schedules s) i = Some a" "sch_Owner (sched_at s a) = owner"
  shows "spares owner s (snd (patch_schedule ae b i s))"
proof -
  let ?s = "mutate a (patched b) s"
  have al: "a < length (ss_heap s)" using sched_inv_get [OF assms(1,2)] by blast
  have inv: "sched_inv ?s" using mutate_inv [OF assms(1) keeps_patched al] .
  have v: "view ?s = (view s)(i := map_option (patched b) (view s i))" by (rule mutate_view [OF assms(1) keeps_patched assms(2)])
  have "view (redactSchedule a ?s) = (view s)(i \<mapsto> redacted (sched_at ?s a))" "sched_inv (redactSchedule a ?s)"
    using redact_view [OF inv, of i a] assms(2) v by simp_all
  then have "spares owner s (redactSchedule a ?s)" using assms(2,3) by (intro spares_upd) (auto simp: view_def)
  then show ?thesis using spares_refl [OF assms(1)] assms(2)
    by (auto simp: patch_schedule_def UpdateSchedule_eq Let_def split: option.splits)
qed

lemma delete_spares:
  assumes "sched_inv s" "gm_get (ss_schedules s) i = Some a" "sch_Owner (sched_at s a) = owner"
  shows "spares owner s (snd (DeleteSchedule i s))"
  using scheds.remove_look [OF assms(1)] scheds.remove_inv [OF assms(1)] assms(2,3) by (intro spares_upd) (auto simp: view_def)

lemma handleScheduleSubpath_spares:
  assumes "sched_inv s" "handleScheduleSubpath ae body r usr (Some s) = (resp, st)"
  shows "\<exists>s'. st = Some s' \<and> spares (scheduleOwner usr) s s'"
proof -
  let ?o = "scheduleOwner usr" and ?i = "Split (TrimPrefix (r_Path r) ''/api/schedules/'') (CHR ''/'') ! 0"
  note refl = spares_refl [OF assms(1), of ?o]
  show ?thesis
  proof (cases "gm_get (ss_schedules s) ?i")
    case None
    then show ?thesis using assms(2) refl
      by (auto simp: handleScheduleSubpath_def requireSchedStore_def GetSchedule_def Let_def split: if_splits)
  next
    case (Some a)
    show ?thesis
    proof (cases "sch_Owner (sched_at s a) = ?o")
      case False
      then show ?thesis using assms(2) Some refl
        by (auto simp: handleScheduleSubpath_def requireSchedStore_def GetSchedule_def Let_def split: if_splits)
    next
      case True
      note sp = run_spares [OF assms(1) Some True, of ae r] redact_spares [OF assms(1) Some True]
        patch_spares [OF assms(1) Some True, of ae] delete_spares [OF assms(1) Some True]
      show ?thesis using assms(2) Some True refl sp
        by (auto simp: handleScheduleSubpath_def requireSchedStore_def GetSchedule_def Let_def split_def split: if_splits sum.splits bool.splits)
    qed
  qed
qed

section \<open>Properties\<close>

text \<open>C4: Tenants are isolated. A request to the schedule endpoints, whatever its method, path and
  body, leaves every schedule of another owner in the store unchanged, keeps the store's
  invariant, and answers 404 when the path names a schedule of another owner. (The random
  identifier of a new schedule must be unused.)\<close>

theorem tenants_isolated:
  assumes "sched_inv s" "view s (ae_id ae) = None" "view s i = Some x" "sch_Owner x \<noteq> scheduleOwner usr"
  shows "(\<exists>s'. snd (handleSchedules ae body r usr (Some s)) = Some s' \<and> view s' i = Some x \<and> sched_inv s') \<and>
     (\<exists>s'. snd (handleScheduleSubpath ae pbody r usr (Some s)) = Some s' \<and> view s' i = Some x \<and> sched_inv s') \<and>
     (Split (TrimPrefix (r_Path r) ''/api/schedules/'') (CHR ''/'') ! 0 = i \<longrightarrow>
        rs_Status (fst (handleScheduleSubpath ae pbody r usr (Some s))) = 404)"
proof -
  obtain s1 where s1: "snd (handleSchedules ae body r usr (Some s)) = Some s1" "spares (scheduleOwner usr) s s1"
    using handleSchedules_spares [OF assms(1,2)] by (metis prod.collapse)
  obtain s2 where s2: "snd (handleScheduleSubpath ae pbody r usr (Some s)) = Some s2" "spares (scheduleOwner usr) s s2"
    using handleScheduleSubpath_spares [OF assms(1)] by (metis prod.collapse)
  obtain a where a: "gm_get (ss_schedules s) i = Some a" "sched_at s a = x" using assms(3) by (auto simp: view_def)
  have "rs_Status (fst (handleScheduleSubpath ae pbody r usr (Some s))) = 404" if "Split (TrimPrefix (r_Path r) ''/api/schedules/'') (CHR ''/'') ! 0 = i"
    using that a assms(4) by (simp add: handleScheduleSubpath_def requireSchedStore_def GetSchedule_def Let_def schedule_not_found_def StatusNotFound_def)
  then show ?thesis using s1 s2 assms(3,4) unfolding spares_def by blast
qed


definition demo_api_env :: api_env where
  "demo_api_env = \<lparr>ae_net = de_net demo_dispatch, ae_msg = (\<lambda>e. ''bad''), ae_id = ''n1'', ae_now = 10, ae_now' = 11\<rparr>"

definition demo_api_request :: "string \<Rightarrow> string \<Rightarrow> request" where
  "demo_api_request m p = \<lparr>r_Method = m, r_Path = p, r_Header = [], r_Query = [], r_RemoteAddr = '''', r_Host = '''', r_TLS = False\<rparr>"

lemma demo_view: "view demo_store ''s1'' = Some demo_schedule" "view demo_store ''n1'' = None"
  by (simp_all add: view_def demo_store_def gm_get_def sched_at_def)

theorem tenants_isolated_witness:
  "\<exists>s'. snd (handleScheduleSubpath demo_api_env (Inl '''') (demo_api_request ''DELETE'' ''/api/schedules/s1'') None (Some demo_store)) = Some s' \<and>
     view s' ''s1'' = Some demo_schedule"
proof -
  have "view demo_store (ae_id demo_api_env) = None" "sch_Owner demo_schedule \<noteq> scheduleOwner None"
    using demo_view by (simp_all add: demo_api_env_def demo_schedule_def scheduleOwner_def)
  from tenants_isolated [OF demo_store_inv this(1) demo_view(1) this(2)] show ?thesis by blast
qed

text \<open>The number of an owner's schedules.\<close>

lemma owned_count:
  assumes "sched_inv s"
  shows "length (ListSchedulesByOwner owner s) = card {i. \<exists>x. view s i = Some x \<and> sch_Owner x = owner}"
proof -
  let ?P = "\<lambda>p. sch_Owner (sched_at s (snd p)) = owner"
  have wf: "gm_wf (ss_schedules s)" using assms by (simp add: sched_inv_def)
  have "length (ListSchedulesByOwner owner s) = length (filter ?P (ss_schedules s))"
    by (simp add: ListSchedulesByOwner_def filter_map comp_def)
  also have "\<dots> = card (set (map fst (filter ?P (ss_schedules s))))"
    using wf by (subst distinct_card) (auto simp: gm_wf_def distinct_map inj_on_def)
  also have "set (map fst (filter ?P (ss_schedules s))) = {i. \<exists>x. view s i = Some x \<and> sch_Owner x = owner}"
    using gm_in_set_get [OF wf] gm_get_in_set by (force simp: view_def)
  finally show ?thesis .
qed

lemma finite_owned: "finite {i. \<exists>x. view s i = Some x \<and> sch_Owner x = owner}"
proof (rule finite_subset)
  show "{i. \<exists>x. view s i = Some x \<and> sch_Owner x = owner} \<subseteq> fst ` set (ss_schedules s)"
    by (auto simp: view_def dest!: gm_get_in_set intro: rev_image_eqI)
qed simp

lemma commit_counts:
  assumes "sched_inv s" "view s (ae_id ae) = None"
  obtains resp x s' where "create_commit ae (requested b usr) s = (resp, s')" "rs_Status resp = 201" "sched_inv s'" "view s' = (view s)(ae_id ae \<mapsto> x)"
    "length (ListSchedulesByOwner (scheduleOwner usr) s') = Suc (length (ListSchedulesByOwner (scheduleOwner usr) s))"
proof -
  obtain x s' where x: "create_commit ae (requested b usr) s = (writeJSON [] 201 (schedule_json x), s')" "sched_inv s'" "view s' = (view s)(ae_id ae \<mapsto> x)"
      "sch_Owner x = scheduleOwner usr"
    using create_committed [OF assms, where b = b and usr = usr] by metis
  let ?own = "\<lambda>s. {i. \<exists>x. view s i = Some x \<and> sch_Owner x = scheduleOwner usr}"
  have "?own s' = insert (ae_id ae) (?own s)" "ae_id ae \<notin> ?own s" using x(3,4) assms(2) by auto
  then have "length (ListSchedulesByOwner (scheduleOwner usr) s') = Suc (length (ListSchedulesByOwner (scheduleOwner usr) s))"
    using owned_count [OF assms(1)] owned_count [OF x(2)] finite_owned by simp
  then show thesis using that x(1-3) by simp
qed


text \<open>C30: Creating a schedule. \<open>POST /api/schedules\<close> creates a schedule and answers 201 exactly when
  the scan URL is accepted, the webhook URL is empty or accepted, the interval is empty or one
  of the presets and the owner is below the quota of the tier; otherwise it answers 400 or
  429 and leaves the store as it is. A request that no other one interrupts never takes an
  owner's number of schedules past the quota.\<close>

theorem create_exact:
  assumes "sched_inv s" "view s (ae_id ae) = None" "create_schedule ae b usr s = (resp, s')"
  shows "(rs_Status resp = 201 \<longleftrightarrow> create_ok ae b usr s) \<and> (rs_Status resp \<noteq> 201 \<longrightarrow> s' = s \<and> rs_Status resp \<in> {400, 429}) \<and>
     length (ListSchedulesByOwner (scheduleOwner usr) s') = length (ListSchedulesByOwner (scheduleOwner usr) s) + (if rs_Status resp = 201 then 1 else 0) \<and>
     (rs_Status resp = 201 \<longrightarrow> int (length (ListSchedulesByOwner (scheduleOwner usr) s')) \<le>
        (case usr of Some u \<Rightarrow> QuotaForOwner (u_Tier u) True | None \<Rightarrow> QuotaForOwner ''free'' False))"
proof (cases "create_ok ae b usr s")
  case False
  then show ?thesis using create_refused [OF False] assms(3) by auto
next
  case True
  have c: "create_schedule ae b usr s = create_commit ae (requested b usr) s" using create_checked [OF True] by (simp add: create_schedule_def)
  then have "length (ListSchedulesByOwner (scheduleOwner usr) s') = Suc (length (ListSchedulesByOwner (scheduleOwner usr) s))" "rs_Status resp = 201"
    using commit_counts [OF assms(1,2), of b usr] assms(3) by (metis prod.inject)+
  then show ?thesis using True unfolding create_ok_def by (auto split: option.splits)
qed

definition demo_body :: create_body where
  "demo_body = \<lparr>cb_URL = ''u'', cb_Interval = '''', cb_WebhookURL = ''h'', cb_WebhookSecret = ''k''\<rparr>"

lemma demo_create_ok: "create_ok demo_api_env demo_body None demo_store"
  using public_address
  by (simp add: create_ok_def demo_api_env_def demo_body_def demo_dispatch_def ValidateScanURL_def ValidateWebhookURL_def validateURL_def MaxURLLength_def
      allowedSchemes_def gm_get_def ToLower_def to_lower_char_def resolve_def ListSchedulesByOwner_def demo_store_def sched_at_def demo_schedule_def
      scheduleOwner_def QuotaForOwner_def DefaultNoAuthQuota_def)

theorem create_exact_witness:
  "rs_Status (fst (create_schedule demo_api_env demo_body None demo_store)) = 201 \<and>
   length (ListSchedulesByOwner ''default'' (snd (create_schedule demo_api_env demo_body None demo_store))) = 1"
proof -
  have n: "view demo_store (ae_id demo_api_env) = None" using demo_view by (simp add: demo_api_env_def)
  have "ListSchedulesByOwner ''default'' demo_store = []" by (simp add: ListSchedulesByOwner_def demo_store_def sched_at_def demo_schedule_def)
  then show ?thesis using create_exact [OF demo_store_inv n prod.collapse [symmetric], of demo_body None] demo_create_ok
    by (simp add: scheduleOwner_def)
qed

text \<open>Two requests at the same time can exceed the quota. Each POST counts the owner's schedules and adds
  its own under separate acquisitions of the store's lock. When one place is left and both
  requests count before either adds, both are answered with 201 and the owner has one
  schedule more than the quota allows.\<close>

theorem concurrent_creates_exceed_quota:
  assumes "sched_inv s" "create_ok ae b usr s" "create_ok ae2 b2 usr s"
    and "view s (ae_id ae) = None" "view s (ae_id ae2) = None" "ae_id ae \<noteq> ae_id ae2"
    and "int (length (ListSchedulesByOwner (scheduleOwner usr) s)) + 1 = (case usr of Some u \<Rightarrow> QuotaForOwner (u_Tier u) True | None \<Rightarrow> QuotaForOwner ''free'' False)"
  shows "\<exists>x x2 resp s1 resp2 s2. create_check ae b usr s = Inr x \<and> create_check ae2 b2 usr s = Inr x2 \<and>
     create_commit ae x s = (resp, s1) \<and> create_commit ae2 x2 s1 = (resp2, s2) \<and> rs_Status resp = 201 \<and> rs_Status resp2 = 201 \<and>
     int (length (ListSchedulesByOwner (scheduleOwner usr) s2)) = (case usr of Some u \<Rightarrow> QuotaForOwner (u_Tier u) True | None \<Rightarrow> QuotaForOwner ''free'' False) + 1"
proof -
  obtain resp x s1 where c1: "create_commit ae (requested b usr) s = (resp, s1)" "rs_Status resp = 201" "sched_inv s1" "view s1 = (view s)(ae_id ae \<mapsto> x)"
    "length (ListSchedulesByOwner (scheduleOwner usr) s1) = Suc (length (ListSchedulesByOwner (scheduleOwner usr) s))"
    by (rule commit_counts [OF assms(1,4)])
  have "view s1 (ae_id ae2) = None" using c1(4) assms(5,6) by simp
  then obtain resp2 s2 where "create_commit ae2 (requested b2 usr) s1 = (resp2, s2)" "rs_Status resp2 = 201"
    "length (ListSchedulesByOwner (scheduleOwner usr) s2) = Suc (length (ListSchedulesByOwner (scheduleOwner usr) s1))"
    by (rule commit_counts [OF c1(3)])
  then show ?thesis using c1 create_checked [OF assms(2)] create_checked [OF assms(3)] assms(7) by auto
qed


text \<open>C31: A webhook secret does not survive its creation. The handler hands the store a pointer and
  then redacts through it, so after a successful POST with a secret the stored schedule says
  that it has a secret but holds none, and no delivery made for that schedule is signed.\<close>

theorem created_secret_is_lost:
  assumes "sched_inv s" "view s (ae_id ae) = None" "create_ok ae b usr s" "cb_WebhookSecret b \<noteq> ''''"
  shows "\<exists>resp s' x. create_schedule ae b usr s = (resp, s') \<and> rs_Status resp = 201 \<and> view s' (ae_id ae) = Some x \<and>
     sch_HasSecret x \<and> sch_WebhookSecret x = '''' \<and>
     (\<forall>de result status e r. (\<forall>k. de_sch de k = x) \<and> WPost r \<in> set (dispatchWebhook de result status e) \<longrightarrow>
        gm_get (oq_Header r) ''X-Stackly-Signature'' = None)"
proof -
  obtain x s' where x: "create_schedule ae b usr s = (writeJSON [] 201 (schedule_json x), s')" "view s' = (view s)(ae_id ae \<mapsto> x)"
    "sch_WebhookSecret x = ''''" "sch_HasSecret x"
    using create_accepted [OF assms(3,1,2)] assms(4) by metis
  have "gm_get (oq_Header r) ''X-Stackly-Signature'' = None"
    if "\<forall>k. de_sch de k = x" "WPost r \<in> set (dispatchWebhook de result status e)" for de result status e r
    using dispatch_posts [OF that(2)] that(1) x(3) by auto
  then show ?thesis using x by auto
qed

theorem created_secret_is_lost_witness:
  "\<exists>s' x. snd (create_schedule demo_api_env demo_body None demo_store) = s' \<and> view s' ''n1'' = Some x \<and> sch_HasSecret x \<and> sch_WebhookSecret x = ''''"
proof -
  have "view demo_store (ae_id demo_api_env) = None" "cb_WebhookSecret demo_body \<noteq> ''''" "ae_id demo_api_env = ''n1''"
    using demo_view by (simp_all add: demo_api_env_def demo_body_def)
  then show ?thesis using created_secret_is_lost [OF demo_store_inv _ demo_create_ok] by force
qed

text \<open>\<open>POST /api/schedules/{id}/run\<close> makes the schedule run at the next tick. After the request of
  the owner of an enabled schedule, any later tick on the resulting store has the schedule in
  flight.\<close>

theorem run_request_fires:
  assumes "sched_inv s" "view s i = Some x" "sch_Enabled x" "sch_Owner x = scheduleOwner usr"
    and "r_Method r = ''POST''" "Split (TrimPrefix (r_Path r) ''/api/schedules/'') (CHR ''/'') = [i, ''run'']" "i \<noteq> ''''"
    and "ae_now ae \<le> t"
  shows "\<exists>resp s'. handleScheduleSubpath ae body r usr (Some s) = (resp, Some s') \<and> rs_Status resp = 200 \<and>
     (\<forall>w. sd_store w = s' \<longrightarrow> gm_get (sd_inflight (tick t w)) i \<noteq> None)"
proof -
  obtain a where a: "gm_get (ss_schedules s) i = Some a" "sched_at s a = x" using assms(2) by (auto simp: view_def)
  have id: "sch_ID x = i" using sched_inv_get [OF assms(1) a(1)] a(2) by simp
  let ?f = "\<lambda>x. x\<lparr>sch_NextRun := ae_now ae\<rparr>"
  let ?s = "snd (UpdateSchedule i ?f s)"
  have k: "keeps_id ?f" by (simp add: keeps_id_def)
  have inv: "sched_inv ?s" and v: "view ?s i = Some (?f x)"
    using scheds.update_inv [OF assms(1) k] scheds.update_look [OF assms(1) k] assms(2) by simp_all
  have "gm_get (sd_inflight (tick t w)) i \<noteq> None" if w: "sd_store w = ?s" for w
    using tick_due [of w i "?f x" t] inv v w assms(3,8) by simp
  moreover obtain resp where "handleScheduleSubpath ae body r usr (Some s) = (resp, Some ?s)" "rs_Status resp = 200"
    using assms(4-7) a id by (auto simp: handleScheduleSubpath_def requireSchedStore_def GetSchedule_def handleScheduleRun_def Let_def StatusOK_def)
  ultimately show ?thesis by blast
qed

theorem run_request_fires_witness:
  "\<exists>s'. gm_get (sd_inflight (tick 12 (New s'))) ''s1'' \<noteq> None \<and>
     snd (handleScheduleSubpath demo_api_env (Inl '''') (demo_api_request ''POST'' ''/api/schedules/s1/run'')
       (Some (fresh_user ''o'' ''k'' ''n'' ''free'' 0)) (Some demo_store)) = Some s'"
proof -
  have "sch_Enabled demo_schedule" "sch_Owner demo_schedule = scheduleOwner (Some (fresh_user ''o'' ''k'' ''n'' ''free'' 0))"
    "r_Method (demo_api_request ''POST'' ''/api/schedules/s1/run'') = ''POST''"
    "Split (TrimPrefix (r_Path (demo_api_request ''POST'' ''/api/schedules/s1/run'')) ''/api/schedules/'') (CHR ''/'') = [''s1'', ''run'']"
    "ae_now demo_api_env \<le> 12"
    by (simp_all add: demo_schedule_def scheduleOwner_def fresh_user_def demo_api_request_def demo_api_env_def TrimPrefix_def HasPrefix_def)
  from run_request_fires [OF demo_store_inv demo_view(1) this(1-4) _ this(5)] show ?thesis
    by (metis New_def list.distinct(1) scheduler.select_convs(1) snd_conv)
qed

text \<open>The delivery log of an owner. The log endpoint's list holds only deliveries of schedules
  that the caller owns now, at most 50, and is a subsequence of the recent deliveries, newest first.\<close>

theorem webhook_log_owned:
  "set (webhook_log owner s) \<subseteq> {d. \<exists>x. view s (wd_ScheduleID d) = Some x \<and> sch_Owner x = owner} \<and>
   length (webhook_log owner s) \<le> 50 \<and> subseq (webhook_log owner s) (RecentDeliveries 100 s)"
proof -
  let ?out = "filter (\<lambda>d. case GetSchedule (wd_ScheduleID d) s of Some a \<Rightarrow> sch_Owner (sched_at s a) = owner | None \<Rightarrow> False) (RecentDeliveries 100 s)"
  have eq: "webhook_log owner s = take 50 ?out" by (simp add: webhook_log_def Let_def)
  have "subseq (take 50 ?out) (RecentDeliveries 100 s)" by (metis subseq_filter_left subseq_order.trans take_is_prefix prefix_imp_subseq)
  moreover have "\<exists>x. view s (wd_ScheduleID d) = Some x \<and> sch_Owner x = owner" if "d \<in> set (take 50 ?out)" for d
    using in_set_takeD [OF that] by (auto simp: GetSchedule_def view_def split: option.splits)
  ultimately show ?thesis unfolding eq by auto
qed

end
