(* ===== verification/Auth_Limiter.thy ===== *)
theory Auth_Limiter
  imports Complex_Main Go_Map
begin

text \<open>
  The token bucket of \<^verbatim>\<open>internal/auth/auth.go\<close> (\<^verbatim>\<open>bucket\<close>, \<^verbatim>\<open>Auth.allow\<close>). Each call
  runs under the mutex of \<^verbatim>\<open>Auth\<close>. The \<^verbatim>\<open>float64\<close> token counts are exact real numbers
  here. \<open>allow_run\<close> is a sequence of calls for any keys, interleaved; the lemmas bound what
  one key is admitted in it, whatever the other keys do.
\<close>

record bucket =
  b_tokens :: real
  b_lastFill :: time

definition allow ::
  "duration \<Rightarrow> time \<Rightarrow> string \<Rightarrow> int \<Rightarrow> (string, bucket) gomap \<Rightarrow> bool \<times> (string, bucket) gomap"
where
  "allow window now key rate bs =
     (let b = (case gm_get bs key of
                 Some b \<Rightarrow> b
               | None \<Rightarrow> \<lparr>b_tokens = of_int rate, b_lastFill = now\<rparr>);
          refill = of_int (now - b_lastFill b) / of_int window * of_int rate;
          tokens = (if b_tokens b + refill > of_int rate then of_int rate else b_tokens b + refill)
      in if tokens < 1 then (False, gm_put key \<lparr>b_tokens = tokens, b_lastFill = now\<rparr> bs)
         else (True, gm_put key \<lparr>b_tokens = tokens - 1, b_lastFill = now\<rparr> bs))"

text \<open>A sequence of calls (time, key, rate), with the verdict of each.\<close>

fun allow_run ::
  "duration \<Rightarrow> (time \<times> string \<times> int) list \<Rightarrow> (string, bucket) gomap \<Rightarrow> (string \<times> bool) list"
where
  "allow_run window [] bs = []"
| "allow_run window ((t, k, r) # cs) bs =
     (let (ok, bs') = allow window t k r bs in (k, ok) # allow_run window cs bs')"

definition admitted :: "string \<Rightarrow> (string \<times> bool) list \<Rightarrow> nat" where
  "admitted k res = length (filter (\<lambda>(k', ok). k' = k \<and> ok) res)"

definition calls_of :: "string \<Rightarrow> (time \<times> string \<times> int) list \<Rightarrow> nat" where
  "calls_of k cs = length (filter (\<lambda>(t, k', r). k' = k) cs)"

section \<open>One call\<close>

lemma allow_other_key: "k \<noteq> key \<Longrightarrow> gm_get (snd (allow window now key rate bs)) k = gm_get bs k"
  by (simp add: allow_def Let_def gm.get_put)

text \<open>A key without a bucket behaves as one with a full bucket filled just now.\<close>

lemma allow_fresh:
  "gm_get bs key = None \<Longrightarrow>
    \<exists>b. fst (allow window now key rate bs) = (1 \<le> rate) \<and>
      gm_get (snd (allow window now key rate bs)) key = Some b \<and> b_lastFill b = now \<and>
      b_tokens b = of_int rate - (if 1 \<le> rate then 1 else 0 :: real)"
  by (auto simp: allow_def Let_def gm.get_put)

lemma allow_known:
  assumes "gm_get bs key = Some b" "b_lastFill b \<le> now" "0 < window" "0 \<le> rate" "b_tokens b \<le> of_int rate"
  obtains tokens where
    "b_tokens b \<le> tokens" "tokens \<le> of_int rate"
    "tokens \<le> b_tokens b + of_int (now - b_lastFill b) / of_int window * of_int rate"
    "fst (allow window now key rate bs) = (1 \<le> tokens)"
    "gm_get (snd (allow window now key rate bs)) key =
      Some \<lparr>b_tokens = tokens - (if 1 \<le> tokens then 1 else 0), b_lastFill = now\<rparr>"
proof -
  define refill where "refill = (of_int (now - b_lastFill b) / of_int window * of_int rate :: real)"
  define tokens where "tokens = (if b_tokens b + refill > of_int rate then of_int rate else b_tokens b + refill)"
  have "0 \<le> refill" using assms unfolding refill_def by simp
  then have "b_tokens b \<le> tokens" "tokens \<le> of_int rate" "tokens \<le> b_tokens b + refill"
    using assms(5) unfolding tokens_def by auto
  moreover have eq: "allow window now key rate bs =
      (if tokens < 1 then (False, gm_put key \<lparr>b_tokens = tokens, b_lastFill = now\<rparr> bs)
       else (True, gm_put key \<lparr>b_tokens = tokens - 1, b_lastFill = now\<rparr> bs))"
    unfolding allow_def Let_def assms(1) option.case tokens_def refill_def by (rule refl)
  moreover have "fst (allow window now key rate bs) = (1 \<le> tokens)"
    and "gm_get (snd (allow window now key rate bs)) key =
      Some \<lparr>b_tokens = tokens - (if 1 \<le> tokens then 1 else 0), b_lastFill = now\<rparr>"
    unfolding eq by (simp_all add: gm.get_put not_less)
  ultimately show ?thesis using that unfolding refill_def by blast
qed

section \<open>A sequence of calls\<close>

lemma allow_run_Cons:
  "allow_run window ((t, k, r) # cs) bs =
    (k, fst (allow window t k r bs)) # allow_run window cs (snd (allow window t k r bs))"
  by (simp add: split_def Let_def)

lemma admitted_Cons: "admitted k ((k', ok) # res) = (if k' = k \<and> ok then 1 else 0) + admitted k res"
  by (simp add: admitted_def)

text \<open>With a bucket: at most its tokens and what flows in until the last call.\<close>

lemma admitted_le_tokens:
  assumes "gm_get bs k = Some b" "b_tokens b \<le> of_int r" "0 \<le> b_tokens b" "0 < window" "0 \<le> r"
    and "sorted (map fst cs)" "\<forall>(t, k', r') \<in> set cs. b_lastFill b \<le> t \<and> t \<le> t1 \<and> (k' = k \<longrightarrow> r' = r)"
    and "b_lastFill b \<le> t1"
  shows "of_nat (admitted k (allow_run window cs bs)) \<le>
    b_tokens b + of_int (t1 - b_lastFill b) / of_int window * of_int r"
  using assms
proof (induction cs arbitrary: bs b)
  case Nil
  then show ?case by (simp add: admitted_def)
next
  case (Cons c cs)
  obtain t k' r' where c: "c = (t, k', r')" by (cases c) auto
  have later: "\<forall>(t', k', r') \<in> set cs. t \<le> t'" using Cons.prems(6) c by auto
  show ?case
  proof (cases "k' = k")
    case False
    have get: "gm_get (snd (allow window t k' r' bs)) k = Some b"
      using False Cons.prems(1) by (simp add: allow_other_key)
    have "of_nat (admitted k (allow_run window cs (snd (allow window t k' r' bs)))) \<le>
        b_tokens b + of_int (t1 - b_lastFill b) / of_int window * of_int r"
      by (rule Cons.IH [OF get]) (use Cons.prems in auto)
    then show ?thesis using False c by (simp only: allow_run_Cons admitted_Cons) simp
  next
    case True
    have ct: "b_lastFill b \<le> t" "t \<le> t1" "r' = r" using Cons.prems(7) c True by auto
    obtain tokens where k: "b_tokens b \<le> tokens" "tokens \<le> of_int r"
        "tokens \<le> b_tokens b + of_int (t - b_lastFill b) / of_int window * of_int r"
        "fst (allow window t k r bs) = (1 \<le> tokens)"
        "gm_get (snd (allow window t k r bs)) k =
          Some \<lparr>b_tokens = tokens - (if 1 \<le> tokens then 1 else 0), b_lastFill = t\<rparr>"
      using allow_known [OF Cons.prems(1) ct(1) Cons.prems(4,5,2)] by blast
    let ?b = "\<lparr>b_tokens = tokens - (if 1 \<le> tokens then 1 else 0), b_lastFill = t\<rparr>"
    have "of_nat (admitted k (allow_run window cs (snd (allow window t k r bs)))) \<le>
        b_tokens ?b + of_int (t1 - b_lastFill ?b) / of_int window * of_int r"
      by (rule Cons.IH [OF k(5)]) (use Cons.prems k ct later in auto)
    moreover have "of_int (t - b_lastFill b) / of_int window * of_int r + of_int (t1 - t) / of_int window * of_int r
        = (of_int (t1 - b_lastFill b) / of_int window * of_int r :: real)"
      by (simp add: algebra_simps diff_divide_distrib)
    ultimately show ?thesis
      using True ct(3) c k(3,4) by (simp only: allow_run_Cons admitted_Cons) auto
  qed
qed

lemma admitted_fresh:
  assumes "gm_get bs k = None" "0 < window" "0 < r"
    and "sorted (map fst cs)" "\<forall>(t, k', r') \<in> set cs. t0 \<le> t \<and> t \<le> t1 \<and> (k' = k \<longrightarrow> r' = r)"
    and "t0 \<le> t1"
  shows "of_nat (admitted k (allow_run window cs bs)) \<le> (of_int r + of_int (t1 - t0) / of_int window * of_int r :: real)"
  using assms
proof (induction cs arbitrary: bs)
  case Nil
  then show ?case by (simp add: admitted_def)
next
  case (Cons c cs)
  obtain t k' r' where c: "c = (t, k', r')" by (cases c) auto
  show ?case
  proof (cases "k' = k")
    case False
    have get: "gm_get (snd (allow window t k' r' bs)) k = None"
      using False Cons.prems(1) by (simp add: allow_other_key)
    have "of_nat (admitted k (allow_run window cs (snd (allow window t k' r' bs)))) \<le>
        (of_int r + of_int (t1 - t0) / of_int window * of_int r :: real)"
      by (rule Cons.IH [OF get]) (use Cons.prems in auto)
    then show ?thesis using False c by (simp only: allow_run_Cons admitted_Cons) simp
  next
    case True
    have ct: "t0 \<le> t" "t \<le> t1" "r' = r" using Cons.prems(5) c True by auto
    have one: "(1 :: real) \<le> of_int r" using Cons.prems(3) by linarith
    obtain b where b: "fst (allow window t k r bs)" "gm_get (snd (allow window t k r bs)) k = Some b"
        "b_lastFill b = t" "b_tokens b = of_int r - 1"
      using allow_fresh [OF Cons.prems(1), of window t r] one by auto
    have later: "\<forall>(t', k', r') \<in> set cs. t \<le> t'" using Cons.prems(4) c by auto
    have "of_nat (admitted k (allow_run window cs (snd (allow window t k r bs)))) \<le>
        b_tokens b + of_int (t1 - b_lastFill b) / of_int window * of_int r"
      by (rule admitted_le_tokens [OF b(2)]) (use Cons.prems b ct later one in auto)
    moreover have "of_int (t1 - t) / of_int window * of_int r \<le> (of_int (t1 - t0) / of_int window * of_int r :: real)"
      using ct Cons.prems(2,3) by (intro mult_right_mono divide_right_mono) auto
    ultimately show ?thesis
      using True ct(3) c b by (simp only: allow_run_Cons admitted_Cons) auto
  qed
qed

text \<open>A bucket that holds a token for every call to come admits them all.\<close>

lemma burst_known:
  assumes "gm_get bs k = Some b" "b_tokens b \<le> of_int r" "of_nat (calls_of k cs) \<le> b_tokens b"
    and "0 < window" "0 \<le> r" "sorted (map fst cs)"
    and "\<forall>(t, k', r') \<in> set cs. b_lastFill b \<le> t \<and> (k' = k \<longrightarrow> r' = r)"
  shows "admitted k (allow_run window cs bs) = calls_of k cs"
  using assms
proof (induction cs arbitrary: bs b)
  case Nil
  then show ?case by (simp add: admitted_def calls_of_def)
next
  case (Cons c cs)
  obtain t k' r' where c: "c = (t, k', r')" by (cases c) auto
  have later: "\<forall>(t', k', r') \<in> set cs. t \<le> t'" using Cons.prems(6) c by auto
  show ?case
  proof (cases "k' = k")
    case False
    have get: "gm_get (snd (allow window t k' r' bs)) k = Some b"
      using False Cons.prems(1) by (simp add: allow_other_key)
    have "calls_of k (c # cs) = calls_of k cs" using False c by (simp add: calls_of_def)
    moreover have "admitted k (allow_run window cs (snd (allow window t k' r' bs))) = calls_of k cs"
      by (rule Cons.IH [OF get]) (use Cons.prems False c in \<open>auto simp: calls_of_def\<close>)
    ultimately show ?thesis using False c by (simp only: allow_run_Cons admitted_Cons) simp
  next
    case True
    have ct: "b_lastFill b \<le> t" "r' = r" using Cons.prems(7) c True by auto
    obtain tokens where k: "b_tokens b \<le> tokens" "tokens \<le> of_int r"
        "fst (allow window t k r bs) = (1 \<le> tokens)"
        "gm_get (snd (allow window t k r bs)) k =
          Some \<lparr>b_tokens = tokens - (if 1 \<le> tokens then 1 else 0), b_lastFill = t\<rparr>"
      using allow_known [OF Cons.prems(1) ct(1) Cons.prems(4,5,2)] by blast
    have calls: "calls_of k (c # cs) = Suc (calls_of k cs)" using True c by (simp add: calls_of_def)
    then have one: "1 \<le> tokens" using Cons.prems(3) k(1) by simp
    have "admitted k (allow_run window cs (snd (allow window t k r bs))) = calls_of k cs"
      by (rule Cons.IH [OF k(4)]) (use Cons.prems k one calls later in auto)
    then show ?thesis using True ct(2) c k(3) one calls by (simp only: allow_run_Cons admitted_Cons) simp
  qed
qed

lemma burst_fresh:
  assumes "gm_get bs k = None" "int (calls_of k cs) \<le> r" "0 < window" "sorted (map fst cs)"
    and "\<forall>(t, k', r') \<in> set cs. k' = k \<longrightarrow> r' = r"
  shows "admitted k (allow_run window cs bs) = calls_of k cs"
  using assms
proof (induction cs arbitrary: bs)
  case Nil
  then show ?case by (simp add: admitted_def calls_of_def)
next
  case (Cons c cs)
  obtain t k' r' where c: "c = (t, k', r')" by (cases c) auto
  show ?case
  proof (cases "k' = k")
    case False
    have get: "gm_get (snd (allow window t k' r' bs)) k = None"
      using False Cons.prems(1) by (simp add: allow_other_key)
    have "calls_of k (c # cs) = calls_of k cs" using False c by (simp add: calls_of_def)
    moreover have "admitted k (allow_run window cs (snd (allow window t k' r' bs))) = calls_of k cs"
      by (rule Cons.IH [OF get]) (use Cons.prems False c in \<open>auto simp: calls_of_def\<close>)
    ultimately show ?thesis using False c by (simp only: allow_run_Cons admitted_Cons) simp
  next
    case True
    have r: "r' = r" using Cons.prems(5) c True by auto
    have calls: "calls_of k (c # cs) = Suc (calls_of k cs)" using True c by (simp add: calls_of_def)
    then have one: "1 \<le> r" using Cons.prems(2) by simp
    obtain b where b: "fst (allow window t k r bs)" "gm_get (snd (allow window t k r bs)) k = Some b"
        "b_lastFill b = t" "b_tokens b = of_int r - 1"
      using allow_fresh [OF Cons.prems(1), of window t r] one by auto
    have later: "\<forall>(t', k', r') \<in> set cs. t \<le> t'" using Cons.prems(4) c by auto
    have "of_nat (calls_of k cs) \<le> (of_int r - 1 :: real)" using Cons.prems(2) calls by linarith
    then have "admitted k (allow_run window cs (snd (allow window t k r bs))) = calls_of k cs"
      by (intro burst_known [OF b(2), where r = r]) (use Cons.prems b one later in auto)
    then show ?thesis using True r c b(1) calls by (simp only: allow_run_Cons admitted_Cons) simp
  qed
qed

section \<open>Properties\<close>

text \<open>C8: Rate limit. In any interleaved sequence of calls of \<open>allow\<close> between \<open>t0\<close> and \<open>t1\<close>, a
  key that starts without a bucket is admitted at most its rate plus the share of the rate
  that the elapsed part of the window refills.\<close>

theorem rate_limit_bound:
  assumes "gm_get bs k = None" and "0 < window" and "0 < r" and "sorted (map fst cs)"
    and "\<forall>(t, k', r') \<in> set cs. t0 \<le> t \<and> t \<le> t1 \<and> (k' = k \<longrightarrow> r' = r)" and "t0 \<le> t1"
  shows "of_nat (admitted k (allow_run window cs bs)) \<le>
    (of_int r + of_int (t1 - t0) / of_int window * of_int r :: real)"
  using assms by (rule admitted_fresh)

theorem rate_limit_bound_witness:
  "of_nat (admitted ''a'' (allow_run 60 [(0, ''a'', 2), (0, ''b'', 1), (0, ''a'', 2), (1, ''a'', 2), (30, ''a'', 2)] []))
    \<le> (3 :: real)"
  using rate_limit_bound [of "[]" "''a''" 60 2
      "[(0, ''a'', 2), (0, ''b'', 1), (0, ''a'', 2), (1, ''a'', 2), (30, ''a'', 2)]" 0 30]
  by (simp add: gm_get_def)

text \<open>Burst. A key without a bucket is admitted for each of its first calls, up to its
  rate, however close together they are and whatever other keys do in between.\<close>

theorem rate_limit_burst:
  assumes "gm_get bs k = None" and "int (calls_of k cs) \<le> r" and "0 < window" and "sorted (map fst cs)"
    and "\<forall>(t, k', r') \<in> set cs. k' = k \<longrightarrow> r' = r"
  shows "admitted k (allow_run window cs bs) = calls_of k cs"
  using assms by (rule burst_fresh)

theorem rate_limit_burst_witness:
  "admitted ''a'' (allow_run 60 [(0, ''a'', 2), (0, ''b'', 1), (0, ''a'', 2)] []) = 2"
  using rate_limit_burst [of "[]" "''a''" "[(0, ''a'', 2), (0, ''b'', 1), (0, ''a'', 2)]" 2 60]
  by (simp add: gm_get_def calls_of_def)

end
