(* ===== verification/Go_Base64.thy ===== *)
theory Go_Base64
  imports Prelude
begin

text \<open>
  \<^verbatim>\<open>base64.StdEncoding\<close>, as far as the program uses it: \<open>b64_decode\<close> is
  \<^verbatim>\<open>DecodeString\<close> (carriage returns and line feeds are skipped, padding is required and
  ends the input, \<open>None\<close> is \<^verbatim>\<open>CorruptInputError\<close>), and \<open>b64_encode\<close> the encoding a client
  of HTTP Basic authentication sends. Decoding inverts encoding.
\<close>

definition b64_digit :: "nat \<Rightarrow> char" where
  "b64_digit n =
     (if n < 26 then char_of (65 + n) else if n < 52 then char_of (97 + (n - 26))
      else if n < 62 then char_of (48 + (n - 52)) else if n = 62 then CHR ''+'' else CHR ''/'')"

definition b64_value :: "char \<Rightarrow> nat option" where
  "b64_value c =
     (let n = (of_char c :: nat) in
      if 65 \<le> n \<and> n \<le> 90 then Some (n - 65)
      else if 97 \<le> n \<and> n \<le> 122 then Some (n - 97 + 26)
      else if 48 \<le> n \<and> n \<le> 57 then Some (n - 48 + 52)
      else if c = CHR ''+'' then Some 62
      else if c = CHR ''/'' then Some 63
      else None)"

definition b64_pad :: char where
  "b64_pad = CHR ''=''"

fun b64_encode :: "string \<Rightarrow> string" where
  "b64_encode [] = []"
| "b64_encode [a] =
     (let x = of_char a in [b64_digit (x div 4), b64_digit (x mod 4 * 16), b64_pad, b64_pad])"
| "b64_encode [a, b] =
     (let x = of_char a; y = of_char b
      in [b64_digit (x div 4), b64_digit (x mod 4 * 16 + y div 16), b64_digit (y mod 16 * 4), b64_pad])"
| "b64_encode (a # b # c # s) =
     (let x = of_char a; y = of_char b; z = of_char c
      in b64_digit (x div 4) # b64_digit (x mod 4 * 16 + y div 16)
         # b64_digit (y mod 16 * 4 + z div 64) # b64_digit (z mod 64) # b64_encode s)"

text \<open>One group of four: the bytes it stands for.\<close>

definition b64_bytes2 :: "nat \<Rightarrow> nat \<Rightarrow> string" where
  "b64_bytes2 p q = [char_of (p * 4 + q div 16)]"

definition b64_bytes3 :: "nat \<Rightarrow> nat \<Rightarrow> nat \<Rightarrow> string" where
  "b64_bytes3 p q r = [char_of (p * 4 + q div 16), char_of (q mod 16 * 16 + r div 4)]"

definition b64_bytes4 :: "nat \<Rightarrow> nat \<Rightarrow> nat \<Rightarrow> nat \<Rightarrow> string" where
  "b64_bytes4 p q r t = b64_bytes3 p q r @ [char_of (r mod 4 * 64 + t)]"

fun b64_groups :: "string \<Rightarrow> string option" where
  "b64_groups [] = Some []"
| "b64_groups (a # b # c # d # s) =
     (case (b64_value a, b64_value b) of
        (Some p, Some q) \<Rightarrow>
          (if c = b64_pad then (if d = b64_pad \<and> s = [] then Some (b64_bytes2 p q) else None)
           else case b64_value c of
                  None \<Rightarrow> None
                | Some r \<Rightarrow>
                    (if d = b64_pad then (if s = [] then Some (b64_bytes3 p q r) else None)
                     else case b64_value d of
                            None \<Rightarrow> None
                          | Some t \<Rightarrow> map_option (\<lambda>rest. b64_bytes4 p q r t @ rest) (b64_groups s)))
      | _ \<Rightarrow> None)"
| "b64_groups _ = None"

definition b64_decode :: "string \<Rightarrow> string option" where
  "b64_decode s = b64_groups (filter (\<lambda>c. c \<noteq> CHR 0x0A \<and> c \<noteq> CHR 0x0D) s)"

lemma b64_value_digit: "n < 64 \<Longrightarrow> b64_value (b64_digit n) = Some n"
  by (auto simp: b64_value_def b64_digit_def Let_def)

lemma b64_digit_not_pad: "n < 64 \<Longrightarrow> b64_digit n \<noteq> b64_pad"
  using b64_value_digit [of n] by (auto simp: b64_value_def b64_pad_def Let_def)

lemma b64_digit_not_newline: "n < 64 \<Longrightarrow> b64_digit n \<noteq> CHR 0x0A \<and> b64_digit n \<noteq> CHR 0x0D"
  using b64_value_digit [of n] by (auto simp: b64_value_def Let_def)

lemma byte_lt [simp]: "(of_char c :: nat) < 256"
  by (rule nat_of_char_less_256)

lemma split_digits:
  fixes m k r :: nat
  assumes "r < k"
  shows "(m * k + r) div k = m" and "(m * k + r) mod k = r"
  using assms by simp_all

text \<open>The bits of three bytes, cut into four digits and put together again.\<close>

lemma regroup:
  fixes x y z :: nat
  assumes "y < 256" "z < 256"
  shows "x div 4 * 4 + (x mod 4 * 16 + y div 16) div 16 = x"
    and "(x mod 4 * 16 + y div 16) mod 16 * 16 + (y mod 16 * 4 + z div 64) div 4 = y"
    and "(y mod 16 * 4 + z div 64) mod 4 * 64 + z mod 64 = z"
proof -
  have "y div 16 < 16" "z div 64 < 4" using assms by linarith+
  note d = split_digits [OF this(1), of "x mod 4"] split_digits [OF this(2), of "y mod 16"]
  show "x div 4 * 4 + (x mod 4 * 16 + y div 16) div 16 = x" by (simp only: d div_mult_mod_eq)
  show "(x mod 4 * 16 + y div 16) mod 16 * 16 + (y mod 16 * 4 + z div 64) div 4 = y"
    by (simp only: d div_mult_mod_eq)
  show "(y mod 16 * 4 + z div 64) mod 4 * 64 + z mod 64 = z" by (simp only: d div_mult_mod_eq)
qed

lemma b64_groups_encode: "b64_groups (b64_encode s) = Some s"
proof (induction s rule: b64_encode.induct)
  case 1
  then show ?case by simp
next
  case (2 a)
  have "(of_char a :: nat) div 4 < 64" "(of_char a :: nat) mod 4 * 16 < 64" 
    using byte_lt [of a] by linarith+
  moreover have "of_char a div 4 * 4 + (of_char a mod 4 * 16) div 16 = (of_char a :: nat)" by simp
  ultimately show ?case
    by (simp add: Let_def b64_value_digit b64_bytes2_def)
next
  case (3 a b)
  have l: "(of_char a :: nat) div 4 < 64" "(of_char a :: nat) mod 4 * 16 + of_char b div 16 < 64" 
    "(of_char b :: nat) mod 16 * 4 < 64"
    using byte_lt [of a] byte_lt [of b] by linarith+
  have "of_char a div 4 * 4 + (of_char a mod 4 * 16 + of_char b div 16) div 16 = (of_char a :: nat)"
    "(of_char a mod 4 * 16 + of_char b div 16) mod 16 * 16 + of_char b mod 16 * 4 div 4 = (of_char b :: nat)"
    using regroup(1,2) [where x = "of_char a" and y = "of_char b" and z = 0] by simp_all
  with l show ?case
    by (simp add: Let_def b64_value_digit b64_digit_not_pad b64_bytes3_def)
next
  case (4 a b c s)
  have l: "(of_char a :: nat) div 4 < 64" "(of_char a :: nat) mod 4 * 16 + of_char b div 16 < 64" 
    "(of_char b :: nat) mod 16 * 4 + of_char c div 64 < 64" "(of_char c :: nat) mod 64 < 64"
    using byte_lt [of a] byte_lt [of b] byte_lt [of c] by linarith+
  note regroup(1,2) [where x = "of_char a", OF byte_lt [of b] byte_lt [of c]]
    regroup(3) [OF byte_lt [of b] byte_lt [of c]]
  with l 4 show ?case
    by (simp add: Let_def b64_value_digit b64_digit_not_pad b64_bytes3_def b64_bytes4_def)
qed

lemma b64_encode_no_newline: "set (b64_encode s) \<inter> {CHR 0x0A, CHR 0x0D} = {}"
proof (induction s rule: b64_encode.induct)
  case (2 a)
  have "(of_char a :: nat) div 4 < 64" "(of_char a :: nat) mod 4 * 16 < 64"
    using byte_lt [of a] by linarith+
  then show ?case by (simp add: Let_def b64_pad_def b64_digit_not_newline)
next
  case (3 a b)
  have "(of_char a :: nat) div 4 < 64" "(of_char a :: nat) mod 4 * 16 + of_char b div 16 < 64"
    "(of_char b :: nat) mod 16 * 4 < 64"
    using byte_lt [of a] byte_lt [of b] by linarith+
  then show ?case by (simp add: Let_def b64_pad_def b64_digit_not_newline)
next
  case (4 a b c s)
  have "(of_char a :: nat) div 4 < 64" "(of_char a :: nat) mod 4 * 16 + of_char b div 16 < 64"
    "(of_char b :: nat) mod 16 * 4 + of_char c div 64 < 64" "(of_char c :: nat) mod 64 < 64"
    using byte_lt [of a] byte_lt [of b] byte_lt [of c] by linarith+
  then show ?case using 4 by (simp add: Let_def b64_digit_not_newline)
qed simp

lemma b64_decode_encode: "b64_decode (b64_encode s) = Some s"
proof -
  have "filter (\<lambda>c. c \<noteq> CHR 0x0A \<and> c \<noteq> CHR 0x0D) (b64_encode s) = b64_encode s"
    using b64_encode_no_newline [of s] by (intro filter_True) auto
  then show ?thesis by (simp add: b64_decode_def b64_groups_encode)
qed

end
