(* ===== verification/Auth_Middleware.thy ===== *)
theory Auth_Middleware
  imports Auth_Store Auth_Limiter Go_Base64 Http
begin

text \<open>
  The authentication middleware of \<^verbatim>\<open>internal/auth/auth.go\<close>: credentials (API key, HTTP
  Basic, JWT), the public paths, the per-user rate limit and usage recording. The record
  \<open>auth_env\<close> holds what is outside the package: the SHA-256 digest, the JWT library's
  \<^verbatim>\<open>jwt.Parse\<close> (applied to the program's key function), \<^verbatim>\<open>fmt\<close>'s rendering of a claim that
  is not a string, the variable \<^verbatim>\<open>STACKLY_NO_AUTH\<close>, and the address functions of \<^verbatim>\<open>net\<close>.
\<close>

record auth =
  a_store :: "auth_store option"
  a_enabled :: bool
  a_defaultRate :: int
  a_window :: duration
  a_jwtSecret :: string
  a_anonBuckets :: "(string, bucket) gomap"

record auth_env =
  ev_sha :: "string \<Rightarrow> string"
  ev_jwt_Parse :: "(bool \<Rightarrow> string option) \<Rightarrow> string \<Rightarrow> (string, json) gomap option"
  ev_Sprint :: "json \<Rightarrow> string"
  ev_NO_AUTH :: string
  ev_ParseIP :: "string \<Rightarrow> string option"
  ev_SplitHost :: "string \<Rightarrow> string option"

definition auth_New :: "auth_store \<Rightarrow> string \<Rightarrow> auth" where
  "auth_New store jwtSecret =
     \<lparr>a_store = Some store, a_enabled = True, a_defaultRate = 60, a_window = 1 * minute,
      a_jwtSecret = jwtSecret, a_anonBuckets = []\<rparr>"

definition Enabled :: "auth_env \<Rightarrow> auth \<Rightarrow> bool" where
  "Enabled ev a =
     (if ev_NO_AUTH ev \<noteq> '''' then False
      else if \<not> a_enabled a then False
      else case a_store a of
        None \<Rightarrow> False
      | Some st \<Rightarrow> \<not> (length (AllUsers st) = 0 \<and> length (a_jwtSecret a) = 0))"

definition detectAuthType :: "request \<Rightarrow> string" where
  "detectAuthType r =
     (if header_Get r ''X-API-Key'' \<noteq> '''' then ''api_key''
      else let h = header_Get r ''Authorization'' in
        if h = '''' then ''none''
        else if HasPrefix h ''Basic '' then ''basic''
        else if HasPrefix h ''Bearer '' then ''bearer''
        else ''unknown'')"

definition clientIP :: "auth_env \<Rightarrow> request \<Rightarrow> string" where
  "clientIP ev r =
     (let xff = header_Get r ''X-Forwarded-For''; xri = header_Get r ''X-Real-Ip'';
          remote = (case ev_SplitHost ev (r_RemoteAddr r) of Some host \<Rightarrow> host | None \<Rightarrow> r_RemoteAddr r);
          real = (if xri \<noteq> '''' then (case ev_ParseIP ev xri of Some p \<Rightarrow> p | None \<Rightarrow> remote) else remote)
      in if xff \<noteq> ''''
         then (case ev_ParseIP ev (TrimSpace (Split xff (CHR '','') ! 0)) of Some p \<Rightarrow> p | None \<Rightarrow> real)
         else real)"

datatype auth_error = BadBase64 | InvalidBasic

definition base64Decode :: "string \<Rightarrow> auth_error + string" where
  "base64Decode s = (case b64_decode s of None \<Rightarrow> Inl BadBase64 | Some d \<Rightarrow> Inr d)"

definition decodeBasic :: "string \<Rightarrow> auth_error + (string \<times> string)" where
  "decodeBasic s =
     (case base64Decode s of
        Inl e \<Rightarrow> Inl e
      | Inr dec \<Rightarrow>
          let parts = SplitN2 dec (CHR '':'')
          in if length parts \<noteq> 2 then Inl InvalidBasic else Inr (parts ! 0, parts ! 1))"

text \<open>\<^verbatim>\<open>fmt.Sprintf("%v", claims["sub"])\<close>\<close>

definition claim_string :: "auth_env \<Rightarrow> (string, json) gomap \<Rightarrow> string \<Rightarrow> string" where
  "claim_string ev claims k =
     (case gm_get claims k of
        None \<Rightarrow> ''<nil>''
      | Some (JStr x) \<Rightarrow> x
      | Some j \<Rightarrow> ev_Sprint ev j)"

definition verifyJWT :: "auth_env \<Rightarrow> auth \<Rightarrow> string \<Rightarrow> user option" where
  "verifyJWT ev a tok =
     (if length (a_jwtSecret a) = 0 then None
      else case ev_jwt_Parse ev (\<lambda>hmac. if hmac then Some (a_jwtSecret a) else None) tok of
        None \<Rightarrow> None
      | Some claims \<Rightarrow>
          let t = (case gm_get claims ''tier'' of Some (JStr x) \<Rightarrow> x | _ \<Rightarrow> '''');
              tier = (if t = '''' then ''pro'' else t);
              sub = claim_string ev claims ''sub''
          in Some \<lparr>u_ID = ''jwt:'' @ sub, u_Key = ''jwt:'' @ sub, u_Name = sub, u_Tier = tier,
                   u_RateLimit = defaultRateForTier tier, u_CreatedAt = 0, u_LastSeenAt = 0,
                   u_RequestCount = 0, u_Disabled = False, u_ScanCount = 0, u_MonthReset = 0\<rparr>)"

definition VerifyToken :: "auth_env \<Rightarrow> auth \<Rightarrow> string \<Rightarrow> bool" where
  "VerifyToken ev a tok \<longleftrightarrow> verifyJWT ev a tok \<noteq> None"

definition or_else :: "'a option \<Rightarrow> 'a option \<Rightarrow> 'a option" where
  "or_else x y = (case x of None \<Rightarrow> y | Some _ \<Rightarrow> x)"

definition authenticate :: "auth_env \<Rightarrow> auth \<Rightarrow> request \<Rightarrow> user option" where
  "authenticate ev a r =
     (case a_store a of
        None \<Rightarrow> None
      | Some st \<Rightarrow>
          let k = header_Get r ''X-API-Key''; hdr = header_Get r ''Authorization''; q = query_Get r ''api_key'' in
          or_else (if k \<noteq> '''' then AuthenticateAPIKey k st else None)
         (or_else
            (if hdr \<noteq> '''' then
               (if HasPrefix hdr ''Bearer '' then
                  let tok = TrimSpace (TrimPrefix hdr ''Bearer '')
                  in or_else (AuthenticateAPIKey tok st) (verifyJWT ev a tok)
                else if HasPrefix hdr ''Basic '' then
                  (case decodeBasic (TrimPrefix hdr ''Basic '') of
                     Inl _ \<Rightarrow> None
                   | Inr (usr, pass) \<Rightarrow> AuthenticateAPIKey (hashKey (ev_sha ev) (''basic:'' @ usr @ '':'' @ pass)) st)
                else None)
             else None)
            (if q \<noteq> '''' then AuthenticateAPIKey q st else None)))"

section \<open>The middleware\<close>

definition is_public :: "string \<Rightarrow> bool" where
  "is_public path \<longleftrightarrow>
     path = ''/'' \<or> HasPrefix path ''/static/'' \<or> HasPrefix path ''/extension/'' \<or>
     path = ''/api/health'' \<or> path = ''/api/docs'' \<or> path = ''/api/docs/ui'' \<or>
     path = ''/api/fingerprints'' \<or> HasPrefix path ''/api/ws/''"

text \<open>What the middleware does with a request: hand it on without a user in the context
  (public paths), hand it on with the authenticated user or none, or answer it.\<close>

datatype verdict =
    Public
  | Forward "user option"
  | Reject response

definition unauthorized_msg :: string where
  "unauthorized_msg =
     ''{\"error\":\"missing or invalid credentials. Use X-API-Key header, Authorization: Bearer ***, or HTTP Basic\"}''"

definition Middleware ::
  "auth_env \<Rightarrow> time \<Rightarrow> time \<Rightarrow> request \<Rightarrow> auth \<Rightarrow> verdict \<times> metric_op list \<times> auth"
where
  "Middleware ev now now' r a =
     (if is_public (r_Path r) then (Public, [], a)
      else let usr = authenticate ev a r in
        if Enabled ev a \<and> usr = None then
          (Reject (http_Error
             (gm_put ''Www-Authenticate'' ''Bearer realm=\"stackly\", Basic realm=\"stackly\"''
                [(''Content-Type'', ''application/json'')]) unauthorized_msg StatusUnauthorized),
           [MInc ''AuthRequests'' [''anonymous'', detectAuthType r, ''fail'']], a)
        else let rate = (case usr of Some u \<Rightarrow> if 0 < u_RateLimit u then u_RateLimit u else a_defaultRate a | None \<Rightarrow> a_defaultRate a);
                 key = (case usr of Some u \<Rightarrow> ''user:'' @ u_Key u | None \<Rightarrow> clientIP ev r);
                 tier = (case usr of Some u \<Rightarrow> if u_Tier u = '''' then ''free'' else u_Tier u | None \<Rightarrow> ''anonymous'');
                 (ok, buckets) = (if 0 < rate then allow (a_window a) now key rate (a_anonBuckets a) else (True, a_anonBuckets a));
                 a' = a\<lparr>a_anonBuckets := buckets\<rparr> in
          if \<not> ok then
            (Reject (http_Error (gm_put ''Content-Type'' ''application/json'' [(''Retry-After'', ''60'')])
               ''{\"error\":\"rate limit exceeded\"}'' StatusTooManyRequests),
             [MInc ''AuthRequests'' [tier, detectAuthType r, ''rate_limited''], MInc ''AuthRateLimited'' [tier]], a')
          else (case usr of
             None \<Rightarrow> (Forward None, [], a')
           | Some u \<Rightarrow> (Forward (Some u), [MInc ''AuthRequests'' [tier, detectAuthType r, ''success'']],
                        a'\<lparr>a_store := map_option (RecordUsage now' (u_Key u)) (a_store a')\<rparr>)))"

definition Stats :: "auth \<Rightarrow> json" where
  "Stats a =
     (let users = (case a_store a of None \<Rightarrow> [] | Some st \<Rightarrow> AllUsers st) in
      JObj [(''auth_enabled'', JBool (a_enabled a)),
            (''users'', JNum (int (length users))),
            (''admin_users'', JNum (int (length (filter (\<lambda>u. u_Tier u = ''admin'') users)))),
            (''jwt_enabled'', JBool (0 < length (a_jwtSecret a))),
            (''active_buckets'', JNum (int (gm_len (a_anonBuckets a)))),
            (''window'', JStr (duration_String (a_window a)))])"


section \<open>What a request presents\<close>

text \<open>The store keys a request's credentials stand for: the header, the bearer token, the
  digest of the Basic pair, the query parameter.\<close>

definition presented :: "auth_env \<Rightarrow> request \<Rightarrow> string set" where
  "presented ev r =
     {k. k = header_Get r ''X-API-Key'' \<and> k \<noteq> ''''} \<union>
     {k. HasPrefix (header_Get r ''Authorization'') ''Bearer '' \<and>
         k = TrimSpace (TrimPrefix (header_Get r ''Authorization'') ''Bearer '')} \<union>
     {k. HasPrefix (header_Get r ''Authorization'') ''Basic '' \<and>
         (\<exists>usr pass. decodeBasic (TrimPrefix (header_Get r ''Authorization'') ''Basic '') = Inr (usr, pass) \<and>
            k = hashKey (ev_sha ev) (''basic:'' @ usr @ '':'' @ pass))} \<union>
     {k. k = query_Get r ''api_key'' \<and> k \<noteq> ''''}"

lemma or_else_Some [simp]: "or_else x y = Some u \<longleftrightarrow> x = Some u \<or> x = None \<and> y = Some u"
  by (cases x) (auto simp: or_else_def)

lemma AuthenticateAPIKey_Some [simp]:
  "AuthenticateAPIKey k st = Some u \<longleftrightarrow> gm_get (as_users st) k = Some u \<and> \<not> u_Disabled u"
  by (auto simp: AuthenticateAPIKey_def split: option.splits)

lemma authenticate_sound:
  assumes "authenticate ev a r = Some u"
  obtains (key) st k where "a_store a = Some st" "k \<in> presented ev r" "gm_get (as_users st) k = Some u" "\<not> u_Disabled u"
  | (jwt) tok where "HasPrefix (header_Get r ''Authorization'') ''Bearer ''"
      "tok = TrimSpace (TrimPrefix (header_Get r ''Authorization'') ''Bearer '')" "verifyJWT ev a tok = Some u"
proof -
  from assms obtain st where st: "a_store a = Some st" by (auto simp: authenticate_def split: option.splits)
  have "(\<exists>k \<in> presented ev r. gm_get (as_users st) k = Some u \<and> \<not> u_Disabled u) \<or>
      (HasPrefix (header_Get r ''Authorization'') ''Bearer '' \<and>
       verifyJWT ev a (TrimSpace (TrimPrefix (header_Get r ''Authorization'') ''Bearer '')) = Some u)"
    using assms st unfolding authenticate_def presented_def
    by (auto simp: Let_def split: if_splits sum.splits prod.splits)
  then show thesis using st key jwt by blast
qed

text \<open>The two ways a user is vouched for: an enabled entry of the store under a presented
  key, or a bearer token the JWT library accepts with the secret, for HMAC methods only. The
  user of a token is determined by its claims: the subject names it, the tier is the string
  claim \<^verbatim>\<open>tier\<close> when there is one that is not empty and \<^verbatim>\<open>pro\<close> otherwise, and the rate is that of
  the tier.\<close>

definition claimed_tier :: "(string, json) gomap \<Rightarrow> string \<Rightarrow> bool" where
  "claimed_tier claims tier \<longleftrightarrow>
     (tier \<noteq> '''' \<and> gm_get claims ''tier'' = Some (JStr tier)) \<or>
     (tier = ''pro'' \<and> \<not> (\<exists>t. t \<noteq> '''' \<and> gm_get claims ''tier'' = Some (JStr t)))"

definition store_user :: "auth_env \<Rightarrow> auth \<Rightarrow> request \<Rightarrow> user \<Rightarrow> bool" where
  "store_user ev a r u \<longleftrightarrow>
     (\<exists>st. a_store a = Some st \<and> (\<exists>k \<in> presented ev r. gm_get (as_users st) k = Some u \<and> \<not> u_Disabled u))"

definition jwt_user :: "auth_env \<Rightarrow> auth \<Rightarrow> request \<Rightarrow> user \<Rightarrow> bool" where
  "jwt_user ev a r u \<longleftrightarrow>
     a_jwtSecret a \<noteq> '''' \<and> HasPrefix (header_Get r ''Authorization'') ''Bearer '' \<and>
     (\<exists>claims. ev_jwt_Parse ev (\<lambda>hmac. if hmac then Some (a_jwtSecret a) else None)
                 (TrimSpace (TrimPrefix (header_Get r ''Authorization'') ''Bearer '')) = Some claims \<and>
        claimed_tier claims (u_Tier u) \<and>
        (let sub = claim_string ev claims ''sub'' in
         u = \<lparr>u_ID = ''jwt:'' @ sub, u_Key = ''jwt:'' @ sub, u_Name = sub, u_Tier = u_Tier u,
              u_RateLimit = defaultRateForTier (u_Tier u), u_CreatedAt = 0, u_LastSeenAt = 0,
              u_RequestCount = 0, u_Disabled = False, u_ScanCount = 0, u_MonthReset = 0\<rparr>))"

lemma verifyJWT_sound:
  assumes "HasPrefix (header_Get r ''Authorization'') ''Bearer ''"
    and "verifyJWT ev a (TrimSpace (TrimPrefix (header_Get r ''Authorization'') ''Bearer '')) = Some u"
  shows "jwt_user ev a r u"
  using assms by (auto simp: verifyJWT_def jwt_user_def claimed_tier_def Let_def split: if_splits option.splits json.splits)

section \<open>The middleware's decision\<close>

lemma Middleware_public: "is_public (r_Path r) \<Longrightarrow> Middleware ev now now' r a = (Public, [], a)"
  by (simp add: Middleware_def)

lemma Middleware_unauthenticated:
  "\<not> is_public (r_Path r) \<Longrightarrow> Enabled ev a \<Longrightarrow> authenticate ev a r = None \<Longrightarrow>
    \<exists>resp. Middleware ev now now' r a = (Reject resp, [MInc ''AuthRequests'' [''anonymous'', detectAuthType r, ''fail'']], a) \<and>
      rs_Status resp = 401"
  by (simp add: Middleware_def StatusUnauthorized_def)

text \<open>The rate and the bucket key of an authenticated request.\<close>

definition user_rate :: "auth \<Rightarrow> user \<Rightarrow> int" where
  "user_rate a u = (if 0 < u_RateLimit u then u_RateLimit u else a_defaultRate a)"

lemma Middleware_authenticated:
  assumes "\<not> is_public (r_Path r)" "authenticate ev a r = Some u" "0 < user_rate a u"
    and "allow (a_window a) now (''user:'' @ u_Key u) (user_rate a u) (a_anonBuckets a) = (ok, bs)"
  shows "if ok then fst (Middleware ev now now' r a) = Forward (Some u)
     else \<exists>resp. fst (Middleware ev now now' r a) = Reject resp \<and> rs_Status resp = 429"
    and "a_anonBuckets (snd (snd (Middleware ev now now' r a))) = bs"
  using assms by (simp_all add: Middleware_def Let_def StatusTooManyRequests_def user_rate_def)

lemma Middleware_store:
  "a_store (snd (snd (Middleware ev now now' r a))) =
     (case fst (Middleware ev now now' r a) of
        Forward (Some u) \<Rightarrow> map_option (RecordUsage now' (u_Key u)) (a_store a)
      | _ \<Rightarrow> a_store a)"
  unfolding Middleware_def by (simp add: Let_def split: prod.splits option.splits)

lemma Middleware_forward:
  "fst (Middleware ev now now' r a) = Forward usr \<Longrightarrow> \<not> is_public (r_Path r) \<and> authenticate ev a r = usr"
  unfolding Middleware_def by (auto simp: Let_def split: prod.splits option.splits if_splits)


section \<open>Basic users of the environment\<close>

lemma boot_basic_adds:
  assumes "raw = usr @ '':'' @ pass" "CHR '':'' \<notin> set usr" "TrimSpace raw = raw" "TrimSpace usr = usr" "TrimSpace pass = pass"
  shows "\<exists>u. gm_get (fst (boot_basic_entry sha clock now st raw)) (hashKey sha (''basic:'' @ raw)) = Some u"
  using assms SplitN2_two [of "CHR '':''" usr pass]
  by (cases "gm_get (fst st) (hashKey sha (''basic:'' @ raw))")
     (auto simp: boot_basic_entry_def Let_def split_def gm.get_put)

lemma foldl_reaches:
  assumes "x \<in> set xs" "\<And>st. P (f st x)" "\<And>st y. P st \<Longrightarrow> P (f st y)"
  shows "P (foldl f st xs)"
proof -
  obtain ys zs where "xs = ys @ x # zs" using assms(1) by (meson split_list)
  then show ?thesis using foldl_keeps [of P f "f (foldl f st ys) x" zs] assms(2,3) by simp
qed

definition all_enabled :: "(string, user) gomap \<Rightarrow> bool" where
  "all_enabled m \<longleftrightarrow> (\<forall>k u. gm_get m k = Some u \<longrightarrow> \<not> u_Disabled u)"

lemma all_enabled_empty: "all_enabled []"
  by (simp add: all_enabled_def gm_get_def)

lemma bootstrap_enabled:
  assumes "all_enabled users"
  shows "all_enabled (bootstrapFromEnv sha clock now ks bs users)"
proof -
  let ?P = "\<lambda>st :: (string, user) gomap \<times> nat. all_enabled (fst st)"
  have api: "?P (boot_api_entry sha clock now st raw)" if "?P st" for st raw
    using that by (auto simp: boot_api_entry_def Let_def split_def all_enabled_def gm.get_put fresh_user_def)
  have basic: "?P (boot_basic_entry sha clock now st raw)" if "?P st" for st raw
    using that by (auto simp: boot_basic_entry_def Let_def split_def all_enabled_def gm.get_put fresh_user_def)
  have "?P (foldl (boot_api_entry sha clock now) (users, 0) xs)" for xs
    by (rule foldl_keeps [where P = ?P, OF api]) (use assms in simp_all)
  moreover have "?P (foldl (boot_basic_entry sha clock now) st xs)" if "?P st" for st xs
    by (rule foldl_keeps [where P = ?P, OF basic]) (use that in simp_all)
  ultimately show ?thesis using assms by (simp add: bootstrapFromEnv_def Let_def)
qed

lemma bootstrap_has_basic:
  assumes "raw \<in> set (Split bs (CHR '',''))" "bs \<noteq> ''''"
    and "raw = usr @ '':'' @ pass" "CHR '':'' \<notin> set usr" "TrimSpace raw = raw" "TrimSpace usr = usr" "TrimSpace pass = pass"
  shows "\<exists>u. gm_get (bootstrapFromEnv sha clock now ks bs users) (hashKey sha (''basic:'' @ raw)) = Some u"
proof -
  let ?P = "\<lambda>st :: (string, user) gomap \<times> nat. \<exists>u. gm_get (fst st) (hashKey sha (''basic:'' @ raw)) = Some u"
  have "?P (foldl (boot_basic_entry sha clock now) st (Split bs (CHR '','')))" for st
    by (rule foldl_reaches [where P = ?P, OF assms(1)])
       (use boot_basic_adds [OF assms(3-7)] boot_basic_keeps in blast)+
  then show ?thesis using assms(2) by (simp add: bootstrapFromEnv_def Let_def)
qed

lemma decodeBasic_encode:
  "CHR '':'' \<notin> set usr \<Longrightarrow> decodeBasic (b64_encode (usr @ '':'' @ pass)) = Inr (usr, pass)"
  using SplitN2_two [of "CHR '':''" usr pass] by (simp add: decodeBasic_def base64Decode_def b64_decode_encode)

lemma Middleware_verdict:
  assumes "Enabled ev a" "\<not> is_public (r_Path r)"
  shows "case fst (Middleware ev now now' r a) of
      Public \<Rightarrow> False
    | Reject resp \<Rightarrow> (authenticate ev a r = None \<and> rs_Status resp = 401) \<or> (authenticate ev a r \<noteq> None \<and> rs_Status resp = 429)
    | Forward None \<Rightarrow> False
    | Forward (Some u) \<Rightarrow> store_user ev a r u \<or> jwt_user ev a r u"
proof (cases "authenticate ev a r")
  case None
  then show ?thesis using Middleware_unauthenticated [OF assms(2,1) None, of now now'] by auto
next
  case (Some u)
  have v: "fst (Middleware ev now now' r a) = Forward (Some u) \<or>
      (\<exists>resp. fst (Middleware ev now now' r a) = Reject resp \<and> rs_Status resp = 429)"
    using Some assms by (simp add: Middleware_def Let_def StatusTooManyRequests_def split: prod.splits)
  have "store_user ev a r u \<or> jwt_user ev a r u"
    using Some by (rule authenticate_sound) (auto simp: store_user_def verifyJWT_sound)
  then show ?thesis using v
  proof (elim disjE [of "fst _ = _"] exE conjE)
    fix resp assume "fst (Middleware ev now now' r a) = Reject resp" "rs_Status resp = 429"
    then show ?thesis using Some by simp
  qed simp
qed

lemma Middleware_guards:
  assumes "Enabled ev a" "\<not> is_public (r_Path r)"
  shows "(\<exists>u. fst (Middleware ev now now' r a) = Forward (Some u) \<and> (store_user ev a r u \<or> jwt_user ev a r u)) \<or>
    (\<exists>q. fst (Middleware ev now now' r a) = Reject q \<and> (rs_Status q = 401 \<or> rs_Status q = 429))"
  using Middleware_verdict [OF assms, of now now'] by (auto split: verdict.splits option.splits)

section \<open>Properties\<close>

text \<open>C2: Only requests with credentials get past the middleware. While authentication is
  enabled, a request for a path outside the public list that the middleware hands on
  carries a user, and that user is either an enabled entry of the store under a key the
  request presented, or was synthesised from a bearer token that the JWT library accepted
  with the configured secret under an HMAC method. Every other request for such a path is
  answered (401 without credentials, 429 over the rate limit).\<close>

theorem protected_paths_need_credentials:
  assumes "Enabled ev a" "\<not> is_public (r_Path r)"
  shows "case fst (Middleware ev now now' r a) of
      Public \<Rightarrow> False
    | Reject resp \<Rightarrow> (authenticate ev a r = None \<and> rs_Status resp = 401) \<or> (authenticate ev a r \<noteq> None \<and> rs_Status resp = 429)
    | Forward None \<Rightarrow> False
    | Forward (Some u) \<Rightarrow> store_user ev a r u \<or> jwt_user ev a r u"
  by (rule Middleware_verdict [OF assms])

definition demo_env :: auth_env where
  "demo_env = \<lparr>ev_sha = (\<lambda>s. s), ev_jwt_Parse = (\<lambda>kf tok. None), ev_Sprint = (\<lambda>j. ''''), ev_NO_AUTH = '''',
     ev_ParseIP = Some, ev_SplitHost = Some\<rparr>"

definition demo_request :: "string \<Rightarrow> (string, string) gomap \<Rightarrow> request" where
  "demo_request path hs = \<lparr>r_Method = ''GET'', r_Path = path, r_Header = hs, r_Query = [], r_RemoteAddr = ''10.0.0.1'',
     r_Host = ''stackly'', r_TLS = False\<rparr>"

definition demo_auth :: auth where
  "demo_auth = auth_New \<lparr>as_path = ''users.json'', as_users = [(''k1'', fresh_user ''id'' ''k1'' ''k1'' ''free'' 1)],
     as_dirty = False, as_stopped = False\<rparr> ''''"

lemma demo_auth_enabled: "Enabled demo_env demo_auth"
  by (simp add: Enabled_def demo_env_def demo_auth_def auth_New_def AllUsers_def)

theorem protected_paths_need_credentials_witness:
  "Enabled demo_env demo_auth \<and> \<not> is_public ''/api/scan'' \<and>
   (case fst (Middleware demo_env 0 0 (demo_request ''/api/scan'' [(''X-API-Key'', ''k1'')]) demo_auth) of
      Forward (Some u) \<Rightarrow> store_user demo_env demo_auth (demo_request ''/api/scan'' [(''X-API-Key'', ''k1'')]) u
    | _ \<Rightarrow> False)"
proof -
  let ?r = "demo_request ''/api/scan'' [(''X-API-Key'', ''k1'')]"
  have np: "\<not> is_public (r_Path ?r)" "\<not> is_public ''/api/scan''" by (simp_all add: demo_request_def is_public_def HasPrefix_def)
  have no_jwt: "\<not> jwt_user demo_env demo_auth ?r u" for u
    by (simp add: jwt_user_def demo_auth_def auth_New_def)
  have "authenticate demo_env demo_auth ?r = Some (fresh_user ''id'' ''k1'' ''k1'' ''free'' 1)"
    by (simp add: authenticate_def demo_auth_def auth_New_def demo_request_def header_Get_def gm_get_def
        AuthenticateAPIKey_def fresh_user_def or_else_def query_Get_def Let_def)
  then have "fst (Middleware demo_env 0 0 ?r demo_auth) = Forward (Some (fresh_user ''id'' ''k1'' ''k1'' ''free'' 1))"
    using np(1) by (simp add: Middleware_def allow_def demo_auth_def auth_New_def fresh_user_def defaultRateForTier_def
        ToLower_def to_lower_char_def gm_get_def Let_def)
  then show ?thesis
    using protected_paths_need_credentials [OF demo_auth_enabled np(1), of 0 0] no_jwt np(2) demo_auth_enabled by simp
qed

text \<open>C33: HTTP Basic round trip. A server started without a users file and with an entry
  \<open>user:password\<close> in \<^verbatim>\<open>STACKLY_BASIC_USERS\<close> authenticates a request that carries the
  Base64 encoding of that pair in its \<^verbatim>\<open>Authorization\<close> header, for every list of API keys
  and every digest function.\<close>

theorem basic_user_authenticates:
  assumes "NewStore (ev_sha ev) clock now decode ks bs path None = Inr st"
    and "usr @ '':'' @ pass \<in> set (Split bs (CHR '',''))" "CHR '':'' \<notin> set usr"
    and "TrimSpace (usr @ '':'' @ pass) = usr @ '':'' @ pass" "TrimSpace usr = usr" "TrimSpace pass = pass"
    and "header_Get r ''X-API-Key'' = ''''" "header_Get r ''Authorization'' = ''Basic '' @ b64_encode (usr @ '':'' @ pass)"
  shows "\<exists>u. authenticate ev (auth_New st secret) r = Some u \<and>
     u_Key u = hashKey (ev_sha ev) (''basic:'' @ usr @ '':'' @ pass)"
proof -
  let ?k = "hashKey (ev_sha ev) (''basic:'' @ usr @ '':'' @ pass)"
  have st: "as_users st = bootstrapFromEnv (ev_sha ev) clock now ks bs []"
    using assms(1) by (simp add: NewStore_def Let_def) (metis auth_store.select_convs(2))
  have "bs \<noteq> ''''" using assms(2) by auto
  then obtain u where u: "gm_get (as_users st) ?k = Some u"
    using bootstrap_has_basic [OF assms(2) _ refl assms(3-6)] st by metis
  moreover have "\<not> u_Disabled u"
    using u bootstrap_enabled [OF all_enabled_empty] st unfolding all_enabled_def by metis
  moreover have "u_Key u = ?k"
    using u NewStore_ok [OF assms(1)] users_ok_get by blast
  moreover have "header_Get r ''Authorization'' \<noteq> ''''" "\<not> HasPrefix (header_Get r ''Authorization'') ''Bearer ''"
    "HasPrefix (header_Get r ''Authorization'') ''Basic ''"
    using assms(8) by (simp_all add: HasPrefix_def)
  moreover have "decodeBasic (TrimPrefix (header_Get r ''Authorization'') ''Basic '') = Inr (usr, pass)"
    using decodeBasic_encode [OF assms(3), of pass] assms(8) TrimPrefix_append [of "''Basic ''"] by simp
  ultimately show ?thesis
    using assms(7) by (simp add: authenticate_def auth_New_def Let_def or_else_def AuthenticateAPIKey_def)
qed

theorem basic_user_authenticates_witness:
  "\<exists>st u. NewStore (ev_sha demo_env) (\<lambda>n. 1) 1 (\<lambda>d. None) ''k1:pro'' ''al:pw,bo:x'' ''users.json'' None = Inr st \<and>
     authenticate demo_env (auth_New st '''') (demo_request ''/api/scan'' [(''Authorization'', ''Basic Ym86eA=='')]) = Some u \<and>
     u_Key u = ''basic:bo:x''"
proof -
  obtain st where st: "NewStore (ev_sha demo_env) (\<lambda>n. 1) 1 (\<lambda>d. None) ''k1:pro'' ''al:pw,bo:x'' ''users.json'' None = Inr st"
    by (simp add: NewStore_def Let_def)
  let ?r = "demo_request ''/api/scan'' [(''Authorization'', ''Basic Ym86eA=='')]"
  have "b64_encode (''bo'' @ '':'' @ ''x'') = ''Ym86eA==''" by code_simp
  then have "header_Get ?r ''Authorization'' = ''Basic '' @ b64_encode (''bo'' @ '':'' @ ''x'')"
    by (simp add: demo_request_def header_Get_def gm_get_def)
  moreover have "header_Get ?r ''X-API-Key'' = ''''" by (simp add: demo_request_def header_Get_def gm_get_def)
  moreover have "''bo'' @ '':'' @ ''x'' \<in> set (Split ''al:pw,bo:x'' (CHR '',''))" by simp
  moreover have "TrimSpace (''bo'' @ '':'' @ ''x'') = ''bo'' @ '':'' @ ''x''" "TrimSpace ''bo'' = ''bo''" "TrimSpace ''x'' = ''x''"
    by (simp_all add: TrimSpace_def TrimRightFunc_def isSpace_def)
  ultimately obtain u where "authenticate demo_env (auth_New st '''') ?r = Some u"
    "u_Key u = hashKey (ev_sha demo_env) (''basic:'' @ ''bo'' @ '':'' @ ''x'')"
    using basic_user_authenticates [OF st, of "''bo''" "''x''" ?r "''''"] by auto
  then show ?thesis using st by (auto simp: hashKey_def demo_env_def)
qed

text \<open>Usage accounting. The request counter of a stored user goes up by one exactly when
  the middleware hands on a request authenticated as that user, and stays as it is for
  public paths, rejected requests and requests of other users; no other key appears in or
  disappears from the store.\<close>

theorem middleware_counts_usage:
  assumes "a_store a = Some st"
  shows "\<exists>st'. a_store (snd (snd (Middleware ev now now' r a))) = Some st' \<and>
     (\<forall>k. map_option u_RequestCount (gm_get (as_users st') k) =
        map_option (\<lambda>v. if \<exists>u. fst (Middleware ev now now' r a) = Forward (Some u) \<and> u_Key u = k
                        then wrap64 (u_RequestCount v + 1) else u_RequestCount v) (gm_get (as_users st) k))"
proof -
  have cnt: "map_option u_RequestCount (gm_get (as_users (RecordUsage now' key st)) k) =
      map_option (\<lambda>v. if key = k then wrap64 (u_RequestCount v + 1) else u_RequestCount v) (gm_get (as_users st) k)" for key k
    by (cases "key = k") (auto simp: RecordUsage_def gm.get_put split: option.splits)
  then show ?thesis
    using assms unfolding Middleware_store by (auto split: verdict.splits option.splits)
qed


theorem middleware_counts_usage_witness:
  "\<exists>st st'. a_store demo_auth = Some st \<and>
     a_store (snd (snd (Middleware demo_env 0 0 (demo_request ''/api/scan'' [(''X-API-Key'', ''k1'')]) demo_auth))) = Some st' \<and>
     map_option u_RequestCount (gm_get (as_users st') ''k1'') = Some 1"
proof -
  let ?r = "demo_request ''/api/scan'' [(''X-API-Key'', ''k1'')]"
  let ?u = "fresh_user ''id'' ''k1'' ''k1'' ''free'' 1"
  obtain st where st: "a_store demo_auth = Some st" and k1: "gm_get (as_users st) ''k1'' = Some ?u"
    by (simp add: demo_auth_def auth_New_def gm_get_def)
  have auth: "authenticate demo_env demo_auth ?r = Some ?u"
    using st k1 by (simp add: authenticate_def demo_request_def header_Get_def gm_get_def
        AuthenticateAPIKey_def fresh_user_def or_else_def query_Get_def Let_def)
  have np: "\<not> is_public (r_Path ?r)" by (simp add: demo_request_def is_public_def HasPrefix_def)
  have fw: "fst (Middleware demo_env 0 0 ?r demo_auth) = Forward (Some ?u)"
    using np auth by (simp add: Middleware_def allow_def demo_auth_def auth_New_def fresh_user_def defaultRateForTier_def
        ToLower_def to_lower_char_def gm_get_def Let_def)
  obtain st' where st': "a_store (snd (snd (Middleware demo_env 0 0 ?r demo_auth))) = Some st'"
    and ct: "map_option u_RequestCount (gm_get (as_users st') ''k1'') =
        map_option (\<lambda>v. if \<exists>u. fst (Middleware demo_env 0 0 ?r demo_auth) = Forward (Some u) \<and> u_Key u = ''k1''
                        then wrap64 (u_RequestCount v + 1) else u_RequestCount v) (gm_get (as_users st) ''k1'')"
    using middleware_counts_usage [OF st, of demo_env 0 0 ?r] by blast
  have "map_option u_RequestCount (gm_get (as_users st') ''k1'') = Some 1"
    unfolding ct k1 fw by (simp add: fresh_user_def wrap64_def)
  then show ?thesis using st st' by blast
qed

end
