(* ===== verification/Go_Format.thy ===== *)
theory Go_Format
  imports Go_Time Go_Strings
begin

text \<open>
  \<^verbatim>\<open>t.UTC().Format(time.RFC3339)\<close> for the years 0 to 9999, and rounding of durations:
  \<^verbatim>\<open>d.Round(m)\<close> rounds half away from zero.
\<close>

definition format_RFC3339 :: "time \<Rightarrow> string" where
  "format_RFC3339 t =
     (let (y, yd) = year_yday (local_day 0 t); m = month_of_yday y yd; d = yd - days_before_month y m + 1;
          s = (t mod day_ns) div second in
      frac_digits 4 y @ ''-'' @ frac_digits 2 m @ ''-'' @ frac_digits 2 d @ ''T'' @
      frac_digits 2 (s div 3600) @ '':'' @ frac_digits 2 (s div 60 mod 60) @ '':'' @
      frac_digits 2 (s mod 60) @ ''Z'')"

definition duration_Round :: "duration \<Rightarrow> duration \<Rightarrow> duration" where
  "duration_Round d m =
     (if m \<le> 0 then d
      else let r = \<bar>d\<bar> mod m; a = (if 2 * r < m then \<bar>d\<bar> - r else \<bar>d\<bar> + (m - r))
           in if d < 0 then - a else a)"

lemma duration_Round_near: "0 < m \<Longrightarrow> 2 * \<bar>duration_Round d m - d\<bar> \<le> m"
proof -
  assume m: "0 < m"
  define r where "r = \<bar>d\<bar> mod m"
  have "0 \<le> r" "r < m" using m by (simp_all add: r_def)
  then show ?thesis unfolding duration_Round_def r_def [symmetric] Let_def using m by (simp add: abs_if)
qed

lemma frac_digits_length [simp]: "length (frac_digits n v) = n"
  by (induction n arbitrary: v) auto

lemma format_RFC3339_length: "length (format_RFC3339 t) = 20"
  by (simp add: format_RFC3339_def Let_def split: prod.splits)

end
