(* ===== verification/Hub.thy ===== *)
theory Hub
  imports Bounded_Log Go_Map Go_Format Http
begin

text \<open>
  The publish/subscribe hub of \<^verbatim>\<open>internal/ws/hub.go\<close> and its WebSocket endpoint
  (\<^verbatim>\<open>internal/ws/handler.go\<close>). A \<^verbatim>\<open>*Subscriber\<close> is an index into the list of all
  subscribers ever made; its channel \<^verbatim>\<open>Send\<close> is the list of buffered events, with capacity
  32. A send on a closed channel panics, so \<open>deliver\<close> and \<open>Publish\<close> return an option.
  \<open>Publish\<close> and \<open>Unsubscribe\<close> each release the hub's mutex half way: \<open>hub_step\<close>
  interleaves their halves.
\<close>

record detected_tech =
  dt_Slug :: string
  dt_Name :: string
  dt_Category :: string
  dt_Confidence :: int

record event =
  e_Type :: string
  e_JobID :: string
  e_Status :: string
  e_Progress :: int
  e_Message :: string
  e_Techs :: "detected_tech list"
  e_Error :: string
  e_TS :: string

record subscriber =
  sb_JobID :: string
  sb_Send :: "event list"
  sb_closed :: bool

record hub =
  h_subscribers :: "(string, addr list) gomap"
  h_replay :: "(string, event list) gomap"
  h_replaySize :: nat
  h_subs :: "subscriber list"

definition NewHub :: hub where
  "NewHub = \<lparr>h_subscribers = [], h_replay = [], h_replaySize = 32, h_subs = []\<rparr>"

text \<open>The non-blocking send \<^verbatim>\<open>select { case ch <- ev: default: }\<close> on an open channel.\<close>

definition chan_cap :: nat where
  "chan_cap = 32"

definition chan_offer :: "event list \<Rightarrow> event \<Rightarrow> event list" where
  "chan_offer q ev = (if length q < chan_cap then q @ [ev] else q)"

definition map_slice :: "(string, 'a list) gomap \<Rightarrow> string \<Rightarrow> 'a list" where
  "map_slice m k = (case gm_get m k of Some xs \<Rightarrow> xs | None \<Rightarrow> [])"

definition Subscribe :: "string \<Rightarrow> bool \<Rightarrow> hub \<Rightarrow> addr \<times> hub" where
  "Subscribe jobID replay h =
     (let a = length (h_subs h);
          q = (if replay then foldl chan_offer [] (map_slice (h_replay h) jobID) else [])
      in (a, h\<lparr>h_subscribers := gm_put jobID (map_slice (h_subscribers h) jobID @ [a]) (h_subscribers h),
               h_subs := h_subs h @ [\<lparr>sb_JobID = jobID, sb_Send = q, sb_closed = False\<rparr>]\<rparr>))"

definition closeOnce :: "addr \<Rightarrow> hub \<Rightarrow> hub" where
  "closeOnce a h = h\<lparr>h_subs := (h_subs h)[a := (h_subs h ! a)\<lparr>sb_closed := True\<rparr>]\<rparr>"

definition unsubscribe_locked :: "addr \<Rightarrow> hub \<Rightarrow> hub" where
  "unsubscribe_locked a h =
     (let j = sb_JobID (h_subs h ! a) in
      case gm_get (h_subscribers h) j of
        None \<Rightarrow> h
      | Some subs \<Rightarrow>
          let subs' = remove1 a subs in
          if length subs' = 0
          then h\<lparr>h_subscribers := gm_del j (h_subscribers h), h_replay := gm_del j (h_replay h)\<rparr>
          else h\<lparr>h_subscribers := gm_put j subs' (h_subscribers h)\<rparr>)"

definition Unsubscribe :: "addr \<Rightarrow> hub \<Rightarrow> hub" where
  "Unsubscribe a h = closeOnce a (unsubscribe_locked a h)"

definition replay_push :: "nat \<Rightarrow> event list \<Rightarrow> event \<Rightarrow> event list" where
  "replay_push n buf ev =
     (let buf' = buf @ [ev] in if length buf' > n then drop (length buf' - n) buf' else buf')"

definition stamp :: "time \<Rightarrow> string \<Rightarrow> event \<Rightarrow> event" where
  "stamp now jobID ev =
     (let ev' = ev\<lparr>e_JobID := jobID\<rparr> in if e_TS ev' = '''' then ev'\<lparr>e_TS := format_RFC3339 now\<rparr> else ev')"

definition publish_locked :: "time \<Rightarrow> string \<Rightarrow> event \<Rightarrow> hub \<Rightarrow> event \<times> addr list \<times> hub" where
  "publish_locked now jobID ev h =
     (let ev' = stamp now jobID ev
      in (ev', map_slice (h_subscribers h) jobID,
          h\<lparr>h_replay := gm_put jobID (replay_push (h_replaySize h) (map_slice (h_replay h) jobID) ev') (h_replay h)\<rparr>))"

definition deliver :: "event \<Rightarrow> addr \<Rightarrow> hub \<Rightarrow> hub option" where
  "deliver ev a h =
     (let s = h_subs h ! a in
      if sb_closed s then None
      else Some (h\<lparr>h_subs := (h_subs h)[a := s\<lparr>sb_Send := chan_offer (sb_Send s) ev\<rparr>]\<rparr>))"

fun deliver_all :: "event \<Rightarrow> addr list \<Rightarrow> hub \<Rightarrow> hub option" where
  "deliver_all ev [] h = Some h"
| "deliver_all ev (a # as) h = Option.bind (deliver ev a h) (deliver_all ev as)"

definition Publish :: "time \<Rightarrow> string \<Rightarrow> event \<Rightarrow> hub \<Rightarrow> hub option" where
  "Publish now jobID ev h =
     (let (ev', recipients, h') = publish_locked now jobID ev h in deliver_all ev' recipients h')"

definition SubscriberCount :: "string \<Rightarrow> hub \<Rightarrow> nat" where
  "SubscriberCount jobID h = length (map_slice (h_subscribers h) jobID)"

section \<open>The endpoint\<close>

definition AuthSubprotocol :: string where
  "AuthSubprotocol = ''stackly-auth-v1''"

fun proto_token :: "string list \<Rightarrow> string option" where
  "proto_token [] = None"
| "proto_token (raw # ps) =
     (let p = TrimSpace raw in
      if p = AuthSubprotocol then proto_token ps
      else if HasPrefix p (AuthSubprotocol @ '' '') then Some (TrimSpace (drop (length AuthSubprotocol + 1) p))
      else if p \<noteq> '''' then Some p
      else proto_token ps)"

definition extractWSToken :: "request \<Rightarrow> string" where
  "extractWSToken r =
     (let proto = header_Get r ''Sec-Websocket-Protocol'' in
      case (if proto \<noteq> '''' then proto_token (Split proto (CHR '','')) else None) of
        Some t \<Rightarrow> t
      | None \<Rightarrow> query_Get r ''token'')"

datatype ws_result = WsReject response | WsUpgradeFailed | WsStream addr

text \<open>\<open>authenticator\<close> is the optional \<^verbatim>\<open>TokenAuthenticator\<close> and \<open>upgrade\<close> says whether
  the handshake of the WebSocket library succeeded. The handler then streams (\<open>pump\<close>).\<close>

definition HandleScanWS :: "(string \<Rightarrow> bool) option \<Rightarrow> bool \<Rightarrow> request \<Rightarrow> hub \<Rightarrow> ws_result \<times> hub" where
  "HandleScanWS authenticator upgrade r h =
     (let jobID = TrimPrefix (r_Path r) ''/api/ws/scan/'' in
      if jobID = '''' \<or> Contains jobID ''/'' \<or> Contains jobID ''..''
      then (WsReject (http_Error [] ''{\"error\":\"invalid job id\"}'' StatusBadRequest), h)
      else if (case authenticator of
                 None \<Rightarrow> False
               | Some ok \<Rightarrow> let token = extractWSToken r in token = '''' \<or> \<not> ok token)
      then (WsReject (http_Error []
              ''{\"error\":\"missing or invalid token (use Sec-WebSocket-Protocol: stackly-auth-v1, <token> or ?token=)\"}''
              StatusUnauthorized), h)
      else if \<not> upgrade then (WsUpgradeFailed, h)
      else let (sub, h') = Subscribe jobID True h in (WsStream sub, h'))"

text \<open>One round of the writer pump: which case of the \<^verbatim>\<open>select\<close> fires, and whether the write
  it makes succeeds. The result says whether the loop goes on and what was written.\<close>

datatype pump_case = ClientGone | IdleTimeout | PingTick bool | SendReady bool

definition pump_round :: "addr \<Rightarrow> pump_case \<Rightarrow> hub \<Rightarrow> bool \<times> event list \<times> hub" where
  "pump_round a c h =
     (case c of
        ClientGone \<Rightarrow> (False, [], h)
      | IdleTimeout \<Rightarrow> (False, [], h)
      | PingTick ok \<Rightarrow> (ok, [], h)
      | SendReady ok \<Rightarrow>
          (case sb_Send (h_subs h ! a) of
             [] \<Rightarrow> (\<not> sb_closed (h_subs h ! a), [], h)
           | ev # q \<Rightarrow>
               let h' = h\<lparr>h_subs := (h_subs h)[a := (h_subs h ! a)\<lparr>sb_Send := q\<rparr>]\<rparr> in
               if \<not> ok then (False, [], h')
               else (\<not> (e_Type ev = ''completed'' \<or> e_Type ev = ''failed''), [ev], h')))"

text \<open>The loop with its deferred clean-up, for a sequence of cases; the flag tells whether it
  has returned.\<close>

fun pump :: "addr \<Rightarrow> pump_case list \<Rightarrow> hub \<Rightarrow> bool \<times> event list \<times> hub" where
  "pump a [] h = (False, [], h)"
| "pump a (c # cs) h =
     (let (go, out, h') = pump_round a c h in
      if go then (let (fin, outs, h'') = pump a cs h' in (fin, out @ outs, h''))
      else (True, out, Unsubscribe a h'))"

section \<open>Interleavings\<close>

record hub_world =
  w_hub :: hub
  w_pubs :: "(event \<times> addr list) list"
  w_closing :: "addr list"
  w_panic :: bool

definition hub_init :: hub_world where
  "hub_init = \<lparr>w_hub = NewHub, w_pubs = [], w_closing = [], w_panic = False\<rparr>"

text \<open>Publishers between their two halves are in \<open>w_pubs\<close> with the recipients that remain,
  unsubscribers that still have to close the channel in \<open>w_closing\<close>. A panic ends the
  process.\<close>

inductive hub_step :: "hub_world \<Rightarrow> hub_world \<Rightarrow> bool" where
  hs_subscribe: "\<not> w_panic w \<Longrightarrow> hub_step w (w\<lparr>w_hub := snd (Subscribe j replay (w_hub w))\<rparr>)"
| hs_unsubscribe: "\<not> w_panic w \<Longrightarrow> a < length (h_subs (w_hub w)) \<Longrightarrow>
    hub_step w (w\<lparr>w_hub := unsubscribe_locked a (w_hub w), w_closing := a # w_closing w\<rparr>)"
| hs_close: "\<not> w_panic w \<Longrightarrow> w_closing w = xs @ a # ys \<Longrightarrow>
    hub_step w (w\<lparr>w_hub := closeOnce a (w_hub w), w_closing := xs @ ys\<rparr>)"
| hs_publish: "\<not> w_panic w \<Longrightarrow> publish_locked now j ev (w_hub w) = (ev', rs, h') \<Longrightarrow> mset rs' = mset rs \<Longrightarrow>
    hub_step w (w\<lparr>w_hub := h', w_pubs := w_pubs w @ [(ev', rs')]\<rparr>)"
| hs_deliver: "\<not> w_panic w \<Longrightarrow> w_pubs w = xs @ (ev, a # rs) # ys \<Longrightarrow> deliver ev a (w_hub w) = Some h' \<Longrightarrow>
    hub_step w (w\<lparr>w_hub := h', w_pubs := xs @ (ev, rs) # ys\<rparr>)"
| hs_panic: "\<not> w_panic w \<Longrightarrow> w_pubs w = xs @ (ev, a # rs) # ys \<Longrightarrow> deliver ev a (w_hub w) = None \<Longrightarrow>
    hub_step w (w\<lparr>w_panic := True\<rparr>)"
| hs_receive: "\<not> w_panic w \<Longrightarrow> a < length (h_subs (w_hub w)) \<Longrightarrow>
    hub_step w (w\<lparr>w_hub := snd (snd (pump_round a (SendReady ok) (w_hub w)))\<rparr>)"

inductive_cases hub_stepE: "hub_step w w'"


section \<open>Invariant\<close>

definition sub_ok :: "subscriber \<Rightarrow> bool" where
  "sub_ok s \<longleftrightarrow> length (sb_Send s) \<le> chan_cap \<and> (\<forall>e \<in> set (sb_Send s). e_JobID e = sb_JobID s)"

definition addrs_ok :: "subscriber list \<Rightarrow> string \<Rightarrow> addr list \<Rightarrow> bool" where
  "addrs_ok subs j as \<longleftrightarrow> (\<forall>a \<in> set as. a < length subs \<and> sb_JobID (subs ! a) = j)"

definition registry_ok :: "subscriber list \<Rightarrow> (string, addr list) gomap \<Rightarrow> bool" where
  "registry_ok subs m \<longleftrightarrow> (\<forall>j. addrs_ok subs j (map_slice m j))"

definition replay_ok :: "(string, event list) gomap \<Rightarrow> bool" where
  "replay_ok m \<longleftrightarrow> (\<forall>j. length (map_slice m j) \<le> 32 \<and> (\<forall>e \<in> set (map_slice m j). e_JobID e = j))"

definition hub_inv :: "hub \<Rightarrow> bool" where
  "hub_inv h \<longleftrightarrow> h_replaySize h = 32 \<and> registry_ok (h_subs h) (h_subscribers h) \<and> replay_ok (h_replay h) \<and>
     (\<forall>s \<in> set (h_subs h). sub_ok s)"

definition inflight_ok :: "subscriber list \<Rightarrow> (event \<times> addr list) list \<Rightarrow> addr list \<Rightarrow> bool" where
  "inflight_ok subs pubs closing \<longleftrightarrow>
     (\<forall>(ev, rs) \<in> set pubs. addrs_ok subs (e_JobID ev) rs) \<and> (\<forall>a \<in> set closing. a < length subs)"

definition world_inv :: "hub_world \<Rightarrow> bool" where
  "world_inv w \<longleftrightarrow> hub_inv (w_hub w) \<and> inflight_ok (h_subs (w_hub w)) (w_pubs w) (w_closing w)"

interpretation replay_log: bounded_log 32 "replay_push 32"
  by unfold_locales (auto simp: replay_push_def Let_def suffix_drop)

lemma slice_put: "map_slice (gm_put k v m) k' = (if k' = k then v else map_slice m k')"
  by (simp add: map_slice_def gm.get_put)

lemma slice_del: "map_slice (gm_del k m) k' = (if k' = k then [] else map_slice m k')"
  by (simp add: map_slice_def gm.get_del)

lemma slice_empty [simp]: "map_slice [] k = []"
  by (simp add: map_slice_def gm_get_def)

lemmas slice_laws = slice_put slice_del

lemma stamp_job [simp]: "e_JobID (stamp now j ev) = j"
  by (simp add: stamp_def Let_def)

lemma offer_bounded: "length q \<le> chan_cap \<Longrightarrow> length (chan_offer q ev) \<le> chan_cap"
  by (simp add: chan_offer_def)

lemma set_offer: "set (chan_offer q ev) \<subseteq> insert ev (set q)"
  by (auto simp: chan_offer_def)

text \<open>Offering a whole list to an empty channel keeps what fits.\<close>

lemma offer_all: "length q \<le> chan_cap \<Longrightarrow> foldl chan_offer q es = take chan_cap (q @ es)"
proof (induction es arbitrary: q)
  case Nil
  then show ?case by simp
next
  case (Cons e es)
  have IH: "foldl chan_offer (chan_offer q e) es = take chan_cap (chan_offer q e @ es)"
    by (rule Cons.IH [OF offer_bounded [OF Cons.prems]])
  show ?case
  proof (cases "length q < chan_cap")
    case True
    then have "chan_cap - length q = Suc (chan_cap - Suc (length q))" by simp
    then show ?thesis using IH True by (simp add: chan_offer_def [of q])
  next
    case False
    then show ?thesis using IH Cons.prems by (simp add: chan_offer_def [of q])
  qed
qed

lemma addrs_ok_grow: "addrs_ok subs j as \<Longrightarrow> addrs_ok (subs @ [s]) j as"
  by (auto simp: addrs_ok_def nth_append)

lemma addrs_ok_update:
  assumes "addrs_ok subs j as" "sb_JobID s = sb_JobID (subs ! a)"
  shows "addrs_ok (subs[a := s]) j as"
proof -
  have "sb_JobID (subs[a := s] ! b) = sb_JobID (subs ! b)" for b
    using assms(2) by (cases "a < length subs"; cases "b = a") (simp_all add: list_update_beyond)
  then show ?thesis using assms(1) by (simp add: addrs_ok_def)
qed

lemma registry_ok_grow: "registry_ok subs m \<Longrightarrow> registry_ok (subs @ [s]) m"
  by (simp add: registry_ok_def addrs_ok_grow)

lemma registry_ok_update: "registry_ok subs m \<Longrightarrow> sb_JobID s = sb_JobID (subs ! a) \<Longrightarrow> registry_ok (subs[a := s]) m"
  by (simp add: registry_ok_def addrs_ok_update)

lemma registry_ok_put: "registry_ok subs m \<Longrightarrow> addrs_ok subs j as \<Longrightarrow> registry_ok subs (gm_put j as m)"
  by (simp add: registry_ok_def slice_put)

lemma registry_ok_del: "registry_ok subs m \<Longrightarrow> registry_ok subs (gm_del j m)"
  by (simp add: registry_ok_def slice_del addrs_ok_def)

lemma registry_ok_get: "registry_ok subs m \<Longrightarrow> gm_get m j = Some as \<Longrightarrow> addrs_ok subs j as"
  unfolding registry_ok_def map_slice_def by (metis option.simps(5))

lemma replay_ok_put:
  "replay_ok m \<Longrightarrow> length es \<le> 32 \<Longrightarrow> (\<And>e. e \<in> set es \<Longrightarrow> e_JobID e = j) \<Longrightarrow> replay_ok (gm_put j es m)"
  by (simp add: replay_ok_def slice_put)

lemma replay_ok_del: "replay_ok m \<Longrightarrow> replay_ok (gm_del j m)"
  by (simp add: replay_ok_def slice_del)

lemma addrs_ok_remove1: "addrs_ok subs j as \<Longrightarrow> addrs_ok subs j (remove1 a as)"
  using set_remove1_subset [of a as] by (auto simp: addrs_ok_def)

lemmas registry_laws = registry_ok_grow registry_ok_update registry_ok_put registry_ok_del registry_ok_get
  replay_ok_put replay_ok_del addrs_ok_remove1

lemma sub_ok_update: "\<forall>s \<in> set subs. sub_ok s \<Longrightarrow> sub_ok s' \<Longrightarrow> \<forall>s \<in> set (subs[a := s']). sub_ok s"
  using set_update_subset_insert [of subs a s'] by blast

lemma hub_inv_update:
  assumes "hub_inv h" "sb_JobID s = sb_JobID (h_subs h ! a)" "sub_ok s"
  shows "hub_inv (h\<lparr>h_subs := (h_subs h)[a := s]\<rparr>)"
  using assms sub_ok_update [of "h_subs h" s a] by (auto simp: hub_inv_def registry_laws)

lemma Subscribe_inv [inv_intros]:
  assumes "hub_inv h"
  shows "hub_inv (snd (Subscribe j replay h))"
proof -
  let ?q = "if replay then foldl chan_offer [] (map_slice (h_replay h) j) else []"
  let ?s = "\<lparr>sb_JobID = j, sb_Send = ?q, sb_closed = False\<rparr>"
  have "?q = (if replay then take chan_cap (map_slice (h_replay h) j) else [])" by (simp add: offer_all)
  then have "sub_ok ?s"
    using assms by (auto simp: sub_ok_def hub_inv_def replay_ok_def chan_cap_def dest: in_set_takeD)
  moreover have "addrs_ok (h_subs h) j (map_slice (h_subscribers h) j)"
    using assms by (simp add: hub_inv_def registry_ok_def)
  then have "addrs_ok (h_subs h @ [?s]) j (map_slice (h_subscribers h) j @ [length (h_subs h)])"
    using addrs_ok_grow [of "h_subs h" j _ ?s] by (simp add: addrs_ok_def)
  ultimately show ?thesis
    using assms by (simp add: Subscribe_def Let_def hub_inv_def registry_laws del: if_split)
qed

lemma unsubscribe_locked_inv [inv_intros]:
  assumes "hub_inv h"
  shows "hub_inv (unsubscribe_locked a h)"
  using assms registry_ok_get [of "h_subs h" "h_subscribers h" "sb_JobID (h_subs h ! a)"]
  by (simp add: unsubscribe_locked_def Let_def hub_inv_def registry_laws split: option.splits)

lemma closeOnce_inv [inv_intros]: "hub_inv h \<Longrightarrow> a < length (h_subs h) \<Longrightarrow> hub_inv (closeOnce a h)"
  unfolding closeOnce_def by (rule hub_inv_update) (auto simp: hub_inv_def sub_ok_def)

lemma publish_locked_inv [inv_intros]:
  assumes "hub_inv h" "publish_locked now j ev h = (ev', rs, h')"
  shows "hub_inv h'" "addrs_ok (h_subs h') (e_JobID ev') rs" "h_subs h' = h_subs h"
proof -
  let ?b = "map_slice (h_replay h) j" let ?e = "stamp now j ev"
  have "length (replay_push 32 ?b ?e) \<le> 32" using assms(1) replay_log.push_bounded by (simp add: hub_inv_def replay_ok_def)
  moreover have "\<forall>e \<in> set (replay_push 32 ?b ?e). e_JobID e = j"
    using assms(1) set_mono_suffix [OF replay_log.push_suffix [of ?b ?e]] by (auto simp: hub_inv_def replay_ok_def)
  ultimately show "hub_inv h'"
    using assms by (auto simp: publish_locked_def Let_def hub_inv_def intro!: registry_laws)
  show "addrs_ok (h_subs h') (e_JobID ev') rs" "h_subs h' = h_subs h"
    using assms by (auto simp: publish_locked_def Let_def hub_inv_def registry_ok_def)
qed

lemma deliver_inv [inv_intros]:
  assumes "hub_inv h" "deliver ev a h = Some h'" "a < length (h_subs h)" "sb_JobID (h_subs h ! a) = e_JobID ev"
  shows "hub_inv h'"
proof -
  have "sub_ok (h_subs h ! a)" using assms(1,3) by (simp add: hub_inv_def)
  then have "sub_ok ((h_subs h ! a)\<lparr>sb_Send := chan_offer (sb_Send (h_subs h ! a)) ev\<rparr>)"
    using set_offer assms(4) by (fastforce simp: sub_ok_def offer_bounded)
  then show ?thesis using assms(1,2) hub_inv_update [OF assms(1)]
    by (auto simp: deliver_def Let_def split: if_splits)
qed

lemma pump_round_inv [inv_intros]:
  assumes "hub_inv h" "a < length (h_subs h)"
  shows "hub_inv (snd (snd (pump_round a c h)))"
proof -
  have "sub_ok (h_subs h ! a)" using assms by (simp add: hub_inv_def)
  then have "sub_ok ((h_subs h ! a)\<lparr>sb_Send := q\<rparr>)" if "sb_Send (h_subs h ! a) = ev # q" for ev q
    using that by (auto simp: sub_ok_def)
  then show ?thesis using assms(1) hub_inv_update [OF assms(1)]
    by (auto simp: pump_round_def Let_def split: pump_case.splits list.splits)
qed


lemma inflight_grow: "inflight_ok subs pubs closing \<Longrightarrow> inflight_ok (subs @ [s]) pubs closing"
  by (auto simp: inflight_ok_def intro: addrs_ok_grow less_SucI)

lemma inflight_update:
  "inflight_ok subs pubs closing \<Longrightarrow> sb_JobID s = sb_JobID (subs ! a) \<Longrightarrow> inflight_ok (subs[a := s]) pubs closing"
  by (auto simp: inflight_ok_def intro: addrs_ok_update)

lemma inflight_send:
  "inflight_ok subs pubs closing \<Longrightarrow> inflight_ok (subs[a := (subs ! a)\<lparr>sb_Send := q\<rparr>]) pubs closing"
  by (rule inflight_update) simp_all

lemma unsubscribe_locked_subs [simp]: "h_subs (unsubscribe_locked a h) = h_subs h"
  by (simp add: unsubscribe_locked_def Let_def split: option.splits)

lemma Subscribe_subs: "\<exists>s. h_subs (snd (Subscribe j replay h)) = h_subs h @ [s]"
  by (simp add: Subscribe_def Let_def)

lemma deliver_subs:
  "deliver ev a h = Some h' \<Longrightarrow> \<exists>q. h_subs h' = (h_subs h)[a := (h_subs h ! a)\<lparr>sb_Send := q\<rparr>]"
  by (auto simp: deliver_def Let_def split: if_splits)

lemma pump_round_subs:
  "h_subs (snd (snd (pump_round a c h))) = h_subs h \<or>
   (\<exists>q. h_subs (snd (snd (pump_round a c h))) = (h_subs h)[a := (h_subs h ! a)\<lparr>sb_Send := q\<rparr>])"
  by (auto simp: pump_round_def Let_def split: pump_case.splits list.splits)

lemma world_inv_step:
  assumes "hub_step w w'" "world_inv w"
  shows "world_inv w'"
  using assms
proof (induction rule: hub_step.induct)
  case (hs_subscribe w j replay)
  then show ?case using Subscribe_inv [of "w_hub w" j replay] Subscribe_subs [of j replay "w_hub w"] inflight_grow
    by (auto simp: world_inv_def)
next
  case (hs_unsubscribe w a)
  then show ?case by (simp add: world_inv_def unsubscribe_locked_inv) (simp add: inflight_ok_def)
next
  case (hs_close w xs a ys)
  then have "a < length (h_subs (w_hub w))" "inflight_ok (h_subs (w_hub w)) (w_pubs w) (xs @ ys)"
    by (auto simp: world_inv_def inflight_ok_def)
  then show ?case using hs_close(3) closeOnce_inv [of "w_hub w" a] inflight_update
    by (simp add: world_inv_def closeOnce_def)
next
  case (hs_publish w now j ev ev' rs h' rs')
  have inv: "hub_inv (w_hub w)" using hs_publish(4) by (simp add: world_inv_def)
  note p = publish_locked_inv [OF inv hs_publish(2)]
  have "addrs_ok (h_subs h') (e_JobID ev') rs'"
    using p(2) mset_eq_setD [OF hs_publish(3)] by (simp add: addrs_ok_def)
  then show ?case using hs_publish(4) p by (simp add: world_inv_def inflight_ok_def)
next
  case (hs_deliver w xs ev a rs ys h')
  have a: "a < length (h_subs (w_hub w))" "sb_JobID (h_subs (w_hub w) ! a) = e_JobID ev"
    and rest: "inflight_ok (h_subs (w_hub w)) (xs @ (ev, rs) # ys) (w_closing w)"
    using hs_deliver by (auto simp: world_inv_def inflight_ok_def addrs_ok_def)
  have "hub_inv h'" using deliver_inv [OF _ hs_deliver(3) a] hs_deliver(4) by (simp add: world_inv_def)
  then show ?case using deliver_subs [OF hs_deliver(3)] inflight_send [OF rest] by (auto simp: world_inv_def)
next
  case (hs_panic w xs ev a rs ys)
  then show ?case by (simp add: world_inv_def)
next
  case (hs_receive w a ok)
  then show ?case
    using pump_round_inv [of "w_hub w" a "SendReady ok"] pump_round_subs [of a "SendReady ok" "w_hub w"] inflight_send
    by (auto simp: world_inv_def)
qed

interpretation hub_life: kept_by_steps hub_step world_inv
  by unfold_locales (rule world_inv_step)

lemma hub_reachable_inv: "hub_step\<^sup>*\<^sup>* hub_init w \<Longrightarrow> world_inv w"
  by (erule hub_life.run_keeps)
     (simp add: world_inv_def hub_init_def NewHub_def hub_inv_def registry_ok_def replay_ok_def addrs_ok_def inflight_ok_def)


section \<open>Publishing without interference\<close>

text \<open>The registered subscribers of a job are distinct and open, as they are whenever no
  \<open>Unsubscribe\<close> runs between the halves of a \<open>Publish\<close>.\<close>

definition open_reg :: "string \<Rightarrow> hub \<Rightarrow> bool" where
  "open_reg j h \<longleftrightarrow> distinct (map_slice (h_subscribers h) j) \<and>
     (\<forall>a \<in> set (map_slice (h_subscribers h) j). a < length (h_subs h) \<and> \<not> sb_closed (h_subs h ! a))"

lemma deliver_all_open:
  assumes "distinct as" "\<And>a. a \<in> set as \<Longrightarrow> a < length (h_subs h) \<and> \<not> sb_closed (h_subs h ! a)"
  shows "\<exists>h'. deliver_all ev as h = Some h' \<and> h_subscribers h' = h_subscribers h \<and> h_replay h' = h_replay h \<and>
     h_replaySize h' = h_replaySize h \<and> length (h_subs h') = length (h_subs h) \<and>
     (\<forall>b. h_subs h' ! b = (if b \<in> set as then (h_subs h ! b)\<lparr>sb_Send := chan_offer (sb_Send (h_subs h ! b)) ev\<rparr> else h_subs h ! b))"
  using assms
proof (induction as arbitrary: h)
  case Nil
  then show ?case by simp
next
  case (Cons a as)
  let ?h = "h\<lparr>h_subs := (h_subs h)[a := (h_subs h ! a)\<lparr>sb_Send := chan_offer (sb_Send (h_subs h ! a)) ev\<rparr>]\<rparr>"
  have a: "a < length (h_subs h)" "\<not> sb_closed (h_subs h ! a)" "a \<notin> set as" using Cons.prems by auto
  have d: "deliver ev a h = Some ?h" using a by (simp add: deliver_def Let_def)
  have eq: "h_subs ?h ! b = (if b = a then (h_subs h ! a)\<lparr>sb_Send := chan_offer (sb_Send (h_subs h ! a)) ev\<rparr> else h_subs h ! b)" for b
    using a(1) by (simp add: nth_list_update)
  have "\<And>b. b \<in> set as \<Longrightarrow> b < length (h_subs ?h) \<and> \<not> sb_closed (h_subs ?h ! b)"
    using Cons.prems(2) a(3) unfolding eq by auto
  with Cons.IH [of ?h] Cons.prems(1) obtain h' where
    h': "deliver_all ev as ?h = Some h'" "h_subscribers h' = h_subscribers ?h" "h_replay h' = h_replay ?h"
      "h_replaySize h' = h_replaySize ?h" "length (h_subs h') = length (h_subs ?h)"
      "\<forall>b. h_subs h' ! b = (if b \<in> set as then (h_subs ?h ! b)\<lparr>sb_Send := chan_offer (sb_Send (h_subs ?h ! b)) ev\<rparr> else h_subs ?h ! b)"
    by auto
  have "h_subs h' ! b = (if b \<in> set (a # as) then (h_subs h ! b)\<lparr>sb_Send := chan_offer (sb_Send (h_subs h ! b)) ev\<rparr> else h_subs h ! b)" for b
    using h'(6) a(3) unfolding eq by auto
  then show ?case using d h'(1-5) by simp
qed

lemma Publish_open:
  assumes "open_reg j h"
  shows "\<exists>h'. Publish now j ev h = Some h' \<and> open_reg j h' \<and> h_subscribers h' = h_subscribers h \<and>
     h_replaySize h' = h_replaySize h \<and>
     map_slice (h_replay h') j = replay_push (h_replaySize h) (map_slice (h_replay h) j) (stamp now j ev) \<and>
     (\<forall>a \<in> set (map_slice (h_subscribers h) j).
        sb_Send (h_subs h' ! a) = chan_offer (sb_Send (h_subs h ! a)) (stamp now j ev))"
proof -
  let ?h = "snd (snd (publish_locked now j ev h))"
  let ?as = "map_slice (h_subscribers h) j"
  have pl: "publish_locked now j ev h = (stamp now j ev, ?as, ?h)" "h_subs ?h = h_subs h" "h_subscribers ?h = h_subscribers h"
    "h_replaySize ?h = h_replaySize h"
    "map_slice (h_replay ?h) j = replay_push (h_replaySize h) (map_slice (h_replay h) j) (stamp now j ev)"
    by (simp_all add: publish_locked_def Let_def slice_put)
  have pre: "distinct ?as" "\<And>a. a \<in> set ?as \<Longrightarrow> a < length (h_subs ?h) \<and> \<not> sb_closed (h_subs ?h ! a)"
    using assms unfolding pl(2) by (simp_all add: open_reg_def)
  obtain h' where "deliver_all (stamp now j ev) ?as ?h = Some h'" "h_subscribers h' = h_subscribers ?h"
    "h_replay h' = h_replay ?h" "h_replaySize h' = h_replaySize ?h" "length (h_subs h') = length (h_subs ?h)"
    "\<forall>b. h_subs h' ! b = (if b \<in> set ?as then (h_subs ?h ! b)\<lparr>sb_Send := chan_offer (sb_Send (h_subs ?h ! b)) (stamp now j ev)\<rparr> else h_subs ?h ! b)"
    using deliver_all_open [OF pre, of "stamp now j ev"] by blast
  moreover have "Publish now j ev h = deliver_all (stamp now j ev) ?as ?h"
    unfolding Publish_def using pl(1) by (metis case_prod_conv)
  ultimately show ?thesis using assms pl(2-5) by (auto simp: open_reg_def)
qed

fun publish_all :: "string \<Rightarrow> (time \<times> event) list \<Rightarrow> hub \<Rightarrow> hub option" where
  "publish_all j [] h = Some h"
| "publish_all j ((now, ev) # es) h = Option.bind (Publish now j ev h) (publish_all j es)"

lemma publish_all_open:
  assumes "open_reg j h"
  shows "\<exists>h'. publish_all j es h = Some h' \<and> open_reg j h' \<and> h_subscribers h' = h_subscribers h \<and>
     h_replaySize h' = h_replaySize h \<and>
     map_slice (h_replay h') j = foldl (replay_push (h_replaySize h)) (map_slice (h_replay h) j) (map (\<lambda>(t, e). stamp t j e) es) \<and>
     (\<forall>a \<in> set (map_slice (h_subscribers h) j).
        sb_Send (h_subs h' ! a) = foldl chan_offer (sb_Send (h_subs h ! a)) (map (\<lambda>(t, e). stamp t j e) es))"
  using assms
proof (induction es arbitrary: h)
  case Nil
  then show ?case by simp
next
  case (Cons x es)
  obtain t e where x: "x = (t, e)" by (cases x)
  obtain h1 where h1: "Publish t j e h = Some h1" "open_reg j h1" "h_subscribers h1 = h_subscribers h"
    "h_replaySize h1 = h_replaySize h"
    "map_slice (h_replay h1) j = replay_push (h_replaySize h) (map_slice (h_replay h) j) (stamp t j e)"
    "\<forall>a \<in> set (map_slice (h_subscribers h) j). sb_Send (h_subs h1 ! a) = chan_offer (sb_Send (h_subs h ! a)) (stamp t j e)"
    using Publish_open [OF Cons.prems, of t e] by blast
  from Cons.IH [OF h1(2)] show ?case using h1 x by auto
qed

lemma Subscribe_open:
  assumes "open_reg j h" "Subscribe j replay h = (a, h')"
  shows "open_reg j h'" "a \<in> set (map_slice (h_subscribers h') j)" "h_replay h' = h_replay h" "h_replaySize h' = h_replaySize h"
    "sb_Send (h_subs h' ! a) = (if replay then take chan_cap (map_slice (h_replay h) j) else [])"
  using assms by (auto simp: Subscribe_def Let_def open_reg_def slice_put nth_append offer_all less_Suc_eq)

section \<open>The writer pump\<close>

definition terminal :: "event \<Rightarrow> bool" where
  "terminal ev \<longleftrightarrow> e_Type ev = ''completed'' \<or> e_Type ev = ''failed''"

text \<open>What a stream of events looks like to the client: everything up to the first terminal
  event, that one included.\<close>

fun upto_terminal :: "event list \<Rightarrow> event list" where
  "upto_terminal [] = []"
| "upto_terminal (e # es) = (if terminal e then [e] else e # upto_terminal es)"

lemma pump_round_send:
  assumes "a < length (h_subs h)" "sb_Send (h_subs h ! a) = ev # q"
  shows "\<exists>h'. pump_round a (SendReady True) h = (\<not> terminal ev, [ev], h') \<and>
     length (h_subs h') = length (h_subs h) \<and> h_subscribers h' = h_subscribers h \<and>
     sb_Send (h_subs h' ! a) = q \<and> sb_JobID (h_subs h' ! a) = sb_JobID (h_subs h ! a)"
  using assms by (simp add: pump_round_def terminal_def Let_def)

lemma Unsubscribe_gone:
  assumes "a < length (h_subs h)" "sb_JobID (h_subs h ! a) = j" "distinct (map_slice (h_subscribers h) j)"
  shows "sb_closed (h_subs (Unsubscribe a h) ! a) \<and> a \<notin> set (map_slice (h_subscribers (Unsubscribe a h)) j)"
  using assms
  by (auto simp: Unsubscribe_def closeOnce_def unsubscribe_locked_def Let_def slice_laws map_slice_def split: option.splits)
     (simp_all add: gm.get_put gm.get_del)

lemma pump_all_sends:
  assumes "a < length (h_subs h)" "sb_Send (h_subs h ! a) = es" "sb_JobID (h_subs h ! a) = j"
    and "distinct (map_slice (h_subscribers h) j)" "\<exists>e \<in> set es. terminal e"
  shows "\<exists>h'. pump a (replicate (length es) (SendReady True)) h = (True, upto_terminal es, h') \<and>
     sb_closed (h_subs h' ! a) \<and> a \<notin> set (map_slice (h_subscribers h') j)"
  using assms
proof (induction es arbitrary: h)
  case Nil
  then show ?case by simp
next
  case (Cons e es)
  obtain h' where r: "pump_round a (SendReady True) h = (\<not> terminal e, [e], h')"
    and h': "length (h_subs h') = length (h_subs h)" "h_subscribers h' = h_subscribers h"
      "sb_Send (h_subs h' ! a) = es" "sb_JobID (h_subs h' ! a) = j"
    using pump_round_send [OF Cons.prems(1,2)] Cons.prems(3) by auto
  show ?case
  proof (cases "terminal e")
    case True
    then show ?thesis using r Unsubscribe_gone [of a h' j] h' Cons.prems(1,4) by simp
  next
    case False
    then obtain h'' where "pump a (replicate (length es) (SendReady True)) h' = (True, upto_terminal es, h'')"
      "sb_closed (h_subs h'' ! a) \<and> a \<notin> set (map_slice (h_subscribers h'') j)"
      using Cons.IH [of h'] h' Cons.prems by auto
    then show ?thesis using r False by simp
  qed
qed

section \<open>Properties\<close>

text \<open>C15: One job, one stream. In every interleaving of subscribing, unsubscribing, publishing
  and receiving, each subscriber's channel holds events of its own job only, and neither a
  channel nor the replay buffer of a job ever holds more than 32 events.\<close>

theorem hub_streams_isolated:
  assumes "hub_step\<^sup>*\<^sup>* hub_init w"
  shows "(\<forall>s \<in> set (h_subs (w_hub w)). length (sb_Send s) \<le> 32 \<and> (\<forall>e \<in> set (sb_Send s). e_JobID e = sb_JobID s)) \<and>
     (\<forall>j. length (map_slice (h_replay (w_hub w)) j) \<le> 32 \<and> (\<forall>e \<in> set (map_slice (h_replay (w_hub w)) j). e_JobID e = j))"
  using hub_reachable_inv [OF assms] by (simp add: world_inv_def hub_inv_def sub_ok_def replay_ok_def chan_cap_def)

definition demo_event :: event where
  "demo_event = \<lparr>e_Type = ''progress'', e_JobID = '''', e_Status = ''running'', e_Progress = 10, e_Message = '''',
     e_Techs = [], e_Error = '''', e_TS = ''t''\<rparr>"

theorem hub_streams_isolated_witness:
  "\<exists>w. hub_step\<^sup>*\<^sup>* hub_init w \<and> length (h_subs (w_hub w)) = 1 \<and>
     (\<forall>s \<in> set (h_subs (w_hub w)). length (sb_Send s) \<le> 32 \<and> (\<forall>e \<in> set (sb_Send s). e_JobID e = sb_JobID s))"
proof -
  let ?w = "hub_init\<lparr>w_hub := snd (Subscribe ''j'' True (w_hub hub_init))\<rparr>"
  have "hub_step hub_init ?w" by (rule hs_subscribe) (simp add: hub_init_def)
  then have run: "hub_step\<^sup>*\<^sup>* hub_init ?w" by blast
  moreover have "length (h_subs (w_hub ?w)) = 1" by (simp add: hub_init_def NewHub_def Subscribe_def Let_def)
  ultimately show ?thesis using hub_streams_isolated [OF run] by blast
qed

text \<open>C16: A late joiner catches up. When a job's events are published, then a client subscribes
  with replay, then more events follow, every publication succeeds and the client's channel
  holds, in order, the last 32 of the earlier events followed by the later ones, as far as its
  capacity of 32 goes.\<close>

theorem late_subscriber_catches_up:
  assumes "open_reg j h" "h_replaySize h = 32" "map_slice (h_replay h) j = []"
  shows "\<exists>h1 a h2 h3. publish_all j es1 h = Some h1 \<and> Subscribe j True h1 = (a, h2) \<and> publish_all j es2 h2 = Some h3 \<and>
     sb_Send (h_subs h3 ! a) =
       take 32 (drop (length es1 - 32) (map (\<lambda>(t, e). stamp t j e) es1) @ map (\<lambda>(t, e). stamp t j e) es2)"
proof -
  let ?s1 = "map (\<lambda>(t, e). stamp t j e) es1" and ?s2 = "map (\<lambda>(t, e). stamp t j e) es2"
  obtain h1 where h1: "publish_all j es1 h = Some h1" "open_reg j h1" "map_slice (h_replay h1) j = foldl (replay_push 32) [] ?s1"
    using publish_all_open [OF assms(1), of es1] assms(2,3) by auto
  obtain a h2 where sub: "Subscribe j True h1 = (a, h2)" by (cases "Subscribe j True h1")
  note s = Subscribe_open [OF h1(2) sub]
  have replay: "map_slice (h_replay h1) j = drop (length es1 - 32) ?s1"
    using h1(3) replay_log.push_all [of ?s1] by simp
  obtain h3 where h3: "publish_all j es2 h2 = Some h3" "sb_Send (h_subs h3 ! a) = foldl chan_offer (sb_Send (h_subs h2 ! a)) ?s2"
    using publish_all_open [OF s(1), of es2] s(2) by auto
  have "length (sb_Send (h_subs h2 ! a)) \<le> chan_cap" using s(5) by simp
  from offer_all [OF this] have "sb_Send (h_subs h3 ! a) = take 32 (drop (length es1 - 32) ?s1 @ ?s2)"
    using h3(2) s(5) replay by (simp add: chan_cap_def)
  then show ?thesis using h1(1) sub h3(1) by blast
qed

theorem late_subscriber_catches_up_witness:
  "\<exists>h1 a h2 h3. publish_all ''j'' [(1, demo_event)] NewHub = Some h1 \<and> Subscribe ''j'' True h1 = (a, h2) \<and>
     publish_all ''j'' [(2, demo_event)] h2 = Some h3 \<and>
     sb_Send (h_subs h3 ! a) = [stamp 1 ''j'' demo_event, stamp 2 ''j'' demo_event]"
proof -
  have "open_reg ''j'' NewHub" "h_replaySize NewHub = 32" "map_slice (h_replay NewHub) ''j'' = []"
    by (simp_all add: NewHub_def open_reg_def)
  from late_subscriber_catches_up [OF this, of "[(1, demo_event)]" "[(2, demo_event)]"] show ?thesis by simp
qed

text \<open>A publisher can crash the server. \<open>Publish\<close> sends to its recipients after it has
  released the mutex, so an \<open>Unsubscribe\<close> that closes a recipient's channel in between makes
  the send panic: such a state is reachable.\<close>

theorem publish_can_panic: "\<exists>w. hub_step\<^sup>*\<^sup>* hub_init w \<and> w_panic w"
proof -
  define h1 where "h1 = snd (Subscribe ''j'' True NewHub)"
  define p where "p = publish_locked 0 ''j'' demo_event h1"
  define ev h2 where "ev = fst p" and "h2 = snd (snd p)"
  have p: "publish_locked 0 ''j'' demo_event h1 = (ev, [0], h2)"
    by (simp add: ev_def h2_def p_def h1_def publish_locked_def Subscribe_def NewHub_def Let_def slice_put)
  have sub: "length (h_subs h2) = 1"
    by (simp add: h2_def p_def h1_def publish_locked_def Subscribe_def NewHub_def Let_def)
  let ?w1 = "hub_init\<lparr>w_hub := h1\<rparr>"
  let ?w2 = "?w1\<lparr>w_hub := h2, w_pubs := [(ev, [0])]\<rparr>"
  let ?w3 = "?w2\<lparr>w_hub := unsubscribe_locked 0 h2, w_closing := [0]\<rparr>"
  let ?w4 = "?w3\<lparr>w_hub := closeOnce 0 (unsubscribe_locked 0 h2), w_closing := []\<rparr>"
  have "hub_step hub_init ?w1" using hs_subscribe [of hub_init "''j''" True] by (simp add: hub_init_def h1_def)
  moreover have "hub_step ?w1 ?w2" using hs_publish [of ?w1 0 "''j''" demo_event ev "[0]" h2 "[0]"] p by (simp add: hub_init_def)
  moreover have "hub_step ?w2 ?w3" using hs_unsubscribe [of ?w2 0] sub by (simp add: hub_init_def)
  moreover have "hub_step ?w3 ?w4" using hs_close [of ?w3 "[]" 0 "[]"] by (simp add: hub_init_def)
  moreover have "deliver ev 0 (w_hub ?w4) = None" using sub by (simp add: deliver_def closeOnce_def Let_def)
  then have "hub_step ?w4 (?w4\<lparr>w_panic := True\<rparr>)"
    using hs_panic [of ?w4 "[]" ev 0 "[]" "[]"] by (simp add: hub_init_def)
  ultimately have "hub_step\<^sup>*\<^sup>* hub_init (?w4\<lparr>w_panic := True\<rparr>)"
    by (meson converse_rtranclp_into_rtranclp rtranclp.rtrancl_refl)
  then show ?thesis by (intro exI [of _ "?w4\<lparr>w_panic := True\<rparr>"]) simp
qed


text \<open>The WebSocket endpoint asks for a token. With an authenticator, a request that
  presents no token or one the authenticator refuses is answered with 401 (or 400 for a
  malformed job id) and leaves the hub as it is; a request that is accepted subscribes to
  exactly the job named in its path.\<close>

theorem ws_requires_token:
  "case HandleScanWS (Some ok) upgrade r h of
      (WsReject resp, h') \<Rightarrow> h' = h \<and> (rs_Status resp = 400 \<or>
         rs_Status resp = 401 \<and> (extractWSToken r = '''' \<or> \<not> ok (extractWSToken r)))
    | (WsUpgradeFailed, h') \<Rightarrow> h' = h
    | (WsStream a, h') \<Rightarrow> extractWSToken r \<noteq> '''' \<and> ok (extractWSToken r) \<and>
         a = length (h_subs h) \<and> sb_JobID (h_subs h' ! a) = TrimPrefix (r_Path r) ''/api/ws/scan/'' \<and>
         CHR ''/'' \<notin> set (sb_JobID (h_subs h' ! a))"
  by (auto simp: HandleScanWS_def Subscribe_def Let_def go_simps Contains_char)

definition ws_request :: "string \<Rightarrow> request" where
  "ws_request token = \<lparr>r_Method = ''GET'', r_Path = ''/api/ws/scan/j1'', r_Header = [(''Sec-Websocket-Protocol'', ''stackly-auth-v1, '' @ token)],
     r_Query = [], r_RemoteAddr = '''', r_Host = '''', r_TLS = False\<rparr>"

theorem ws_requires_token_witness:
  "fst (HandleScanWS (Some (\<lambda>t. t = ''good'')) True (ws_request ''good'') NewHub) = WsStream 0 \<and>
   (\<exists>resp. fst (HandleScanWS (Some (\<lambda>t. t = ''good'')) True (ws_request ''bad'') NewHub) = WsReject resp \<and>
      (rs_Status resp = 400 \<or> rs_Status resp = 401))"
proof -
  have sp: "Split ''stackly-auth-v1, bad'' (CHR '','') = [''stackly-auth-v1'', '' bad'']"
    "Split ''stackly-auth-v1, good'' (CHR '','') = [''stackly-auth-v1'', '' good'']" by simp_all
  have tr: "TrimSpace ''stackly-auth-v1'' = ''stackly-auth-v1''" "TrimSpace '' bad'' = ''bad''" "TrimSpace '' good'' = ''good''"
    by (simp_all add: TrimSpace_def TrimRightFunc_def isSpace_def)
  have tok: "extractWSToken (ws_request ''bad'') = ''bad''" "extractWSToken (ws_request ''good'') = ''good''"
    by (simp_all add: extractWSToken_def ws_request_def header_Get_def gm_get_def sp tr Let_def AuthSubprotocol_def HasPrefix_def)
  have path: "TrimPrefix (r_Path (ws_request t)) ''/api/ws/scan/'' = ''j1''" "\<not> Contains ''j1'' ''/''" "\<not> Contains ''j1'' ''..''" for t
    by (simp_all add: ws_request_def TrimPrefix_def HasPrefix_def Contains_def)
  have good: "fst (HandleScanWS (Some (\<lambda>t. t = ''good'')) True (ws_request ''good'') NewHub) = WsStream 0"
    using path tok by (simp add: HandleScanWS_def Let_def Subscribe_def NewHub_def)
  obtain resp h' where bad: "HandleScanWS (Some (\<lambda>t. t = ''good'')) True (ws_request ''bad'') NewHub = (WsReject resp, h')"
    using path tok by (simp add: HandleScanWS_def Let_def)
  show ?thesis
    using ws_requires_token [where ok = "\<lambda>t. t = ''good''" and upgrade = True and r = "ws_request ''bad''" and h = NewHub] good unfolding bad by auto
qed

text \<open>A stream ends with the job. When the events waiting in a client's channel include a
  terminal one and every write succeeds, the pump writes them in order up to and including
  the first terminal event, then returns; the client is no longer registered and its channel
  is closed.\<close>

theorem stream_ends_at_terminal:
  assumes "a < length (h_subs h)" "distinct (map_slice (h_subscribers h) (sb_JobID (h_subs h ! a)))"
    and "\<exists>e \<in> set (sb_Send (h_subs h ! a)). terminal e"
  shows "\<exists>h'. pump a (replicate (length (sb_Send (h_subs h ! a))) (SendReady True)) h =
       (True, upto_terminal (sb_Send (h_subs h ! a)), h') \<and>
     sb_closed (h_subs h' ! a) \<and> a \<notin> set (map_slice (h_subscribers h') (sb_JobID (h_subs h ! a)))"
  by (rule pump_all_sends [OF assms(1) refl refl assms(2,3)])

theorem stream_ends_at_terminal_witness:
  "\<exists>h'. pump 0 (replicate 3 (SendReady True))
     \<lparr>h_subscribers = [(''j'', [0])], h_replay = [], h_replaySize = 32,
      h_subs = [\<lparr>sb_JobID = ''j'', sb_Send = [demo_event, demo_event\<lparr>e_Type := ''completed''\<rparr>, demo_event], sb_closed = False\<rparr>]\<rparr> =
     (True, [demo_event, demo_event\<lparr>e_Type := ''completed''\<rparr>], h')"
proof -
  let ?h = "\<lparr>h_subscribers = [(''j'', [0])], h_replay = [], h_replaySize = 32,
      h_subs = [\<lparr>sb_JobID = ''j'', sb_Send = [demo_event, demo_event\<lparr>e_Type := ''completed''\<rparr>, demo_event], sb_closed = False\<rparr>]\<rparr>"
  have "0 < length (h_subs ?h)" "distinct (map_slice (h_subscribers ?h) (sb_JobID (h_subs ?h ! 0)))"
    "\<exists>e \<in> set (sb_Send (h_subs ?h ! 0)). terminal e"
    by (simp_all add: map_slice_def gm_get_def terminal_def)
  from stream_ends_at_terminal [OF this] show ?thesis
    by (auto simp: terminal_def demo_event_def numeral_3_eq_3)
qed

end
