(* ===== verification/Cache.thy ===== *)
theory Cache
  imports Complex_Main Go_Map Go_Strings
begin

text \<open>
  The result cache of \<^verbatim>\<open>internal/cache/cache.go\<close>. The cached results are of any type
  \<open>'r\<close>. The state record also holds the content of the file at the cache's path. \<open>sha\<close> is
  the hexadecimal SHA-256 digest and \<open>enc\<close>/\<open>dec\<close> the JSON codec of the file; each value of
  \<^verbatim>\<open>time.Now()\<close> that an operation reads is an argument. A Go map is iterated in an order
  chosen anew by each loop: the operations iterate in list order, and the step relation at
  the end of the theory may reorder the list between any two operations.
\<close>

record 'r cache_entry =
  ce_URL :: string
  ce_Result :: 'r
  ce_CachedAt :: time
  ce_ExpiresAt :: time
  ce_UserAgent :: string

type_synonym 'r entries = "(string, 'r cache_entry) gomap"

record 'r cache =
  c_entries :: "'r entries"
  c_ttl :: duration
  c_path :: string
  c_maxSize :: int
  c_hits :: int
  c_misses :: int
  c_file :: "string option"

record 'r cache_codec =
  cc_sha :: "string \<Rightarrow> string"
  cc_enc :: "'r entries \<Rightarrow> string option"
  cc_dec :: "string \<Rightarrow> 'r entries option"

definition normalizeURL :: "string \<Rightarrow> string" where
  "normalizeURL url = TrimRightFunc (\<lambda>c. c = CHR ''/'') url"

definition urlKey :: "(string \<Rightarrow> string) \<Rightarrow> string \<Rightarrow> string" where
  "urlKey sha url = take 32 (sha (normalizeURL url))"

section \<open>Persistence\<close>

definition cache_load :: "'r cache_codec \<Rightarrow> time \<Rightarrow> 'r cache \<Rightarrow> 'r cache" where
  "cache_load cc now c =
     (if c_path c = '''' then c
      else case c_file c of
        None \<Rightarrow> c
      | Some data \<Rightarrow> (case cc_dec cc data of
          None \<Rightarrow> c
        | Some loaded \<Rightarrow>
            c\<lparr>c_entries := foldl (\<lambda>m (k, e). if now < ce_ExpiresAt e then gm_put k e m else m) (c_entries c) loaded\<rparr>))"

definition persistLocked :: "'r cache_codec \<Rightarrow> write_outcome \<Rightarrow> time \<Rightarrow> 'r cache \<Rightarrow> 'r cache" where
  "persistLocked cc w now c =
     (if c_path c = '''' then c
      else case cc_enc cc (gm_filter (\<lambda>k e. now < ce_ExpiresAt e) (c_entries c)) of
        None \<Rightarrow> c
      | Some data \<Rightarrow> c\<lparr>c_file := write_file w data\<rparr>)"

definition NewCache :: "'r cache_codec \<Rightarrow> time \<Rightarrow> duration \<Rightarrow> string \<Rightarrow> string option \<Rightarrow> 'r cache" where
  "NewCache cc now ttl persistPath file =
     (let c = \<lparr>c_entries = [], c_ttl = ttl, c_path = persistPath, c_maxSize = 5000, c_hits = 0, c_misses = 0, c_file = file\<rparr>
      in if persistPath \<noteq> '''' then cache_load cc now c else c)"

section \<open>Operations\<close>

definition Get :: "'r cache_codec \<Rightarrow> time \<Rightarrow> string \<Rightarrow> 'r cache \<Rightarrow> 'r cache_entry option \<times> 'r cache" where
  "Get cc now url c =
     (case gm_get (c_entries c) (urlKey (cc_sha cc) url) of
        None \<Rightarrow> (None, c\<lparr>c_misses := wrap64 (c_misses c + 1)\<rparr>)
      | Some entry \<Rightarrow>
          if ce_ExpiresAt entry < now then (None, c\<lparr>c_misses := wrap64 (c_misses c + 1)\<rparr>)
          else (Some entry, c\<lparr>c_hits := wrap64 (c_hits c + 1)\<rparr>))"

text \<open>The second loop of \<^verbatim>\<open>evictOldest\<close>: the variables \<^verbatim>\<open>oldestKey\<close>, \<^verbatim>\<open>oldestTime\<close>, \<^verbatim>\<open>first\<close>.\<close>

definition oldest_step :: "string \<times> time \<times> bool \<Rightarrow> string \<times> 'r cache_entry \<Rightarrow> string \<times> time \<times> bool" where
  "oldest_step st ke =
     (let (oldestKey, oldestTime, first) = st; (k, e) = ke
      in if first \<or> ce_CachedAt e < oldestTime then (k, ce_CachedAt e, False) else st)"

definition evictOldest :: "time \<Rightarrow> int \<Rightarrow> 'r entries \<Rightarrow> 'r entries" where
  "evictOldest now maxSize entries =
     (let live = gm_filter (\<lambda>k e. \<not> ce_ExpiresAt e < now) entries in
      if int (gm_len live) > maxSize then
        let (oldestKey, oldestTime, first) = foldl oldest_step ('''', 0, True) live
        in if oldestKey \<noteq> '''' then gm_del oldestKey live else live
      else live)"

definition cache_Set ::
  "'r cache_codec \<Rightarrow> write_outcome \<Rightarrow> time \<Rightarrow> time \<Rightarrow> time \<Rightarrow> string \<Rightarrow> 'r \<Rightarrow> string \<Rightarrow> 'r cache \<Rightarrow> 'r cache \<times> metric_op list"
where
  "cache_Set cc w now now1 now2 url result ua c =
     (let entry = \<lparr>ce_URL = url, ce_Result = result, ce_CachedAt = now, ce_ExpiresAt = now + c_ttl c, ce_UserAgent = ua\<rparr>;
          es = gm_put (urlKey (cc_sha cc) url) entry (c_entries c);
          es' = (if int (gm_len es) > c_maxSize c then evictOldest now1 (c_maxSize c) es else es);
          c' = c\<lparr>c_entries := es'\<rparr>;
          c'' = (if c_path c \<noteq> '''' then persistLocked cc w now2 c' else c')
      in (c'', [MSet ''CacheSize'' (int (gm_len es'))]))"

definition Clear :: "'r cache_codec \<Rightarrow> write_outcome \<Rightarrow> time \<Rightarrow> 'r cache \<Rightarrow> 'r cache \<times> metric_op list" where
  "Clear cc w now c =
     (let c' = c\<lparr>c_entries := []\<rparr>
      in (if c_path c \<noteq> '''' then persistLocked cc w now c' else c',
          [MSet ''CacheSize'' 0, MInc ''CacheInvalidations'' []]))"

definition CleanupExpired :: "'r cache_codec \<Rightarrow> write_outcome \<Rightarrow> time \<Rightarrow> time \<Rightarrow> 'r cache \<Rightarrow> nat \<times> 'r cache" where
  "CleanupExpired cc w now now1 c =
     (let live = gm_filter (\<lambda>k e. \<not> ce_ExpiresAt e < now) (c_entries c);
          removed = gm_len (gm_filter (\<lambda>k e. ce_ExpiresAt e < now) (c_entries c));
          c' = c\<lparr>c_entries := live\<rparr>
      in (removed, if 0 < removed \<and> c_path c \<noteq> '''' then persistLocked cc w now1 c' else c'))"

record cache_stats =
  cs_Size :: nat
  cs_Valid :: nat
  cs_Hits :: int
  cs_Misses :: int
  cs_HitRate :: real
  cs_TTL :: duration

text \<open>\<open>clock i\<close> is the value of \<^verbatim>\<open>time.Now()\<close> in round \<open>i\<close> of the loop.\<close>

definition cache_Stats :: "(nat \<Rightarrow> time) \<Rightarrow> 'r cache \<Rightarrow> cache_stats" where
  "cache_Stats clock c =
     (let valid = length (filter (\<lambda>(i, k, e). clock i < ce_ExpiresAt e) (enumerate 0 (c_entries c)));
          total = wrap64 (c_hits c + c_misses c)
      in \<lparr>cs_Size = gm_len (c_entries c), cs_Valid = valid, cs_Hits = c_hits c, cs_Misses = c_misses c,
          cs_HitRate = (if 0 < total then of_int (c_hits c) / of_int total else 0), cs_TTL = c_ttl c\<rparr>)"


section \<open>Eviction\<close>

text \<open>The loop finds a key of the map whose entry has the least \<^verbatim>\<open>CachedAt\<close>.\<close>

definition is_oldest :: "'r entries \<Rightarrow> string \<times> time \<times> bool \<Rightarrow> bool" where
  "is_oldest es st \<longleftrightarrow> (case st of (k, t, first) \<Rightarrow>
     if first then es = []
     else (\<exists>e. (k, e) \<in> set es \<and> t = ce_CachedAt e) \<and> (\<forall>(k', e') \<in> set es. t \<le> ce_CachedAt e'))"

lemma oldest_fold: "is_oldest es (foldl oldest_step ('''', 0, True) es)"
proof (induction es rule: rev_induct)
  case Nil
  then show ?case by (simp add: is_oldest_def)
next
  case (snoc x es)
  obtain k t first where st: "foldl oldest_step ('''', 0, True) es = (k, t, first)" by (cases "foldl oldest_step ('''', 0, True) es")
  then show ?case using snoc by (cases x) (auto simp: is_oldest_def oldest_step_def split: if_splits)
qed

lemma evictOldest_cases:
  assumes "gm_wf es"
  obtains (expired) "evictOldest now mx es = gm_filter (\<lambda>k e. \<not> ce_ExpiresAt e < now) es"
      "int (gm_len (evictOldest now mx es)) \<le> mx \<or> [] \<in> fst ` set es \<or> mx < 0"
  | (oldest) k e where "k \<noteq> ''''" "gm_get (gm_filter (\<lambda>k e. \<not> ce_ExpiresAt e < now) es) k = Some e"
      "\<forall>k' e'. gm_get (gm_filter (\<lambda>k e. \<not> ce_ExpiresAt e < now) es) k' = Some e' \<longrightarrow> ce_CachedAt e \<le> ce_CachedAt e'"
      "evictOldest now mx es = gm_del k (gm_filter (\<lambda>k e. \<not> ce_ExpiresAt e < now) es)"
proof -
  let ?live = "gm_filter (\<lambda>k e. \<not> ce_ExpiresAt e < now) es"
  obtain k t first where st: "foldl oldest_step ('''', 0, True) ?live = (k, t, first)"
    by (cases "foldl oldest_step ('''', 0, True) ?live")
  have old: "is_oldest ?live (k, t, first)" using oldest_fold [of ?live] st by simp
  have wf: "gm_wf ?live" using assms by (rule gm_wf_filter)
  show thesis
  proof (cases "int (gm_len ?live) > mx \<and> ?live \<noteq> []")
    case False
    then show thesis using expired by (cases "mx < 0") (auto simp: evictOldest_def gm_len_def)
  next
    case True
    then obtain e where e: "(k, e) \<in> set ?live" "t = ce_CachedAt e" "\<forall>(k', e') \<in> set ?live. t \<le> ce_CachedAt e'"
      using old by (auto simp: is_oldest_def split: if_splits)
    show thesis
    proof (cases "k = ''''")
      case True
      then have "[] \<in> fst ` set es" using e(1) by (force simp: gm_filter_def)
      moreover have "evictOldest now mx es = ?live" using st True by (simp add: evictOldest_def Let_def)
      ultimately show thesis using expired by blast
    next
      case False
      then show thesis
        using oldest [of k e] e gm_in_set_get [OF wf e(1)] st True
        by (auto simp: evictOldest_def Let_def dest: gm_get_in_set)
    qed
  qed
qed

lemma evictOldest_wf [inv_intros]: "gm_wf es \<Longrightarrow> gm_wf (evictOldest now mx es)"
  by (rule evictOldest_cases [of es now mx]) (simp_all add: gm_wf_filter gm.wf_del)

lemma evictOldest_subset: "gm_wf es \<Longrightarrow> set (evictOldest now mx es) \<subseteq> set es"
  by (rule evictOldest_cases [of es now mx]) (auto simp: gm_filter_def gm_set_del)

text \<open>Eviction from a map one above its limit restores the limit.\<close>

lemma evictOldest_bound:
  assumes "gm_wf es" "int (gm_len es) \<le> mx + 1" "0 \<le> mx" "[] \<notin> fst ` set es"
  shows "int (gm_len (evictOldest now mx es)) \<le> mx"
  using assms(1)
proof (cases rule: evictOldest_cases [of es now mx])
  case expired
  then show ?thesis using assms by auto
next
  case (oldest k e)
  let ?live = "gm_filter (\<lambda>k e. \<not> ce_ExpiresAt e < now) es"
  have "gm_len (gm_del k ?live) = gm_len ?live - 1"
    using oldest(2) assms(1) by (simp add: gm.len_del gm_wf_filter)
  moreover have "int (gm_len ?live) \<le> mx + 1" using gm_len_filter [of _ es] assms(2) by (smt (verit) zle_int)
  ultimately show ?thesis unfolding oldest(4) using assms(3) by linarith
qed

text \<open>An entry newer than every other one survives, unless it is already expired.\<close>

lemma evictOldest_newest:
  assumes "gm_wf es" "gm_get es k = Some e" "now \<le> ce_ExpiresAt e" "0 < mx"
    and "\<And>k' e'. gm_get es k' = Some e' \<Longrightarrow> k' \<noteq> k \<Longrightarrow> ce_CachedAt e' < ce_CachedAt e"
  shows "gm_get (evictOldest now mx es) k = Some e"
  using assms(1)
proof (cases rule: evictOldest_cases [of es now mx])
  case expired
  then show ?thesis using assms by (simp add: gm_get_filter)
next
  case (oldest k0 e0)
  let ?live = "gm_filter (\<lambda>k e. \<not> ce_ExpiresAt e < now) es"
  have live: "gm_get ?live k = Some e" using assms by (simp add: gm_get_filter)
  show ?thesis
  proof (cases "k = k0")
    case False
    then show ?thesis using oldest(4) live by (simp add: gm.get_del)
  next
    case True
    have "k' = k" if "gm_get ?live k' = Some e'" for k' e'
    proof (rule ccontr)
      assume "k' \<noteq> k"
      moreover have "gm_get es k' = Some e'" using that assms(1) by (auto simp: gm_get_filter split: option.splits if_splits)
      ultimately have "ce_CachedAt e' < ce_CachedAt e" using assms(5) by blast
      then show False using oldest(2,3) that live True by force
    qed
    then have "set ?live \<subseteq> {(k, e)}" using gm_in_set_get [OF gm_wf_filter [OF assms(1)]] live by fastforce
    then have "gm_len ?live \<le> 1"
      using gm_wf_filter [OF assms(1)] card_mono [of "{(k, e)}" "set ?live"]
      by (simp add: gm_len_def gm_wf_def distinct_card distinct_map)
    then have "evictOldest now mx es = ?live" using assms(4) by (simp add: evictOldest_def)
    then show ?thesis using live by simp
  qed
qed


section \<open>Invariant\<close>

text \<open>Every entry is stored under the key of its URL and expires a life time after it was
  stored; the file, where it can be read, holds such entries too.\<close>

definition entries_ok :: "'r cache_codec \<Rightarrow> duration \<Rightarrow> 'r entries \<Rightarrow> bool" where
  "entries_ok cc ttl es \<longleftrightarrow> gm_wf es \<and> gm_len es \<le> 5000 \<and>
     (\<forall>(k, e) \<in> set es. k = urlKey (cc_sha cc) (ce_URL e) \<and> ce_ExpiresAt e = ce_CachedAt e + ttl)"

definition file_ok :: "'r cache_codec \<Rightarrow> duration \<Rightarrow> string option \<Rightarrow> bool" where
  "file_ok cc ttl file \<longleftrightarrow> (\<forall>data es. file = Some data \<longrightarrow> cc_dec cc data = Some es \<longrightarrow> entries_ok cc ttl es)"

definition cache_inv :: "'r cache_codec \<Rightarrow> 'r cache \<Rightarrow> bool" where
  "cache_inv cc c \<longleftrightarrow> c_maxSize c = 5000 \<and> entries_ok cc (c_ttl c) (c_entries c) \<and> file_ok cc (c_ttl c) (c_file c)"

text \<open>The laws of the codec and the digest that the invariant rests on: decoding gives back
  what was encoded, up to the order of the keys, and digests are not empty. A failed write
  leaves no file, the old one, or one that does not decode.\<close>

definition codec_ok :: "'r cache_codec \<Rightarrow> bool" where
  "codec_ok cc \<longleftrightarrow> (\<forall>s. cc_sha cc s \<noteq> '''') \<and>
     (\<forall>es data. gm_wf es \<longrightarrow> cc_enc cc es = Some data \<longrightarrow> (\<exists>es'. cc_dec cc data = Some es' \<and> mset es' = mset es))"

definition write_sane :: "'r cache_codec \<Rightarrow> string option \<Rightarrow> write_outcome \<Rightarrow> bool" where
  "write_sane cc file w \<longleftrightarrow>
     (case w of WriteOk \<Rightarrow> True | WriteFailed None \<Rightarrow> True | WriteFailed (Some d) \<Rightarrow> cc_dec cc d = None \<or> file = Some d)"

lemma entries_ok_sub:
  "entries_ok cc ttl es \<Longrightarrow> gm_wf es' \<Longrightarrow> set es' \<subseteq> set es \<Longrightarrow> entries_ok cc ttl es'"
proof -
  assume ok: "entries_ok cc ttl es" and wf: "gm_wf es'" and sub: "set es' \<subseteq> set es"
  have "gm_len es' \<le> gm_len es"
    using ok wf card_mono [OF _ sub] by (simp add: entries_ok_def gm_len_def gm_wf_def distinct_map distinct_card)
  then show ?thesis using ok wf sub by (auto simp: entries_ok_def)
qed

lemma gm_filter_subset: "set (gm_filter P m) \<subseteq> set m"
  by (auto simp: gm_filter_def)

lemma entries_ok_filter: "entries_ok cc ttl es \<Longrightarrow> entries_ok cc ttl (gm_filter P es)"
  by (metis entries_ok_sub entries_ok_def gm_wf_filter gm_filter_subset)

lemma entries_ok_perm: "entries_ok cc ttl es \<Longrightarrow> mset es' = mset es \<Longrightarrow> entries_ok cc ttl es'"
  by (metis entries_ok_sub entries_ok_def gm_perm_wf mset_eq_setD order_refl)

lemma entries_ok_empty [simp]: "entries_ok cc ttl []"
  by (simp add: entries_ok_def gm_wf_def gm_len_def)

lemma persist_inv [inv_intros]:
  assumes "cache_inv cc c" "codec_ok cc" "write_sane cc (c_file c) w"
  shows "cache_inv cc (persistLocked cc w now c)"
proof (cases "c_path c = '''' \<or> cc_enc cc (gm_filter (\<lambda>k e. now < ce_ExpiresAt e) (c_entries c)) = None")
  case True
  then show ?thesis using assms(1) by (auto simp: persistLocked_def)
next
  case False
  let ?es = "gm_filter (\<lambda>k e. now < ce_ExpiresAt e) (c_entries c)"
  obtain data where enc: "cc_enc cc ?es = Some data" using False by auto
  have ok: "entries_ok cc (c_ttl c) ?es" using assms(1) by (simp add: cache_inv_def entries_ok_filter)
  obtain es' where dec: "cc_dec cc data = Some es'" "mset es' = mset ?es"
    using assms(2) enc ok unfolding codec_ok_def entries_ok_def by blast
  have "file_ok cc (c_ttl c) (write_file w data)"
    using assms(1,3) dec entries_ok_perm [OF ok dec(2)]
    by (auto simp: file_ok_def write_file_def write_sane_def cache_inv_def split: write_outcome.splits option.splits)
  then show ?thesis using assms(1) False enc by (simp add: persistLocked_def cache_inv_def)
qed

lemma persist_if_inv [inv_intros]:
  "cache_inv cc c \<Longrightarrow> codec_ok cc \<Longrightarrow> write_sane cc (c_file c) w \<Longrightarrow> cache_inv cc (if P then persistLocked cc w now c else c)"
  by (simp add: persist_inv)

lemma persist_entries [simp]: "c_entries (persistLocked cc w now c) = c_entries c"
  by (simp add: persistLocked_def split: option.splits)

lemma persist_others [simp]:
  "c_ttl (persistLocked cc w now c) = c_ttl c" "c_path (persistLocked cc w now c) = c_path c"
  "c_maxSize (persistLocked cc w now c) = c_maxSize c"
  by (simp_all add: persistLocked_def split: option.splits)

lemma cache_sel:
  "c_entries (c\<lparr>c_entries := es\<rparr>) = es" "c_ttl (c\<lparr>c_entries := es\<rparr>) = c_ttl c"
  "c_maxSize (c\<lparr>c_entries := es\<rparr>) = c_maxSize c" "c_file (c\<lparr>c_entries := es\<rparr>) = c_file c"
  by simp_all

lemma put_entries_ok:
  assumes "entries_ok cc ttl es" "k = urlKey (cc_sha cc) (ce_URL e)" "ce_ExpiresAt e = ce_CachedAt e + ttl" "codec_ok cc"
    and "es' = gm_put k e es" "es'' = (if int (gm_len es') > 5000 then evictOldest now 5000 es' else es')"
  shows "entries_ok cc ttl es''"
proof -
  have wf: "gm_wf es'" and len: "int (gm_len es') \<le> 5001"
    using assms(1,5) gm.len_put_le [of es k e] by (auto simp: entries_ok_def gm.wf_put)
  have mem: "\<forall>(k, e) \<in> set es'. k = urlKey (cc_sha cc) (ce_URL e) \<and> ce_ExpiresAt e = ce_CachedAt e + ttl"
    using assms(1,2,3,5) by (auto simp: entries_ok_def gm_set_put)
  have ne: "[] \<notin> fst ` set es'"
    using mem assms(4) by (force simp: urlKey_def codec_ok_def)
  have "gm_wf es''" "set es'' \<subseteq> set es'"
    using evictOldest_wf [OF wf] evictOldest_subset [OF wf] wf assms(6) by simp_all
  moreover have "gm_len es'' \<le> 5000"
    using evictOldest_bound [OF wf, of 5000 now] len ne assms(6) by auto
  ultimately show ?thesis using mem by (auto simp: entries_ok_def)
qed

lemma Set_inv [inv_intros]:
  assumes "cache_inv cc c" "codec_ok cc" "write_sane cc (c_file c) w"
  shows "cache_inv cc (fst (cache_Set cc w now now1 now2 url result ua c))"
proof -
  let ?e = "\<lparr>ce_URL = url, ce_Result = result, ce_CachedAt = now, ce_ExpiresAt = now + c_ttl c, ce_UserAgent = ua\<rparr>"
  let ?es = "gm_put (urlKey (cc_sha cc) url) ?e (c_entries c)"
  let ?es' = "if int (gm_len ?es) > 5000 then evictOldest now1 5000 ?es else ?es"
  have "entries_ok cc (c_ttl c) ?es'"
    by (rule put_entries_ok [OF _ _ _ assms(2) refl refl]) (use assms(1) in \<open>simp_all add: cache_inv_def\<close>)
  then have "cache_inv cc (c\<lparr>c_entries := ?es'\<rparr>)"
    using assms(1) by (simp only: cache_inv_def cache_sel)
  then have "cache_inv cc (if c_path c \<noteq> '''' then persistLocked cc w now2 (c\<lparr>c_entries := ?es'\<rparr>) else c\<lparr>c_entries := ?es'\<rparr>)"
    by (rule persist_if_inv) (use assms in simp_all)
  moreover have "c_maxSize c = 5000" using assms(1) by (simp add: cache_inv_def)
  ultimately show ?thesis by (simp only: cache_Set_def Let_def fst_conv)
qed

lemma Get_inv [inv_intros]: "cache_inv cc c \<Longrightarrow> cache_inv cc (snd (Get cc now url c))"
  by (auto simp: Get_def cache_inv_def split: option.splits)

lemma Clear_inv [inv_intros]:
  assumes "cache_inv cc c" "codec_ok cc" "write_sane cc (c_file c) w"
  shows "cache_inv cc (fst (Clear cc w now c))"
  unfolding Clear_def Let_def fst_conv
  by (rule persist_if_inv) (use assms in \<open>simp_all add: cache_inv_def\<close>)

lemma Cleanup_inv [inv_intros]:
  assumes "cache_inv cc c" "codec_ok cc" "write_sane cc (c_file c) w"
  shows "cache_inv cc (snd (CleanupExpired cc w now now1 c))"
  unfolding CleanupExpired_def Let_def snd_conv
  by (rule persist_if_inv) (use assms in \<open>simp_all add: cache_inv_def entries_ok_filter\<close>)


section \<open>Restart\<close>

lemma load_fold:
  assumes "gm_wf es"
  shows "gm_wf acc \<Longrightarrow> gm_get (foldl (\<lambda>m (k, e). if P e then gm_put k e m else m) acc es) k =
      (case gm_get (gm_filter (\<lambda>k e. P e) es) k of Some e \<Rightarrow> Some e | None \<Rightarrow> gm_get acc k)"
    and "gm_wf acc \<Longrightarrow> gm_wf (foldl (\<lambda>m (k, e). if P e then gm_put k e m else m) acc es)"
    and "gm_wf acc \<Longrightarrow> set (foldl (\<lambda>m (k, e). if P e then gm_put k e m else m) acc es) \<subseteq> set acc \<union> set es"
  using assms
proof (induction es arbitrary: acc)
  case Nil
  { case 1 then show ?case by (simp add: gm_filter_def gm_get_def) }
  { case 2 then show ?case by simp }
  { case 3 then show ?case by simp }
next
  case (Cons x es)
  obtain k' e' where x: "x = (k', e')" by (cases x)
  have tl: "gm_wf es" "k' \<notin> fst ` set es" if "gm_wf (x # es)" using that x by (simp_all add: gm_wf_def)
  have none: "gm_get (gm_filter (\<lambda>k e. P e) es) k' = None" if "gm_wf (x # es)"
    using tl [OF that] gm_get_in_set [of "gm_filter (\<lambda>k e. P e) es" k'] gm_filter_subset [of "\<lambda>k e. P e" es]
    by (cases "gm_get (gm_filter (\<lambda>k e. P e) es) k'") force+
  { case 1
    then show ?case
      using Cons.IH(1) [of "if P e' then gm_put k' e' acc else acc"] x tl none
      by (auto simp: gm_filter_def gm_get_def gm.wf_put gm.get_put [unfolded gm_get_def] split: option.splits) }
  { case 2
    then show ?case using Cons.IH(2) [of "if P e' then gm_put k' e' acc else acc"] x tl by (auto simp: gm.wf_put) }
  { case 3
    then show ?case
      using Cons.IH(3) [of "if P e' then gm_put k' e' acc else acc"] x tl
      by (auto simp: gm.wf_put gm_set_put split: if_splits) }
qed

lemma load_entries:
  assumes "c_entries c = []" "c_path c \<noteq> ''''" "c_file c = Some data" "cc_dec cc data = Some es" "gm_wf es"
  shows "gm_wf (c_entries (cache_load cc now c))" "set (c_entries (cache_load cc now c)) \<subseteq> set es"
    and "gm_get (c_entries (cache_load cc now c)) k = gm_get (gm_filter (\<lambda>k e. now < ce_ExpiresAt e) es) k"
  using load_fold [OF assms(5), of "[]" "\<lambda>e. now < ce_ExpiresAt e"] assms
  by (auto simp: cache_load_def gm.wf_empty gm.get_empty split: option.splits)

lemma NewCache_inv [inv_intros]:
  assumes "file_ok cc ttl file"
  shows "cache_inv cc (NewCache cc now ttl path file)"
proof -
  let ?c = "\<lparr>c_entries = [], c_ttl = ttl, c_path = path, c_maxSize = 5000, c_hits = 0, c_misses = 0, c_file = file\<rparr>"
  have base: "cache_inv cc ?c" using assms by (simp add: cache_inv_def)
  show ?thesis
  proof (cases "path \<noteq> '''' \<and> (\<exists>data es. file = Some data \<and> cc_dec cc data = Some es)")
    case False
    then have "NewCache cc now ttl path file = ?c" by (auto simp: NewCache_def cache_load_def Let_def split: option.splits)
    then show ?thesis using base by simp
  next
    case True
    then obtain data es where f: "file = Some data" "cc_dec cc data = Some es" by blast
    have ok: "entries_ok cc ttl es" using assms f by (simp add: file_ok_def)
    have "entries_ok cc ttl (c_entries (cache_load cc now ?c))"
      by (rule entries_ok_sub [OF ok]) (use load_entries [of ?c data cc es now] f True ok in \<open>simp_all add: entries_ok_def\<close>)
    then show ?thesis using base True f by (simp add: NewCache_def cache_inv_def cache_load_def)
  qed
qed

section \<open>The life of a cache\<close>

text \<open>One operation, a restart of the process on the file the cache left, or a change of the
  iteration order.\<close>

inductive cache_step :: "'r cache_codec \<Rightarrow> 'r cache \<Rightarrow> 'r cache \<Rightarrow> bool" for cc :: "'r cache_codec" where
  step_Get: "cache_step cc c (snd (Get cc now url c))"
| step_Set: "write_sane cc (c_file c) w \<Longrightarrow> cache_step cc c (fst (cache_Set cc w now now1 now2 url result ua c))"
| step_Clear: "write_sane cc (c_file c) w \<Longrightarrow> cache_step cc c (fst (Clear cc w now c))"
| step_Cleanup: "write_sane cc (c_file c) w \<Longrightarrow> cache_step cc c (snd (CleanupExpired cc w now now1 c))"
| step_Restart: "cache_step cc c (NewCache cc now (c_ttl c) (c_path c) (c_file c))"
| step_reorder: "mset es = mset (c_entries c) \<Longrightarrow> cache_step cc c (c\<lparr>c_entries := es\<rparr>)"

inductive_cases cache_stepE: "cache_step cc c c'"

lemma cache_step_inv: "cache_step cc c c' \<Longrightarrow> codec_ok cc \<and> cache_inv cc c \<Longrightarrow> codec_ok cc \<and> cache_inv cc c'"
proof (induction rule: cache_step.induct)
  case (step_Restart c now)
  then show ?case by (auto simp: cache_inv_def [of cc c] intro: NewCache_inv)
next
  case (step_reorder es c)
  then show ?case by (auto simp: cache_inv_def intro: entries_ok_perm)
qed (auto intro: inv_intros)

interpretation cache_life: kept_by_steps "cache_step cc" "\<lambda>c. codec_ok cc \<and> cache_inv cc c" for cc :: "'r cache_codec"
  by unfold_locales (rule cache_step_inv)

lemma cache_reachable_inv:
  "codec_ok cc \<Longrightarrow> (cache_step cc)\<^sup>*\<^sup>* (NewCache cc now ttl path None) c \<Longrightarrow> cache_inv cc c"
  using cache_life.run_keeps [of cc "NewCache cc now ttl path None" c] NewCache_inv [of cc ttl None now path]
  by (simp add: file_ok_def)


section \<open>Look-up after an operation\<close>

lemma Get_entry: "fst (Get cc now url c) = Some e \<longleftrightarrow>
    gm_get (c_entries c) (urlKey (cc_sha cc) url) = Some e \<and> now \<le> ce_ExpiresAt e"
  by (auto simp: Get_def split: option.splits)

lemma Get_same_lookup:
  "gm_get (c_entries c) (urlKey (cc_sha cc) url) = gm_get (c_entries c') (urlKey (cc_sha cc) url) \<Longrightarrow>
    fst (Get cc now url c) = fst (Get cc now url c')"
  by (auto simp: Get_def split: option.splits)

lemma Set_lookup:
  assumes "cache_inv cc c" "now1 \<le> now + c_ttl c"
    and "gm_get (c_entries c) (urlKey (cc_sha cc) url) \<noteq> None \<or> gm_len (c_entries c) < 5000 \<or>
         (\<forall>(k, e) \<in> set (c_entries c). ce_CachedAt e < now)"
  shows "gm_get (c_entries (fst (cache_Set cc w now now1 now2 url result ua c))) (urlKey (cc_sha cc) url) =
     Some \<lparr>ce_URL = url, ce_Result = result, ce_CachedAt = now, ce_ExpiresAt = now + c_ttl c, ce_UserAgent = ua\<rparr>"
proof -
  let ?k = "urlKey (cc_sha cc) url"
  let ?e = "\<lparr>ce_URL = url, ce_Result = result, ce_CachedAt = now, ce_ExpiresAt = now + c_ttl c, ce_UserAgent = ua\<rparr>"
  let ?es = "gm_put ?k ?e (c_entries c)"
  have wf: "gm_wf (c_entries c)" and len: "gm_len (c_entries c) \<le> 5000" and mx: "c_maxSize c = 5000"
    using assms(1) by (auto simp: cache_inv_def entries_ok_def)
  have put: "gm_get ?es ?k = Some ?e" by (simp add: gm.get_put)
  have ev: "gm_get (if int (gm_len ?es) > 5000 then evictOldest now1 5000 ?es else ?es) ?k = Some ?e"
  proof (cases "int (gm_len ?es) > 5000")
    case True
    then have "\<forall>(k, e) \<in> set (c_entries c). ce_CachedAt e < now"
      using assms(3) len gm.len_put [OF wf, of ?k ?e] by (auto split: if_splits)
    then have "\<And>k' e'. gm_get ?es k' = Some e' \<Longrightarrow> k' \<noteq> ?k \<Longrightarrow> ce_CachedAt e' < ce_CachedAt ?e"
      by (auto simp: gm.get_put dest: gm_get_in_set)
    then show ?thesis using True evictOldest_newest [OF gm.wf_put [OF wf] put, of now1 5000] assms(2) by simp
  qed (use put in simp)
  have es: "c_entries (fst (cache_Set cc w now now1 now2 url result ua c)) =
      (if int (gm_len ?es) > 5000 then evictOldest now1 5000 ?es else ?es)"
    by (simp add: cache_Set_def Let_def mx)
  show ?thesis unfolding es by (rule ev)
qed

lemma Set_persists:
  assumes "c_path c \<noteq> ''''" "c' = fst (cache_Set cc w now now1 now2 url result ua c)"
  obtains es where "c' = persistLocked cc w now2 (c\<lparr>c_entries := es\<rparr>)" "c_entries c' = es"
  using assms by (simp add: cache_Set_def Let_def)

section \<open>Properties\<close>

text \<open>C12: The cache stays within its limit. Whatever sequence of look-ups, stores, clearings,
  clean-ups, restarts and map reorderings a cache goes through, from a start without a file,
  it holds at most 5000 entries, each under the digest of its own URL and with an expiry one
  life time after it was stored.\<close>

theorem cache_bounded:
  assumes "codec_ok cc" "(cache_step cc)\<^sup>*\<^sup>* (NewCache cc now ttl path None) c"
  shows "gm_len (c_entries c) \<le> 5000 \<and>
     (\<forall>k e. gm_get (c_entries c) k = Some e \<longrightarrow>
        k = urlKey (cc_sha cc) (ce_URL e) \<and> ce_ExpiresAt e = ce_CachedAt e + c_ttl c)"
  using cache_reachable_inv [OF assms] by (auto simp: cache_inv_def entries_ok_def dest: gm_get_in_set)

definition no_codec :: "nat cache_codec" where
  "no_codec = \<lparr>cc_sha = (\<lambda>s. CHR ''h'' # s), cc_enc = (\<lambda>es. None), cc_dec = (\<lambda>d. None)\<rparr>"

lemma no_codec_ok: "codec_ok no_codec"
  by (simp add: codec_ok_def no_codec_def)

theorem cache_bounded_witness:
  "\<exists>c. (cache_step no_codec)\<^sup>*\<^sup>* (NewCache no_codec 0 10 '''' None) c \<and> gm_len (c_entries c) = 1 \<and>
     gm_len (c_entries c) \<le> 5000"
proof -
  let ?new = "NewCache no_codec 0 10 '''' None"
  let ?c = "fst (cache_Set no_codec WriteOk 1 1 1 ''http://a/'' 7 ''ua'' ?new)"
  have "cache_step no_codec ?new ?c" by (rule step_Set) (simp add: write_sane_def)
  then have run: "(cache_step no_codec)\<^sup>*\<^sup>* ?new ?c" by blast
  moreover have "gm_len (c_entries ?c) = 1" by code_simp
  ultimately show ?thesis using cache_bounded [OF no_codec_ok run] by blast
qed

text \<open>C11: A stored result is found again until it expires. After \<open>Set\<close>, a look-up of any URL
  with the same key (so also with other trailing slashes) up to the expiry returns exactly
  the stored result. This needs that the cache was not full, or that the URL was already in
  it, or that every other entry is older.\<close>

theorem cache_get_after_set:
  assumes "cache_inv cc c" "now1 \<le> now + c_ttl c" "t \<le> now + c_ttl c" "normalizeURL url' = normalizeURL url"
    and "gm_get (c_entries c) (urlKey (cc_sha cc) url) \<noteq> None \<or> gm_len (c_entries c) < 5000 \<or>
         (\<forall>(k, e) \<in> set (c_entries c). ce_CachedAt e < now)"
  shows "fst (Get cc t url' (fst (cache_Set cc w now now1 now2 url result ua c))) =
     Some \<lparr>ce_URL = url, ce_Result = result, ce_CachedAt = now, ce_ExpiresAt = now + c_ttl c, ce_UserAgent = ua\<rparr>"
  unfolding Get_entry using Set_lookup [OF assms(1,2,5)] assms(3,4) by (simp add: urlKey_def)

theorem cache_get_after_set_witness:
  "fst (Get no_codec 9 ''http://a'' (fst (cache_Set no_codec WriteOk 1 1 1 ''http://a//'' 7 ''ua'' (NewCache no_codec 0 10 '''' None)))) =
     Some \<lparr>ce_URL = ''http://a//'', ce_Result = 7, ce_CachedAt = 1, ce_ExpiresAt = 11, ce_UserAgent = ''ua''\<rparr>"
proof -
  let ?c = "NewCache no_codec 0 10 '''' None"
  have inv: "cache_inv no_codec ?c" by (rule NewCache_inv) (simp add: file_ok_def)
  have ttl: "c_ttl ?c = 10" "gm_len (c_entries ?c) = 0" by (simp_all add: NewCache_def gm_len_def)
  have "normalizeURL ''http://a'' = normalizeURL ''http://a//''" by code_simp
  then show ?thesis using cache_get_after_set [OF inv, of 1 1 9 "''http://a''" "''http://a//''"] ttl by simp
qed

text \<open>Expired entries are never served and dropping them is invisible. A look-up returns an
  entry only up to its expiry; and after \<open>CleanupExpired\<close> at time \<open>now\<close>, every look-up at or
  after \<open>now\<close> gives what it would have given without the clean-up.\<close>

theorem cache_expiry:
  assumes "cache_inv cc c" "now \<le> t"
  shows "(\<forall>e. fst (Get cc t url c) = Some e \<longrightarrow> t \<le> ce_ExpiresAt e) \<and>
     fst (Get cc t url (snd (CleanupExpired cc w now now1 c))) = fst (Get cc t url c) \<and>
     gm_len (c_entries (snd (CleanupExpired cc w now now1 c))) + fst (CleanupExpired cc w now now1 c) = gm_len (c_entries c)"
proof -
  let ?live = "gm_filter (\<lambda>k e. \<not> ce_ExpiresAt e < now) (c_entries c)"
  have es: "c_entries (snd (CleanupExpired cc w now now1 c)) = ?live" by (simp add: CleanupExpired_def Let_def)
  have wf: "gm_wf (c_entries c)" using assms(1) by (simp add: cache_inv_def entries_ok_def)
  have "fst (Get cc t url (snd (CleanupExpired cc w now now1 c))) = fst (Get cc t url c)"
    using assms(2) by (auto simp: Get_def es gm_get_filter [OF wf] split: option.splits)
  moreover have "gm_len ?live + fst (CleanupExpired cc w now now1 c) = gm_len (c_entries c)"
    using sum_length_filter_compl [of "\<lambda>(k, e). ce_ExpiresAt e < now" "c_entries c"]
    by (simp add: CleanupExpired_def Let_def gm_len_def gm_filter_def case_prod_unfold)
  ultimately show ?thesis using es by (simp add: Get_entry)
qed

theorem cache_expiry_witness:
  "cache_inv no_codec (NewCache no_codec 0 10 '''' None) \<and>
   fst (Get no_codec 5 ''u'' (snd (CleanupExpired no_codec WriteOk 4 4 (NewCache no_codec 0 10 '''' None)))) =
   fst (Get no_codec 5 ''u'' (NewCache no_codec 0 10 '''' None))"
proof -
  have "cache_inv no_codec (NewCache no_codec 0 10 '''' None)" by (rule NewCache_inv) (simp add: file_ok_def)
  then show ?thesis using cache_expiry [of no_codec "NewCache no_codec 0 10 '''' None" 4 5 "''u''" WriteOk 4] by simp
qed

text \<open>C13: Restart round trip. When the file write succeeds, a process started on the file
  after \<open>Set\<close> answers every look-up before the entry's expiry as the old process would have:
  with the codec's round trip, an entry is returned after the restart exactly when it was in
  the cache and neither expired at the write nor at the load nor at the look-up.\<close>

theorem cache_restart:
  assumes "cache_inv cc c" "codec_ok cc" "c_path c \<noteq> ''''"
    and "c' = fst (cache_Set cc WriteOk now now1 now2 url result ua c)"
    and "cc_enc cc (gm_filter (\<lambda>k e. now2 < ce_ExpiresAt e) (c_entries c')) \<noteq> None"
  shows "fst (Get cc t u (NewCache cc start ttl (c_path c') (c_file c'))) =
     (case gm_get (c_entries c') (urlKey (cc_sha cc) u) of
        None \<Rightarrow> None
      | Some e \<Rightarrow> if now2 < ce_ExpiresAt e \<and> start < ce_ExpiresAt e \<and> t \<le> ce_ExpiresAt e then Some e else None)"
proof -
  let ?es = "gm_filter (\<lambda>k e. now2 < ce_ExpiresAt e) (c_entries c')"
  obtain data where enc: "cc_enc cc ?es = Some data" using assms(5) by auto
  obtain es where es: "c' = persistLocked cc WriteOk now2 (c\<lparr>c_entries := es\<rparr>)" "c_entries c' = es"
    using Set_persists [OF assms(3,4)] by blast
  have fl: "c_file c' = Some data" "c_path c' = c_path c"
    using assms(3) enc unfolding es(2) unfolding es(1) by (simp_all add: persistLocked_def write_file_def)
  have "cache_inv cc c'" using Set_inv [OF assms(1,2), of WriteOk] assms(4) by (simp add: write_sane_def)
  then have wf: "gm_wf (c_entries c')" by (simp add: cache_inv_def entries_ok_def)
  have wfe: "gm_wf ?es" using wf by (rule gm_wf_filter)
  obtain es' where dec: "cc_dec cc data = Some es'" "mset es' = mset ?es"
    using assms(2) enc wfe unfolding codec_ok_def by blast
  have wf': "gm_wf es'" using gm_perm_wf [OF dec(2)] wfe by simp
  let ?new = "\<lparr>c_entries = [], c_ttl = ttl, c_path = c_path c', c_maxSize = 5000, c_hits = 0, c_misses = 0, c_file = c_file c'\<rparr>"
  have new: "NewCache cc start ttl (c_path c') (c_file c') = cache_load cc start ?new"
    using assms(3) fl by (simp add: NewCache_def Let_def)
  have "gm_get (c_entries (cache_load cc start ?new)) k = gm_get (gm_filter (\<lambda>k e. start < ce_ExpiresAt e) es') k" for k
    using load_entries(3) [of ?new data cc es' start k] fl dec wf' assms(3) by simp
  then show ?thesis
    unfolding new by (auto simp: Get_def gm_get_filter [OF wf'] gm_perm_get [OF wf' dec(2)] gm_get_filter [OF wf] split: option.splits)
qed


definition one_entry :: "nat entries" where
  "one_entry = [(''ha'', \<lparr>ce_URL = ''a/'', ce_Result = 7, ce_CachedAt = 1, ce_ExpiresAt = 11, ce_UserAgent = ''ua''\<rparr>)]"

definition one_codec :: "nat cache_codec" where
  "one_codec = \<lparr>cc_sha = (\<lambda>s. CHR ''h'' # s), cc_enc = (\<lambda>es. if es = one_entry then Some ''x'' else None),
     cc_dec = (\<lambda>d. if d = ''x'' then Some one_entry else None)\<rparr>"

theorem cache_restart_witness:
  "fst (Get one_codec 9 ''a'' (NewCache one_codec 5 10 ''cache.json''
     (c_file (fst (cache_Set one_codec WriteOk 1 1 1 ''a/'' 7 ''ua'' (NewCache one_codec 0 10 ''cache.json'' None)))))) =
   Some \<lparr>ce_URL = ''a/'', ce_Result = 7, ce_CachedAt = 1, ce_ExpiresAt = 11, ce_UserAgent = ''ua''\<rparr>"
proof -
  let ?c = "NewCache one_codec 0 10 ''cache.json'' None"
  let ?d = "fst (cache_Set one_codec WriteOk 1 1 1 ''a/'' 7 ''ua'' ?c)"
  have ok: "codec_ok one_codec" by (simp add: codec_ok_def one_codec_def)
  have inv: "cache_inv one_codec ?c" by (rule NewCache_inv) (simp add: file_ok_def)
  have es: "c_entries ?d = one_entry" "c_path ?d = ''cache.json''" by code_simp+
  have enc: "cc_enc one_codec (gm_filter (\<lambda>k e. 1 < ce_ExpiresAt e) (c_entries ?d)) \<noteq> None"
    unfolding es by code_simp
  have key: "gm_get one_entry (urlKey (cc_sha one_codec) ''a'') =
      Some \<lparr>ce_URL = ''a/'', ce_Result = 7, ce_CachedAt = 1, ce_ExpiresAt = 11, ce_UserAgent = ''ua''\<rparr>" by code_simp
  have "c_path ?c \<noteq> ''''" by code_simp
  from cache_restart [OF inv ok this refl enc, of 9 "''a''" 5 10] show ?thesis unfolding es key by simp
qed

end
