(* ===== verification/Exchange_Sort.thy ===== *)
theory Exchange_Sort
  imports Prelude
begin

text \<open>
  The in-place exchange sort that the program writes out twice, in
  \<^verbatim>\<open>queue.JobQueue.ListJobs\<close> and in \<^verbatim>\<open>scanner.FindContactPages\<close>:
  \<^verbatim>\<open>
    for i := 0; i < len(xs); i++ {
        for j := i + 1; j < len(xs); j++ {
            if less(xs[i], xs[j]) { xs[i], xs[j] = xs[j], xs[i] } } }
  \<close>
  \<open>xsort\<close> is the pair of loops over a list indexed by \<open>i\<close> and \<open>j\<close>. The locale
  \<open>rank_order\<close> is what the two callers promise of their comparison (it compares a rank in a
  linear order), and inside it the loops are shown to permute the list into descending rank.
\<close>

definition swap :: "nat \<Rightarrow> nat \<Rightarrow> 'a list \<Rightarrow> 'a list" where
  "swap i j xs = xs[i := xs ! j, j := xs ! i]"

function xsort_inner :: "('a \<Rightarrow> 'a \<Rightarrow> bool) \<Rightarrow> nat \<Rightarrow> nat \<Rightarrow> 'a list \<Rightarrow> 'a list" where
  "xsort_inner lt i j xs =
     (if j < length xs
      then xsort_inner lt i (Suc j) (if lt (xs ! i) (xs ! j) then swap i j xs else xs)
      else xs)"
  by pat_completeness auto
termination
  by (relation "measure (\<lambda>(lt, i, j, xs). length xs - j)") (auto simp: swap_def)

declare xsort_inner.simps [simp del]

lemma length_swap [simp]: "length (swap i j xs) = length xs"
  by (simp add: swap_def)

lemma length_xsort_inner [simp]: "length (xsort_inner lt i j xs) = length xs"
proof (induction lt i j xs rule: xsort_inner.induct)
  case (1 lt i j xs)
  then show ?case by (simp add: xsort_inner.simps [of lt i j xs])
qed

function xsort_outer :: "('a \<Rightarrow> 'a \<Rightarrow> bool) \<Rightarrow> nat \<Rightarrow> 'a list \<Rightarrow> 'a list" where
  "xsort_outer lt i xs =
     (if i < length xs then xsort_outer lt (Suc i) (xsort_inner lt i (Suc i) xs) else xs)"
  by pat_completeness auto
termination
  by (relation "measure (\<lambda>(lt, i, xs). length xs - i)") auto

declare xsort_outer.simps [simp del]

definition xsort :: "('a \<Rightarrow> 'a \<Rightarrow> bool) \<Rightarrow> 'a list \<Rightarrow> 'a list" where
  "xsort lt xs = xsort_outer lt 0 xs"

subsection \<open>Permutation\<close>

lemma mset_swap_idx [simp]: "i < length xs \<Longrightarrow> j < length xs \<Longrightarrow> mset (swap i j xs) = mset xs"
  by (simp add: swap_def mset_swap)

lemma mset_xsort_inner: "i < length xs \<Longrightarrow> mset (xsort_inner lt i j xs) = mset xs"
proof (induction lt i j xs rule: xsort_inner.induct)
  case (1 lt i j xs)
  then show ?case by (simp add: xsort_inner.simps [of lt i j xs])
qed

lemma mset_xsort_outer: "mset (xsort_outer lt i xs) = mset xs"
proof (induction lt i xs rule: xsort_outer.induct)
  case (1 lt i xs)
  then show ?case by (simp add: xsort_outer.simps [of lt i xs] mset_xsort_inner)
qed

lemma mset_xsort [simp]: "mset (xsort lt xs) = mset xs"
  by (simp add: xsort_def mset_xsort_outer)

lemma set_xsort [simp]: "set (xsort lt xs) = set xs"
  by (metis mset_xsort set_mset_mset)

lemma length_xsort [simp]: "length (xsort lt xs) = length xs"
  by (metis mset_xsort size_mset)

subsection \<open>Frame: the inner loop leaves the positions below \<open>i\<close> alone\<close>

lemma nth_swap_other: "k \<noteq> i \<Longrightarrow> k \<noteq> j \<Longrightarrow> swap i j xs ! k = xs ! k"
  by (simp add: swap_def)

lemma xsort_inner_below: "k < i \<Longrightarrow> i < j \<Longrightarrow> xsort_inner lt i j xs ! k = xs ! k"
proof (induction lt i j xs rule: xsort_inner.induct)
  case (1 lt i j xs)
  then show ?case by (auto simp: xsort_inner.simps [of lt i j xs] nth_swap_other)
qed

lemma xsort_inner_tail:
  assumes "i < length xs" "i \<le> d" "d < length xs"
  shows "\<exists>e. i \<le> e \<and> e < length xs \<and> xsort_inner lt i (Suc i) xs ! d = xs ! e"
proof -
  let ?ys = "xsort_inner lt i (Suc i) xs"
  have "take i ?ys = take i xs"
    by (rule nth_take_lemma) (use assms(1) in \<open>auto simp: xsort_inner_below\<close>)
  moreover have "mset ?ys = mset xs" by (rule mset_xsort_inner) (rule assms(1))
  ultimately have "mset (drop i ?ys) = mset (drop i xs)"
    by (metis append_take_drop_id mset_append add_left_cancel)
  moreover have "drop i ?ys ! (d - i) \<in> set (drop i ?ys)"
    using assms by (intro nth_mem) simp
  ultimately have "drop i ?ys ! (d - i) \<in> set (drop i xs)"
    using mset_eq_setD by blast
  then have "?ys ! d \<in> set (drop i xs)" using assms by simp
  then obtain m where "m < length xs - i" "?ys ! d = xs ! (i + m)"
    by (auto simp: in_set_conv_nth)
  then show ?thesis by (intro exI [of _ "i + m"]) simp
qed

subsection \<open>Descending order\<close>

locale rank_order =
  fixes rank :: "'a \<Rightarrow> 'b :: linorder"
    and lt :: "'a \<Rightarrow> 'a \<Rightarrow> bool"
  assumes lt_rank: "lt x y \<longleftrightarrow> rank x < rank y"
begin

lemma swap_keeps_low:
  assumes "i < length xs" "i < j" "j < length xs"
    and "\<And>k. i < k \<Longrightarrow> k < j \<Longrightarrow> rank (xs ! k) \<le> rank (xs ! i)"
    and "xs' = (if lt (xs ! i) (xs ! j) then swap i j xs else xs)"
    and "i < k" "k < Suc j"
  shows "rank (xs' ! k) \<le> rank (xs' ! i)"
  using assms by (cases "k = j") (fastforce simp: lt_rank swap_def less_Suc_eq nth_list_update)+

lemma inner_max:
  assumes "i < length xs" "i < j"
    and "\<And>k. i < k \<Longrightarrow> k < j \<Longrightarrow> rank (xs ! k) \<le> rank (xs ! i)"
    and "i < k" "k < length xs"
  shows "rank (xsort_inner lt i j xs ! k) \<le> rank (xsort_inner lt i j xs ! i)"
  using assms
proof (induction "length xs - j" arbitrary: j xs)
  case 0
  then show ?case by (simp add: xsort_inner.simps [of lt i j xs])
next
  case (Suc n)
  then have j: "j < length xs" by simp
  let ?xs = "if lt (xs ! i) (xs ! j) then swap i j xs else xs"
  have low: "rank (?xs ! k) \<le> rank (?xs ! i)" if "i < k" "k < Suc j" for k
    using swap_keeps_low [of i xs j ?xs k] Suc.prems j that by blast
  have len: "length ?xs = length xs" by simp
  have "rank (xsort_inner lt i (Suc j) ?xs ! k) \<le> rank (xsort_inner lt i (Suc j) ?xs ! i)"
    by (rule Suc.hyps(1)) (use Suc.hyps(2) Suc.prems low in \<open>auto simp: len\<close>)
  then show ?case using j by (simp add: xsort_inner.simps [of lt i j xs])
qed

text \<open>After round \<open>i\<close>: the first \<open>i\<close> positions hold the greatest elements in order.\<close>

lemma outer_sorted:
  assumes "\<And>a b. a < i \<Longrightarrow> a < b \<Longrightarrow> b < length xs \<Longrightarrow> rank (xs ! b) \<le> rank (xs ! a)"
    and "a < b" "b < length xs"
  shows "rank (xsort_outer lt i xs ! b) \<le> rank (xsort_outer lt i xs ! a)"
  using assms
proof (induction "length xs - i" arbitrary: i xs)
  case 0
  then show ?case by (simp add: xsort_outer.simps [of lt i xs])
next
  case (Suc n)
  then have i: "i < length xs" by simp
  let ?ys = "xsort_inner lt i (Suc i) xs"
  have below: "?ys ! c = xs ! c" if "c < i" for c
    using that xsort_inner_below by blast
  have tail: "rank (?ys ! d) \<le> rank (xs ! c)" if "c < i" "i \<le> d" "d < length xs" for c d
  proof -
    obtain e where e: "i \<le> e" "e < length xs" "?ys ! d = xs ! e"
      using xsort_inner_tail [OF i \<open>i \<le> d\<close> \<open>d < length xs\<close>, of lt] by (elim exE conjE)
    have "rank (xs ! e) \<le> rank (xs ! c)"
      by (rule Suc.prems(1)) (use e(1,2) that in auto)
    then show ?thesis by (simp only: e(3))
  qed
  have "rank (?ys ! b) \<le> rank (?ys ! a)" if "a < Suc i" "a < b" "b < length ?ys" for a b
  proof (cases "a = i")
    case True
    then show ?thesis using inner_max [of i xs "Suc i" b] i that by simp
  next
    case False
    then have a: "a < i" using that by simp
    show ?thesis
    proof (cases "b < i")
      case True
      then show ?thesis using a that Suc.prems(1) below by simp
    next
      case False
      then show ?thesis using a that tail [of a b] below by simp
    qed
  qed
  then have "rank (xsort_outer lt (Suc i) ?ys ! b) \<le> rank (xsort_outer lt (Suc i) ?ys ! a)"
    using Suc.hyps(2) Suc.prems(2,3) by (intro Suc.hyps(1)) auto
  then show ?case using i by (simp add: xsort_outer.simps [of lt i xs])
qed

lemma xsort_descending: "sorted_wrt (\<lambda>x y. rank y \<le> rank x) (xsort lt xs)"
  unfolding sorted_wrt_iff_nth_less xsort_def
  by (metis (no_types, lifting) length_xsort not_less_zero outer_sorted xsort_def)

end

end
