(* ===== verification/Queue.thy ===== *)
theory Queue
  imports Scan_Types Hub Cache Exchange_Sort
begin

text \<open>
  The job queue of \<^verbatim>\<open>internal/queue/queue.go\<close>. A \<^verbatim>\<open>*Job\<close> is an index into the list of all
  jobs ever made, the map holds such indices, and the channel \<^verbatim>\<open>pending\<close> (capacity 100) is a
  list of them. Calls of the metrics library and of \<^verbatim>\<open>hub.Publish\<close> are recorded as effects, in
  order. The functions follow the critical sections of the code: \<open>processJob\<close> takes the lock
  twice and runs the scan in between, so it is split at those points, and \<open>queue_step\<close>
  interleaves the sections of all workers, the clean-up goroutine and the callers. The
  scanner is a parameter: each scan may return any result.
\<close>

datatype job_status = StatusPending | StatusRunning | StatusCompleted | StatusFailed

fun status_string :: "job_status \<Rightarrow> string" where
  "status_string StatusPending = ''pending''"
| "status_string StatusRunning = ''running''"
| "status_string StatusCompleted = ''completed''"
| "status_string StatusFailed = ''failed''"

text \<open>The order in which a job goes through its statuses; the two final ones are not comparable.\<close>

instantiation job_status :: order
begin

definition less_eq_job_status :: "job_status \<Rightarrow> job_status \<Rightarrow> bool" where
  "less_eq_job_status s t \<longleftrightarrow> s = t \<or> s = StatusPending \<or> (s = StatusRunning \<and> t \<noteq> StatusPending)"

definition less_job_status :: "job_status \<Rightarrow> job_status \<Rightarrow> bool" where
  "less_job_status s t \<longleftrightarrow> s \<le> t \<and> \<not> t \<le> s"

instance
  by intro_classes (auto simp: less_eq_job_status_def less_job_status_def)

end

lemma status_steps [simp]:
  "StatusPending \<le> s" "StatusRunning \<le> s \<longleftrightarrow> s \<noteq> StatusPending"
  by (auto simp: less_eq_job_status_def)

record job =
  j_ID :: string
  j_URL :: string
  j_Status :: job_status
  j_CreatedAt :: time
  j_StartedAt :: "time option"
  j_FinishedAt :: "time option"
  j_Duration :: string
  j_Error :: string
  j_Result :: "scan_result option"
  j_FromCache :: bool
  j_UA :: string

record job_queue =
  q_jobs :: "(string, addr) gomap"
  q_heap :: "job list"
  q_pending :: "addr list"
  q_pending_closed :: bool
  q_stopped :: bool
  q_workers :: nat
  q_maxJobs :: nat
  q_resultTTL :: duration
  q_cacheTTL :: duration

datatype effect = Metric metric_op | Pub string event

definition pending_cap :: nat where
  "pending_cap = 100"

definition NewJobQueue :: "int \<Rightarrow> job_queue" where
  "NewJobQueue workers =
     \<lparr>q_jobs = [], q_heap = [], q_pending = [], q_pending_closed = False, q_stopped = False,
      q_workers = (if workers \<le> 0 then 2 else nat workers), q_maxJobs = 1000,
      q_resultTTL = 24 * hour, q_cacheTTL = 24 * hour\<rparr>"

definition job_at :: "job_queue \<Rightarrow> addr \<Rightarrow> job" where
  "job_at q a = q_heap q ! a"

definition set_job :: "addr \<Rightarrow> job \<Rightarrow> job_queue \<Rightarrow> job_queue" where
  "set_job a j q = q\<lparr>q_heap := (q_heap q)[a := j]\<rparr>"

section \<open>Clean-up\<close>

definition finished :: "job \<Rightarrow> bool" where
  "finished j \<longleftrightarrow> j_Status j = StatusCompleted \<or> j_Status j = StatusFailed"

text \<open>The loop variables \<^verbatim>\<open>oldest\<close> and \<^verbatim>\<open>oldestID\<close>.\<close>

definition oldest_job_step :: "job_queue \<Rightarrow> addr option \<times> string \<Rightarrow> string \<times> addr \<Rightarrow> addr option \<times> string" where
  "oldest_job_step q st ia =
     (let (oldest, oldestID) = st; (i, a) = ia in
      if finished (job_at q a) \<and>
         (case oldest of None \<Rightarrow> True | Some b \<Rightarrow> j_CreatedAt (job_at q a) < j_CreatedAt (job_at q b))
      then (Some a, i) else st)"

definition cleanupLocked :: "time \<Rightarrow> job_queue \<Rightarrow> job_queue" where
  "cleanupLocked now q =
     (let cutoff = now - q_resultTTL q;
          jobs = gm_filter (\<lambda>i a. \<not> (finished (job_at q a) \<and> j_CreatedAt (job_at q a) < cutoff)) (q_jobs q)
      in if gm_len jobs \<ge> q_maxJobs q then
           let (oldest, oldestID) = foldl (oldest_job_step q) (None, '''') jobs
           in q\<lparr>q_jobs := (if oldestID \<noteq> '''' then gm_del oldestID jobs else jobs)\<rparr>
         else q\<lparr>q_jobs := jobs\<rparr>)"

section \<open>Operations of the callers\<close>

definition progress_event :: "string \<Rightarrow> int \<Rightarrow> string \<Rightarrow> event" where
  "progress_event status progress msg =
     \<lparr>e_Type = ''progress'', e_JobID = '''', e_Status = status, e_Progress = progress, e_Message = msg,
      e_Techs = [], e_Error = '''', e_TS = ''''\<rparr>"

datatype enqueue_result = Enqueued addr | ErrQueueFull | SendOnClosed

text \<open>\<open>jid\<close> is the identifier drawn by \<^verbatim>\<open>generateID\<close>, \<open>now\<close> the time the clean-up reads and
  \<open>now'\<close> the creation time.\<close>

definition Enqueue :: "time \<Rightarrow> time \<Rightarrow> string \<Rightarrow> string \<Rightarrow> job_queue \<Rightarrow> enqueue_result \<times> effect list \<times> job_queue" where
  "Enqueue now now' jid url q =
     (let q1 = (if gm_len (q_jobs q) \<ge> q_maxJobs q then cleanupLocked now q else q) in
      if gm_len (q_jobs q1) \<ge> q_maxJobs q1 then (ErrQueueFull, [], q1)
      else
        let a = length (q_heap q1);
            j = \<lparr>j_ID = jid, j_URL = url, j_Status = StatusPending, j_CreatedAt = now', j_StartedAt = None, j_FinishedAt = None,
                 j_Duration = '''', j_Error = '''', j_Result = None, j_FromCache = False, j_UA = ''''\<rparr>;
            q2 = q1\<lparr>q_jobs := gm_put jid a (q_jobs q1), q_heap := q_heap q1 @ [j]\<rparr> in
        if q_pending_closed q2 then (SendOnClosed, [], q2)
        else
          let q3 = (if length (q_pending q2) < pending_cap then q2\<lparr>q_pending := q_pending q2 @ [a]\<rparr> else q2) in
          (Enqueued a,
           [Metric (MSet ''QueueDepth'' (int (length (q_pending q3)))),
            Pub jid (progress_event (status_string StatusPending) 0 ''Queued for scan'')], q3))"

definition GetJob :: "string \<Rightarrow> job_queue \<Rightarrow> addr option" where
  "GetJob jid q = gm_get (q_jobs q) jid"

definition ListJobs :: "int \<Rightarrow> job_queue \<Rightarrow> addr list" where
  "ListJobs limit q =
     (let jobs = xsort (\<lambda>a b. j_CreatedAt (job_at q a) < j_CreatedAt (job_at q b)) (map snd (q_jobs q))
      in if limit > 0 \<and> limit < int (length jobs) then take (nat limit) jobs else jobs)"

record queue_stats =
  qs_Total :: nat
  qs_Pending :: nat
  qs_Running :: nat
  qs_Completed :: nat
  qs_Failed :: nat

definition stats_step :: "job_queue \<Rightarrow> queue_stats \<Rightarrow> string \<times> addr \<Rightarrow> queue_stats" where
  "stats_step q st ia =
     (case j_Status (job_at q (snd ia)) of
        StatusPending \<Rightarrow> st\<lparr>qs_Pending := Suc (qs_Pending st)\<rparr>
      | StatusRunning \<Rightarrow> st\<lparr>qs_Running := Suc (qs_Running st)\<rparr>
      | StatusCompleted \<Rightarrow> st\<lparr>qs_Completed := Suc (qs_Completed st)\<rparr>
      | StatusFailed \<Rightarrow> st\<lparr>qs_Failed := Suc (qs_Failed st)\<rparr>)"

definition queue_Stats :: "job_queue \<Rightarrow> queue_stats" where
  "queue_Stats q =
     foldl (stats_step q)
       \<lparr>qs_Total = gm_len (q_jobs q), qs_Pending = 0, qs_Running = 0, qs_Completed = 0, qs_Failed = 0\<rparr> (q_jobs q)"

section \<open>Processing a job\<close>

definition toDetectedTechs :: "tech_result list \<Rightarrow> detected_tech list" where
  "toDetectedTechs results =
     map (\<lambda>r. \<lparr>dt_Slug = t_Slug (tr_Technology r), dt_Name = t_Name (tr_Technology r),
               dt_Category = t_Category (tr_Technology r), dt_Confidence = tr_Confidence r\<rparr>) results"

definition recordScanDetections :: "scan_result option \<Rightarrow> effect list" where
  "recordScanDetections result =
     (case result of
        None \<Rightarrow> []
      | Some res \<Rightarrow> concat (map (\<lambda>r.
          (if t_Category (tr_Technology r) \<noteq> '''' then [Metric (MInc ''ScanDetections'' [t_Category (tr_Technology r)])] else []) @
          (if t_Slug (tr_Technology r) \<noteq> '''' then [Metric (MInc ''ScanTechMatches'' [t_Slug (tr_Technology r)])] else []))
          (sr_Results res)))"

text \<open>First critical section.\<close>

definition start_job :: "time \<Rightarrow> addr \<Rightarrow> job_queue \<Rightarrow> effect list \<times> job_queue" where
  "start_job now a q =
     ([Pub (j_ID (job_at q a)) (progress_event (status_string StatusRunning) 10 ''Worker picked up job'')],
      set_job a ((job_at q a)\<lparr>j_Status := StatusRunning, j_StartedAt := Some now\<rparr>) q)"

text \<open>The critical section of a cache hit.\<close>

definition finish_cached :: "time \<Rightarrow> scan_result cache_entry \<Rightarrow> addr \<Rightarrow> job_queue \<Rightarrow> effect list \<times> job_queue" where
  "finish_cached now cached a q =
     ([Metric (MInc ''CacheHits'' []), Metric (MInc ''ScansTotal'' [''completed'', ''hit'']), Metric (MInc ''QueueCompleted'' [])] @
      recordScanDetections (Some (ce_Result cached)),
      set_job a ((job_at q a)\<lparr>j_FinishedAt := Some now, j_Duration := ''0s (cached)'', j_Status := StatusCompleted,
        j_Result := Some (ce_Result cached), j_FromCache := True, j_UA := ce_UserAgent cached\<rparr>) q)"

text \<open>What is published when the scan returns.\<close>

definition scan_events :: "string \<Rightarrow> scan_result \<Rightarrow> effect list" where
  "scan_events jid result =
     (case sr_Error result of
        Some err \<Rightarrow>
          [Pub jid \<lparr>e_Type = ''failed'', e_JobID = '''', e_Status = status_string StatusFailed, e_Progress = 0,
             e_Message = '''', e_Techs = [], e_Error = err, e_TS = ''''\<rparr>]
      | None \<Rightarrow>
          [Pub jid \<lparr>e_Type = ''completed'', e_JobID = '''', e_Status = status_string StatusCompleted, e_Progress = 100,
             e_Message = ''Detected '' @ Itoa (int (length (sr_Results result))) @ '' technologies'',
             e_Techs = toDetectedTechs (sr_Results result), e_Error = '''', e_TS = ''''\<rparr>])"

text \<open>Last critical section. \<open>ua\<close> is the scanner's last user agent; the three times of
  \<open>cache.Set\<close> follow the finishing time.\<close>

definition finish_scan ::
  "scan_result cache_codec \<Rightarrow> write_outcome \<Rightarrow> time \<times> time \<times> time \<times> time \<Rightarrow> string \<Rightarrow> scan_result \<Rightarrow> addr \<Rightarrow>
    job_queue \<Rightarrow> scan_result cache option \<Rightarrow> effect list \<times> job_queue \<times> scan_result cache option"
where
  "finish_scan cc w tms ua result a q cache =
     (let (now, t, t1, t2) = tms; j = job_at q a;
          started = (case j_StartedAt j of Some s \<Rightarrow> s | None \<Rightarrow> 0);
          j1 = j\<lparr>j_FinishedAt := Some now, j_Duration := duration_String (duration_Round (now - started) millisecond), j_UA := ua\<rparr>
      in case sr_Error result of
           Some err \<Rightarrow>
             ([Metric (MInc ''ScansTotal'' [''failed'', ''miss'']), Metric (MInc ''QueueFailed'' []),
               Metric (MObserve ''ScanDuration'' [] (now - started))],
              set_job a (j1\<lparr>j_Status := StatusFailed, j_Error := err\<rparr>) q, cache)
         | None \<Rightarrow>
             let q' = set_job a (j1\<lparr>j_Status := StatusCompleted, j_Result := Some result\<rparr>) q;
                 effs = [Metric (MInc ''ScansTotal'' [''completed'', ''miss'']), Metric (MInc ''QueueCompleted'' []),
                         Metric (MObserve ''ScanDuration'' [] (now - started))] @ recordScanDetections (Some result) in
             (case cache of
                None \<Rightarrow> (effs, q', None)
              | Some c \<Rightarrow> let (c', ms) = cache_Set cc w t t1 t2 (j_URL j) result ua c
                          in (effs @ map Metric ms, q', Some c')))"

text \<open>The whole of \<^verbatim>\<open>processJob\<close> when nothing interferes: the value of every clock reading, of
  the scan and of the file write is in \<open>process_env\<close>.\<close>

record process_env =
  pe_started :: time
  pe_lookup :: time
  pe_hit :: time
  pe_times :: "time \<times> time \<times> time \<times> time"
  pe_result :: scan_result
  pe_ua :: string
  pe_write :: write_outcome

definition processJob ::
  "scan_result cache_codec \<Rightarrow> process_env \<Rightarrow> addr \<Rightarrow> job_queue \<Rightarrow> scan_result cache option \<Rightarrow>
    effect list \<times> job_queue \<times> scan_result cache option"
where
  "processJob cc pe a q cache =
     (let (e1, q1) = start_job (pe_started pe) a q; j = job_at q1 a;
          scan = (\<lambda>e2 cache'.
            let (e3, q2, cache'') = finish_scan cc (pe_write pe) (pe_times pe) (pe_ua pe) (pe_result pe) a q1 cache'
            in (e1 @ e2 @ scan_events (j_ID j) (pe_result pe) @ e3, q2, cache'')) in
      case cache of
        None \<Rightarrow> scan [] None
      | Some c \<Rightarrow>
          (case Get cc (pe_lookup pe) (j_URL j) c of
             (Some cached, c') \<Rightarrow> let (e2, q2) = finish_cached (pe_hit pe) cached a q1 in (e1 @ e2, q2, Some c')
           | (None, c') \<Rightarrow> scan [Metric (MInc ''CacheMisses'' [])] (Some c')))"

section \<open>Workers\<close>

datatype worker =
    Idle
  | Exited
  | Got addr
  | Started addr
  | Hit addr "scan_result cache_entry"
  | Missed addr
  | Scanned addr scan_result

record queue_world =
  qw_q :: job_queue
  qw_cache :: "scan_result cache option"
  qw_workers :: "worker list"
  qw_log :: "effect list"

definition queue_init :: "int \<Rightarrow> scan_result cache option \<Rightarrow> queue_world" where
  "queue_init workers cache =
     \<lparr>qw_q = NewJobQueue workers, qw_cache = cache, qw_workers = replicate (q_workers (NewJobQueue workers)) Idle, qw_log = []\<rparr>"

text \<open>\<^verbatim>\<open>Stop\<close> closes both channels; closing them a second time panics (\<open>None\<close>).\<close>

definition queue_Stop :: "job_queue \<Rightarrow> job_queue option" where
  "queue_Stop q = (if q_stopped q then None else Some (q\<lparr>q_stopped := True, q_pending_closed := True\<rparr>))"

inductive queue_step :: "scan_result cache_codec \<Rightarrow> queue_world \<Rightarrow> queue_world \<Rightarrow> bool" for cc where
  qs_enqueue: "Enqueue now now' jid url (qw_q w) = (res, effs, q') \<Longrightarrow>
    queue_step cc w (w\<lparr>qw_q := q', qw_log := qw_log w @ effs\<rparr>)"
| qs_receive: "i < length (qw_workers w) \<Longrightarrow> qw_workers w ! i = Idle \<Longrightarrow> q_pending (qw_q w) = a # rest \<Longrightarrow>
    queue_step cc w (w\<lparr>qw_q := (qw_q w)\<lparr>q_pending := rest\<rparr>, qw_workers := (qw_workers w)[i := Got a]\<rparr>)"
| qs_exit: "i < length (qw_workers w) \<Longrightarrow> qw_workers w ! i = Idle \<Longrightarrow>
    q_stopped (qw_q w) \<or> q_pending_closed (qw_q w) \<and> q_pending (qw_q w) = [] \<Longrightarrow>
    queue_step cc w (w\<lparr>qw_workers := (qw_workers w)[i := Exited]\<rparr>)"
| qs_start: "i < length (qw_workers w) \<Longrightarrow> qw_workers w ! i = Got a \<Longrightarrow> start_job now a (qw_q w) = (effs, q') \<Longrightarrow>
    queue_step cc w (w\<lparr>qw_q := q', qw_workers := (qw_workers w)[i := Started a], qw_log := qw_log w @ effs\<rparr>)"
| qs_lookup: "i < length (qw_workers w) \<Longrightarrow> qw_workers w ! i = Started a \<Longrightarrow> qw_cache w = Some c \<Longrightarrow>
    Get cc now (j_URL (job_at (qw_q w) a)) c = (found, c') \<Longrightarrow>
    queue_step cc w (w\<lparr>qw_cache := Some c',
      qw_workers := (qw_workers w)[i := (case found of Some e \<Rightarrow> Hit a e | None \<Rightarrow> Missed a)],
      qw_log := qw_log w @ (case found of Some e \<Rightarrow> [] | None \<Rightarrow> [Metric (MInc ''CacheMisses'' [])])\<rparr>)"
| qs_nocache: "i < length (qw_workers w) \<Longrightarrow> qw_workers w ! i = Started a \<Longrightarrow> qw_cache w = None \<Longrightarrow>
    queue_step cc w (w\<lparr>qw_workers := (qw_workers w)[i := Missed a]\<rparr>)"
| qs_hit: "i < length (qw_workers w) \<Longrightarrow> qw_workers w ! i = Hit a e \<Longrightarrow> finish_cached now e a (qw_q w) = (effs, q') \<Longrightarrow>
    queue_step cc w (w\<lparr>qw_q := q', qw_workers := (qw_workers w)[i := Idle], qw_log := qw_log w @ effs\<rparr>)"
| qs_scan: "i < length (qw_workers w) \<Longrightarrow> qw_workers w ! i = Missed a \<Longrightarrow>
    queue_step cc w (w\<lparr>qw_workers := (qw_workers w)[i := Scanned a result],
      qw_log := qw_log w @ scan_events (j_ID (job_at (qw_q w) a)) result\<rparr>)"
| qs_finish: "i < length (qw_workers w) \<Longrightarrow> qw_workers w ! i = Scanned a result \<Longrightarrow>
    finish_scan cc wr tms ua result a (qw_q w) (qw_cache w) = (effs, q', cache') \<Longrightarrow>
    queue_step cc w (w\<lparr>qw_q := q', qw_cache := cache', qw_workers := (qw_workers w)[i := Idle], qw_log := qw_log w @ effs\<rparr>)"
| qs_cleanup: "queue_step cc w (w\<lparr>qw_q := cleanupLocked now (qw_q w)\<rparr>)"
| qs_stop: "queue_Stop (qw_q w) = Some q' \<Longrightarrow> queue_step cc w (w\<lparr>qw_q := q'\<rparr>)"
| qs_reorder: "mset jobs = mset (q_jobs (qw_q w)) \<Longrightarrow> queue_step cc w (w\<lparr>qw_q := (qw_q w)\<lparr>q_jobs := jobs\<rparr>\<rparr>)"

inductive_cases queue_stepE: "queue_step cc w w'"


section \<open>Invariant\<close>

text \<open>The fields of a job agree with its status.\<close>

definition job_ok :: "job \<Rightarrow> bool" where
  "job_ok j \<longleftrightarrow>
     (case j_Status j of
        StatusPending \<Rightarrow> j_StartedAt j = None \<and> j_FinishedAt j = None \<and> j_Result j = None \<and> j_Error j = ''''
      | StatusRunning \<Rightarrow> j_StartedAt j \<noteq> None \<and> j_FinishedAt j = None \<and> j_Result j = None \<and> j_Error j = ''''
      | StatusCompleted \<Rightarrow> j_StartedAt j \<noteq> None \<and> j_FinishedAt j \<noteq> None \<and> j_Result j \<noteq> None \<and> j_Error j = ''''
      | StatusFailed \<Rightarrow> j_StartedAt j \<noteq> None \<and> j_FinishedAt j \<noteq> None \<and> j_Result j = None)"

fun held :: "worker \<Rightarrow> addr option" where
  "held Idle = None"
| "held Exited = None"
| "held (Got a) = Some a"
| "held (Started a) = Some a"
| "held (Hit a e) = Some a"
| "held (Missed a) = Some a"
| "held (Scanned a r) = Some a"

fun active :: "worker \<Rightarrow> bool" where
  "active (Started a) = True"
| "active (Hit a e) = True"
| "active (Missed a) = True"
| "active (Scanned a r) = True"
| "active wk = False"

text \<open>The map: at most 1000 jobs, each under its own identifier.\<close>

definition map_ok :: "job_queue \<Rightarrow> bool" where
  "map_ok q \<longleftrightarrow> gm_wf (q_jobs q) \<and> gm_len (q_jobs q) \<le> 1000 \<and> q_maxJobs q = 1000 \<and>
     (\<forall>(i, a) \<in> set (q_jobs q). a < length (q_heap q) \<and> j_ID (job_at q a) = i)"

text \<open>Ownership: a job in the channel is pending and held by no worker, no two workers hold the
  same job, and a job is running exactly while a worker works on it.\<close>

definition channel_ok :: "job_queue \<Rightarrow> worker list \<Rightarrow> bool" where
  "channel_ok q ws \<longleftrightarrow> distinct (q_pending q) \<and> length (q_pending q) \<le> pending_cap \<and>
     (\<forall>a \<in> set (q_pending q). a < length (q_heap q) \<and> j_Status (job_at q a) = StatusPending \<and>
        (\<forall>wk \<in> set ws. held wk \<noteq> Some a))"

definition workers_ok :: "job_queue \<Rightarrow> worker list \<Rightarrow> bool" where
  "workers_ok q ws \<longleftrightarrow>
     (\<forall>i < length ws. \<forall>a. held (ws ! i) = Some a \<longrightarrow>
        a < length (q_heap q) \<and> j_Status (job_at q a) = (if active (ws ! i) then StatusRunning else StatusPending) \<and>
        (\<forall>k < length ws. held (ws ! k) = Some a \<longrightarrow> k = i)) \<and>
     (\<forall>a < length (q_heap q). j_Status (job_at q a) = StatusRunning \<longrightarrow> (\<exists>i < length ws. held (ws ! i) = Some a))"

definition queue_inv :: "queue_world \<Rightarrow> bool" where
  "queue_inv w \<longleftrightarrow> map_ok (qw_q w) \<and> channel_ok (qw_q w) (qw_workers w) \<and> workers_ok (qw_q w) (qw_workers w) \<and>
     (\<forall>j \<in> set (q_heap (qw_q w)). job_ok j)"

lemma job_at_set: "a < length (q_heap q) \<Longrightarrow> job_at (set_job a j q) b = (if b = a then j else job_at q b)"
  by (simp add: job_at_def set_job_def nth_list_update)

lemma set_job_sel [simp]:
  "q_jobs (set_job a j q) = q_jobs q" "q_pending (set_job a j q) = q_pending q" "q_maxJobs (set_job a j q) = q_maxJobs q"
  "length (q_heap (set_job a j q)) = length (q_heap q)" "q_pending_closed (set_job a j q) = q_pending_closed q"
  by (simp_all add: set_job_def)

lemma set_job_map: "map_ok q \<Longrightarrow> a < length (q_heap q) \<Longrightarrow> j_ID j = j_ID (job_at q a) \<Longrightarrow> map_ok (set_job a j q)"
  by (auto simp: map_ok_def job_at_set)

lemma set_job_jobs:
  "\<forall>j \<in> set (q_heap q). job_ok j \<Longrightarrow> job_ok j' \<Longrightarrow> \<forall>j \<in> set (q_heap (set_job a j' q)). job_ok j"
  unfolding set_job_def using set_update_subset_insert [of "q_heap q" a j'] by auto

lemma gm_filter_sub: "set (gm_filter P m) \<subseteq> set m"
  by (auto simp: gm_filter_def)

lemma cleanup_jobs:
  assumes "gm_wf (q_jobs q)"
  shows "gm_wf (q_jobs (cleanupLocked now q))" "set (q_jobs (cleanupLocked now q)) \<subseteq> set (q_jobs q)"
    "gm_len (q_jobs (cleanupLocked now q)) \<le> gm_len (q_jobs q)" "\<exists>jobs. cleanupLocked now q = q\<lparr>q_jobs := jobs\<rparr>"
proof -
  let ?P = "\<lambda>i a. \<not> (finished (job_at q a) \<and> j_CreatedAt (job_at q a) < now - q_resultTTL q)"
  have wf: "gm_wf (gm_filter ?P (q_jobs q))" using assms by (rule gm_wf_filter)
  note facts = wf gm_filter_sub [of ?P "q_jobs q"] gm_len_filter [of ?P "q_jobs q"]
  show "gm_wf (q_jobs (cleanupLocked now q))" "set (q_jobs (cleanupLocked now q)) \<subseteq> set (q_jobs q)"
    "gm_len (q_jobs (cleanupLocked now q)) \<le> gm_len (q_jobs q)"
    unfolding cleanupLocked_def Let_def using facts gm.wf_del [OF wf] gm.len_del_le [OF wf]
    by (auto simp: gm_set_del split: prod.splits intro: order_trans)
  show "\<exists>jobs. cleanupLocked now q = q\<lparr>q_jobs := jobs\<rparr>"
    unfolding cleanupLocked_def Let_def by (auto split: prod.splits)
qed

lemma cleanup_same [simp]:
  "q_heap (cleanupLocked now q) = q_heap q" "q_pending (cleanupLocked now q) = q_pending q"
  "q_maxJobs (cleanupLocked now q) = q_maxJobs q" "q_pending_closed (cleanupLocked now q) = q_pending_closed q"
  "job_at (cleanupLocked now q) a = job_at q a"
  by (auto simp: cleanupLocked_def Let_def job_at_def split: prod.splits)

lemma cleanup_map_ok [inv_intros]: "map_ok q \<Longrightarrow> map_ok (cleanupLocked now q)"
  using cleanup_jobs [of q now] by (auto simp: map_ok_def)

section \<open>Workers and the invariant\<close>

lemma workers_held:
  assumes "workers_ok q ws" "i < length ws" "held (ws ! i) = Some a"
  shows "a < length (q_heap q)"
    and "j_Status (job_at q a) = (if active (ws ! i) then StatusRunning else StatusPending)"
    and "k < length ws \<Longrightarrow> held (ws ! k) = Some a \<Longrightarrow> k = i"
  using assms unfolding workers_ok_def by blast+

text \<open>A worker moves on with the job it holds.\<close>

lemma workers_move:
  assumes "workers_ok q ws" "i < length ws" "held (ws ! i) = Some a" "held wk = Some a"
    and "j_Status j = (if active wk then StatusRunning else StatusPending)"
  shows "workers_ok (set_job a j q) (ws[i := wk])"
proof -
  have a: "a < length (q_heap q)" and only: "\<And>k. k < length ws \<Longrightarrow> held (ws ! k) = Some a \<Longrightarrow> k = i"
    using workers_held(1,3) [OF assms(1-3)] by blast+
  have h: "k < length ws \<Longrightarrow> held (ws[i := wk] ! k) = held (ws ! k)" for k
    using assms(2-4) by (cases "k = i") simp_all
  show ?thesis
    unfolding workers_ok_def length_list_update
  proof (intro conjI allI impI)
    fix k b assume k: "k < length ws" "held (ws[i := wk] ! k) = Some b"
    then have kb: "held (ws ! k) = Some b" using h by simp
    show "b < length (q_heap (set_job a j q))" using assms(1) k(1) kb by (simp add: workers_ok_def)
    show "j_Status (job_at (set_job a j q) b) = (if active (ws[i := wk] ! k) then StatusRunning else StatusPending)"
    proof (cases "k = i")
      case True
      then have "b = a" using kb assms(3) by simp
      then show ?thesis using True assms(2,5) a by (simp add: job_at_set)
    next
      case False
      then have "b \<noteq> a" using only k(1) kb by blast
      then show ?thesis using False workers_held [OF assms(1) k(1) kb] a by (simp add: job_at_set)
    qed
    show "l = k" if "l < length ws" "held (ws[i := wk] ! l) = Some b" for l
      using workers_held(3) [OF assms(1) k(1) kb] that h by simp
  next
    fix b assume b: "b < length (q_heap (set_job a j q))" "j_Status (job_at (set_job a j q) b) = StatusRunning"
    have "\<exists>k < length ws. held (ws ! k) = Some b"
    proof (cases "b = a")
      case True
      then show ?thesis using assms(2,3) by blast
    next
      case False
      then show ?thesis using assms(1) b a by (simp add: job_at_set workers_ok_def)
    qed
    then show "\<exists>k < length ws. held (ws[i := wk] ! k) = Some b" using h by metis
  qed
qed

text \<open>A worker that is done lets go of its job.\<close>

lemma workers_release:
  assumes "workers_ok q ws" "i < length ws" "held (ws ! i) = Some a" "finished j" "held wk = None"
  shows "workers_ok (set_job a j q) (ws[i := wk])"
proof -
  have a: "a < length (q_heap q)" and only: "\<And>k. k < length ws \<Longrightarrow> held (ws ! k) = Some a \<Longrightarrow> k = i"
    using workers_held(1,3) [OF assms(1-3)] by blast+
  have hk: "k \<noteq> i \<and> ws[i := wk] ! k = ws ! k \<and> held (ws ! k) = Some b \<and> b \<noteq> a"
    if "k < length ws" "held (ws[i := wk] ! k) = Some b" for k b
  proof -
    have ki: "k \<noteq> i" using that(2) assms(2,5) by auto
    then have "ws[i := wk] ! k = ws ! k" by simp
    moreover from this have "held (ws ! k) = Some b" using that(2) by simp
    moreover from this have "b \<noteq> a" using only [OF that(1)] ki by blast
    ultimately show ?thesis using ki by simp
  qed
  show ?thesis
    unfolding workers_ok_def length_list_update
  proof (intro conjI allI impI)
    fix k b assume k: "k < length ws" "held (ws[i := wk] ! k) = Some b"
    note k' = hk [OF k]
    show "b < length (q_heap (set_job a j q))" using assms(1) k(1) k' by (simp add: workers_ok_def)
    show "j_Status (job_at (set_job a j q) b) = (if active (ws[i := wk] ! k) then StatusRunning else StatusPending)"
      using assms(1) k(1) k' a by (simp add: job_at_set workers_ok_def)
    show "l = k" if "l < length ws" "held (ws[i := wk] ! l) = Some b" for l
      using workers_held(3) [OF assms(1) k(1), of b l] k' hk [OF that] that(1) by blast
  next
    fix b assume b: "b < length (q_heap (set_job a j q))" "j_Status (job_at (set_job a j q) b) = StatusRunning"
    then have "b \<noteq> a" "j_Status (job_at q b) = StatusRunning" using assms(4) a by (auto simp: job_at_set finished_def split: if_splits)
    then obtain k where "k < length ws" "held (ws ! k) = Some b"
      using assms(1) b(1) by (auto simp: workers_ok_def)
    moreover from this have "k \<noteq> i" using assms(3) \<open>b \<noteq> a\<close> by auto
    ultimately show "\<exists>k < length ws. held (ws[i := wk] ! k) = Some b" by (metis nth_list_update_neq)
  qed
qed

lemma channel_set_job:
  assumes "channel_ok q ws" "i < length ws" "held (ws ! i) = Some a" "a < length (q_heap q)" "held wk = None \<or> held wk = Some a"
  shows "channel_ok (set_job a j q) (ws[i := wk])"
proof -
  have "ws ! i \<in> set ws" using assms(2) by simp
  then have "a \<notin> set (q_pending q)" using assms(1,3) by (auto simp: channel_ok_def)
  moreover have "held x \<noteq> Some b" if "x \<in> set (ws[i := wk])" "b \<in> set (q_pending q)" for x b
    using that assms(1,5) calculation set_update_subset_insert [of ws i wk] by (auto simp: channel_ok_def)
  ultimately show ?thesis using assms(1,4) by (auto simp: channel_ok_def job_at_set)
qed

lemma set_job_same: "a < length (q_heap q) \<Longrightarrow> set_job a (job_at q a) q = q"
  by (simp add: set_job_def job_at_def)

lemma held_job:
  "queue_inv w \<Longrightarrow> i < length (qw_workers w) \<Longrightarrow> held (qw_workers w ! i) = Some a \<Longrightarrow>
    a < length (q_heap (qw_q w)) \<and> job_ok (job_at (qw_q w) a) \<and>
    j_Status (job_at (qw_q w) a) = (if active (qw_workers w ! i) then StatusRunning else StatusPending)"
  by (auto simp: queue_inv_def workers_ok_def job_at_def)


lemma Enqueue_cases:
  assumes "Enqueue now now' jid url q = (res, effs, q')"
  obtains (full) q1 where "res = ErrQueueFull" "q' = q1" "q_maxJobs q1 \<le> gm_len (q_jobs q1)"
      "q1 = (if gm_len (q_jobs q) \<ge> q_maxJobs q then cleanupLocked now q else q)"
  | (new) q1 j where "q1 = (if gm_len (q_jobs q) \<ge> q_maxJobs q then cleanupLocked now q else q)"
      "gm_len (q_jobs q1) < q_maxJobs q1" "j_ID j = jid" "j_Status j = StatusPending" "job_ok j" "j_URL j = url" "j_CreatedAt j = now'"
      "q' = q1\<lparr>q_jobs := gm_put jid (length (q_heap q1)) (q_jobs q1), q_heap := q_heap q1 @ [j],
                q_pending := (if \<not> q_pending_closed q1 \<and> length (q_pending q1) < pending_cap
                              then q_pending q1 @ [length (q_heap q1)] else q_pending q1)\<rparr>"
      "res = (if q_pending_closed q1 then SendOnClosed else Enqueued (length (q_heap q1)))"
proof -
  define q1 where "q1 = (if gm_len (q_jobs q) \<ge> q_maxJobs q then cleanupLocked now q else q)"
  let ?j = "\<lparr>j_ID = jid, j_URL = url, j_Status = StatusPending, j_CreatedAt = now', j_StartedAt = None, j_FinishedAt = None,
                 j_Duration = '''', j_Error = '''', j_Result = None, j_FromCache = False, j_UA = ''''\<rparr>"
  show thesis
  proof (cases "gm_len (q_jobs q1) \<ge> q_maxJobs q1")
    case True
    then show thesis using assms full [of q1] by (simp add: Enqueue_def q1_def [symmetric])
  next
    case False
    show thesis
      by (rule new [of q1 ?j])
         (use assms False in \<open>auto simp: Enqueue_def q1_def [symmetric] Let_def job_ok_def split: if_splits\<close>)
  qed
qed

text \<open>Only the map differs.\<close>

lemma queue_inv_cong:
  assumes "queue_inv w" "map_ok q'" "q_heap q' = q_heap (qw_q w)" "q_pending q' = q_pending (qw_q w)"
  shows "queue_inv (w\<lparr>qw_q := q', qw_log := effs0\<rparr>)" "queue_inv (w\<lparr>qw_q := q'\<rparr>)"
proof -
  have "channel_ok q' ws = channel_ok (qw_q w) ws" "workers_ok q' ws = workers_ok (qw_q w) ws" for ws
    unfolding channel_ok_def workers_ok_def job_at_def assms(3,4) by (rule refl)+
  then show "queue_inv (w\<lparr>qw_q := q', qw_log := effs0\<rparr>)" "queue_inv (w\<lparr>qw_q := q'\<rparr>)"
    using assms by (simp_all add: queue_inv_def)
qed

lemma workers_ok_grow:
  assumes wo: "workers_ok q ws" and heap: "q_heap q' = q_heap q @ [j]" and j: "j_Status j = StatusPending"
  shows "workers_ok q' ws"
  unfolding workers_ok_def
proof (intro conjI allI impI)
  have old: "b < length (q_heap q) \<Longrightarrow> job_at q' b = job_at q b" and new: "job_at q' (length (q_heap q)) = j" for b
    using heap by (simp_all add: job_at_def nth_append)
  fix i a assume i: "i < length ws" "held (ws ! i) = Some a"
  note h = workers_held [OF wo i]
  show "a < length (q_heap q')" using h(1) heap by simp
  show "j_Status (job_at q' a) = (if active (ws ! i) then StatusRunning else StatusPending)" using h(1,2) old by simp
  show "k = i" if "k < length ws" "held (ws ! k) = Some a" for k using h(3) that by blast
next
  have old: "b < length (q_heap q) \<Longrightarrow> job_at q' b = job_at q b" and new: "job_at q' (length (q_heap q)) = j" for b
    using heap by (simp_all add: job_at_def nth_append)
  fix a assume "a < length (q_heap q')" "j_Status (job_at q' a) = StatusRunning"
  then show "\<exists>i < length ws. held (ws ! i) = Some a"
    using wo old new j heap by (cases "a = length (q_heap q)") (auto simp: workers_ok_def)
qed

lemma Enqueue_inv:
  assumes "queue_inv w" "Enqueue now now' jid url (qw_q w) = (res, effs, q')"
  shows "queue_inv (w\<lparr>qw_q := q', qw_log := effs0\<rparr>)"
  using assms(2)
proof (cases rule: Enqueue_cases)
  case (full q1)
  then show ?thesis using assms(1) queue_inv_cong [of w "q'"] by (simp add: queue_inv_def cleanup_map_ok)
next
  case (new q1 j)
  let ?a = "length (q_heap (qw_q w))"
  have q1: "map_ok q1" "q_heap q1 = q_heap (qw_q w)" "q_pending q1 = q_pending (qw_q w)"
    using assms(1) new(1) by (auto simp: queue_inv_def cleanup_map_ok)
  have at: "job_at q1 a = job_at (qw_q w) a" for a using q1(2) by (simp add: job_at_def)
  have heap: "q_heap q' = q_heap (qw_q w) @ [j]" using new(8) q1(2) by simp
  have old: "b < ?a \<Longrightarrow> job_at q' b = job_at (qw_q w) b" and new_at: "job_at q' ?a = j" for b
    using heap by (simp_all add: job_at_def nth_append)
  have jobs: "q_jobs q' = gm_put jid ?a (q_jobs q1)" using new(8) q1(2) by simp
  have "map_ok q'"
  proof -
    have "\<forall>(i, a) \<in> set (q_jobs q'). a < length (q_heap q') \<and> j_ID (job_at q' a) = i"
      using q1(1) new(3) old new_at at q1(2) heap gm_set_put [of "q_jobs q1" jid ?a]
      by (auto simp: map_ok_def jobs less_Suc_eq)
    moreover have "gm_len (q_jobs q') \<le> 1000"
      using q1(1) new(2) gm.len_put_le [of "q_jobs q1" jid ?a] by (simp add: map_ok_def jobs)
    ultimately show ?thesis using q1(1) new(8) by (simp add: map_ok_def jobs gm.wf_put)
  qed
  moreover have free: "held wk \<noteq> Some ?a" if "wk \<in> set (qw_workers w)" for wk
    using that assms(1) by (auto simp: queue_inv_def in_set_conv_nth dest: workers_held(1))
  have "channel_ok q' (qw_workers w)"
  proof -
    have c: "channel_ok (qw_q w) (qw_workers w)" using assms(1) by (simp add: queue_inv_def)
    have "\<And>b. b \<in> set (q_pending (qw_q w)) \<Longrightarrow> b < ?a" using c by (simp add: channel_ok_def)
    moreover from this have "?a \<notin> set (q_pending (qw_q w))" by blast
    ultimately show ?thesis using c new(4,8) q1(2,3) old new_at free heap
      by (auto simp: channel_ok_def less_Suc_eq split: if_splits)
  qed
  moreover have "workers_ok q' (qw_workers w)"
    using workers_ok_grow [OF _ heap new(4)] assms(1) by (simp add: queue_inv_def)
  moreover have "\<forall>j \<in> set (q_heap q'). job_ok j" using assms(1) heap new(5) by (simp add: queue_inv_def)
  ultimately show ?thesis by (simp add: queue_inv_def)
qed


lemma inv_move:
  assumes "queue_inv w" "i < length (qw_workers w)" "held (qw_workers w ! i) = Some a" "held wk = Some a"
    and "j_Status j = (if active wk then StatusRunning else StatusPending)" "job_ok j" "j_ID j = j_ID (job_at (qw_q w) a)"
  shows "queue_inv (w\<lparr>qw_q := set_job a j (qw_q w), qw_workers := (qw_workers w)[i := wk]\<rparr>)"
  using assms(1) held_job [OF assms(1-3)] workers_move [OF _ assms(2-5)] channel_set_job [OF _ assms(2,3)] assms(4,6,7)
    set_job_map set_job_jobs [of "qw_q w" j a]
  unfolding queue_inv_def by simp

lemma inv_release:
  assumes "queue_inv w" "i < length (qw_workers w)" "held (qw_workers w ! i) = Some a"
    and "finished j" "job_ok j" "j_ID j = j_ID (job_at (qw_q w) a)"
  shows "queue_inv (w\<lparr>qw_q := set_job a j (qw_q w), qw_workers := (qw_workers w)[i := Idle]\<rparr>)"
  using assms(1) held_job [OF assms(1-3)] workers_release [OF _ assms(2-4), of _ Idle] channel_set_job [OF _ assms(2,3)] assms(5,6)
    set_job_map set_job_jobs [of "qw_q w" j a]
  unfolding queue_inv_def by simp

lemma inv_stay:
  assumes "queue_inv w" "i < length (qw_workers w)" "held (qw_workers w ! i) = Some a" "held wk = Some a"
    and "active wk = active (qw_workers w ! i)"
  shows "queue_inv (w\<lparr>qw_workers := (qw_workers w)[i := wk]\<rparr>)"
proof -
  note h = held_job [OF assms(1-3)]
  have "queue_inv (w\<lparr>qw_q := set_job a (job_at (qw_q w) a) (qw_q w), qw_workers := (qw_workers w)[i := wk]\<rparr>)"
    by (rule inv_move [OF assms(1-4)]) (use h assms(5) in simp_all)
  then show ?thesis using set_job_same [of a "qw_q w"] h by simp
qed

lemma inv_log [simp]: "queue_inv (w\<lparr>qw_log := l\<rparr>) = queue_inv w" "queue_inv (w\<lparr>qw_cache := c\<rparr>) = queue_inv w"
  by (simp_all add: queue_inv_def)

lemma workers_cong:
  assumes "workers_ok q ws" "length ws' = length ws"
    and "\<And>k. k < length ws \<Longrightarrow> held (ws' ! k) = held (ws ! k)" "\<And>k. k < length ws \<Longrightarrow> active (ws' ! k) = active (ws ! k)"
  shows "workers_ok q ws'"
  unfolding workers_ok_def assms(2)
proof (intro conjI allI impI)
  fix i a assume i: "i < length ws" "held (ws' ! i) = Some a"
  have h: "held (ws ! i) = Some a" using i assms(3) by simp
  show "a < length (q_heap q)" by (rule workers_held(1) [OF assms(1) i(1) h])
  show "j_Status (job_at q a) = (if active (ws' ! i) then StatusRunning else StatusPending)"
    using workers_held(2) [OF assms(1) i(1) h] assms(4) [OF i(1)] by simp
  show "k = i" if k: "k < length ws" "held (ws' ! k) = Some a" for k
    by (rule workers_held(3) [OF assms(1) i(1) h k(1)]) (use k assms(3) in simp)
next
  fix a assume "a < length (q_heap q)" "j_Status (job_at q a) = StatusRunning"
  then obtain i where "i < length ws" "held (ws ! i) = Some a" using assms(1) by (auto simp: workers_ok_def)
  then show "\<exists>i < length ws. held (ws' ! i) = Some a" using assms(3) by metis
qed

lemma inv_idle:
  assumes "queue_inv w" "i < length (qw_workers w)" "qw_workers w ! i = Idle"
  shows "queue_inv (w\<lparr>qw_workers := (qw_workers w)[i := Exited]\<rparr>)"
proof -
  have eq: "held ((qw_workers w)[i := Exited] ! k) = held (qw_workers w ! k)"
    "active ((qw_workers w)[i := Exited] ! k) = active (qw_workers w ! k)" if "k < length (qw_workers w)" for k
    using assms(2,3) that by (cases "k = i"; simp)+
  have "workers_ok (qw_q w) ((qw_workers w)[i := Exited])"
    using assms(1) eq workers_cong [of "qw_q w" "qw_workers w"] by (simp add: queue_inv_def)
  moreover have "channel_ok (qw_q w) ((qw_workers w)[i := Exited])"
    using assms(1) set_update_subset_insert [of "qw_workers w" i Exited] by (auto simp: queue_inv_def channel_ok_def)
  ultimately show ?thesis using assms(1) by (simp add: queue_inv_def)
qed

lemma inv_receive:
  assumes "queue_inv w" "i < length (qw_workers w)" "qw_workers w ! i = Idle" "q_pending (qw_q w) = a # rest"
  shows "queue_inv (w\<lparr>qw_q := (qw_q w)\<lparr>q_pending := rest\<rparr>, qw_workers := (qw_workers w)[i := Got a]\<rparr>)"
proof -
  let ?ws = "(qw_workers w)[i := Got a]" and ?q = "(qw_q w)\<lparr>q_pending := rest\<rparr>"
  have ch: "channel_ok (qw_q w) (qw_workers w)" and wo: "workers_ok (qw_q w) (qw_workers w)" using assms(1) by (simp_all add: queue_inv_def)
  have a: "a < length (q_heap (qw_q w))" "j_Status (job_at (qw_q w) a) = StatusPending" "a \<notin> set rest"
    "\<And>wk. wk \<in> set (qw_workers w) \<Longrightarrow> held wk \<noteq> Some a"
    using ch assms(4) by (auto simp: channel_ok_def)
  have at: "job_at ?q b = job_at (qw_q w) b" for b by (simp add: job_at_def)
  have "channel_ok ?q ?ws"
    unfolding channel_ok_def at
    using ch a(3) assms(4) set_update_subset_insert [of "qw_workers w" i "Got a"] by (auto simp: channel_ok_def)
  moreover have "workers_ok ?q ?ws"
    unfolding workers_ok_def at length_list_update
  proof (intro conjI allI impI)
    fix k b assume k: "k < length (qw_workers w)" "held (?ws ! k) = Some b"
    have nb: "k = i \<and> b = a \<or> k \<noteq> i \<and> held (qw_workers w ! k) = Some b" using k assms(2) by (cases "k = i") auto
    show "b < length (q_heap ?q)" using nb a(1) workers_held(1) [OF wo k(1)] by auto
    show "j_Status (job_at (qw_q w) b) = (if active (?ws ! k) then StatusRunning else StatusPending)"
      using nb a(2) workers_held(2) [OF wo k(1)] assms(2) by auto
    show "l = k" if l: "l < length (qw_workers w)" "held (?ws ! l) = Some b" for l
    proof -
      have "l = i \<and> b = a \<or> l \<noteq> i \<and> held (qw_workers w ! l) = Some b" using l assms(2) by (cases "l = i") auto
      then show ?thesis using nb a(4) l(1) k(1) workers_held(3) [OF wo l(1)] nth_mem by metis
    qed
  next
    fix b assume "b < length (q_heap ?q)" "j_Status (job_at (qw_q w) b) = StatusRunning"
    then obtain k where k: "k < length (qw_workers w)" "held (qw_workers w ! k) = Some b" using wo by (auto simp: workers_ok_def)
    then have "k \<noteq> i" using assms(3) by auto
    then show "\<exists>k < length (qw_workers w). held (?ws ! k) = Some b" using k by (metis nth_list_update_neq)
  qed
  moreover have "map_ok ?q" using assms(1) by (simp add: queue_inv_def map_ok_def job_at_def)
  ultimately show ?thesis using assms(1) by (simp add: queue_inv_def)
qed


lemma start_job_inv:
  assumes "queue_inv w" "i < length (qw_workers w)" "qw_workers w ! i = Got a" "start_job now a (qw_q w) = (effs, q')"
  shows "queue_inv (w\<lparr>qw_q := q', qw_workers := (qw_workers w)[i := Started a]\<rparr>)"
proof -
  have held: "held (qw_workers w ! i) = Some a" using assms(3) by simp
  note h = held_job [OF assms(1,2) held]
  have q': "q' = set_job a ((job_at (qw_q w) a)\<lparr>j_Status := StatusRunning, j_StartedAt := Some now\<rparr>) (qw_q w)"
    using assms(4) by (simp add: start_job_def)
  show ?thesis unfolding q'
    by (rule inv_move [OF assms(1,2) held]) (use h assms(3) in \<open>auto simp: job_ok_def\<close>)
qed

lemma finish_cached_inv:
  assumes "queue_inv w" "i < length (qw_workers w)" "qw_workers w ! i = Hit a e" "finish_cached now e a (qw_q w) = (effs, q')"
  shows "queue_inv (w\<lparr>qw_q := q', qw_workers := (qw_workers w)[i := Idle]\<rparr>)"
proof -
  have held: "held (qw_workers w ! i) = Some a" using assms(3) by simp
  note h = held_job [OF assms(1,2) held]
  obtain j where q': "q' = set_job a j (qw_q w)" and j: "j_Status j = StatusCompleted" "j_ID j = j_ID (job_at (qw_q w) a)" "job_ok j"
    using assms(3,4) h by (auto simp: finish_cached_def job_ok_def)
  show ?thesis unfolding q'
    by (rule inv_release [OF assms(1,2) held]) (use j in \<open>simp_all add: finished_def\<close>)
qed

lemma finish_scan_job:
  assumes "finish_scan cc wr tms ua result a q cache = (effs, q', cache')"
    and "j_Status (job_at q a) = StatusRunning" "job_ok (job_at q a)"
  obtains j where "q' = set_job a j q" "finished j" "job_ok j" "j_ID j = j_ID (job_at q a)" "j_URL j = j_URL (job_at q a)"
    "j_CreatedAt j = j_CreatedAt (job_at q a)" "j_FromCache j = j_FromCache (job_at q a)"
    "j_Status j = (if sr_Error result = None then StatusCompleted else StatusFailed)"
    "sr_Error result = None \<Longrightarrow> j_Result j = Some result"
  using assms
  by (cases tms; cases "sr_Error result"; cases cache)
     (auto simp: finish_scan_def Let_def job_ok_def finished_def split: prod.splits)

lemma finish_scan_inv:
  assumes "queue_inv w" "i < length (qw_workers w)" "qw_workers w ! i = Scanned a result"
    and "finish_scan cc wr tms ua result a (qw_q w) (qw_cache w) = (effs, q', cache')"
  shows "queue_inv (w\<lparr>qw_q := q', qw_workers := (qw_workers w)[i := Idle]\<rparr>)"
proof -
  have held: "held (qw_workers w ! i) = Some a" using assms(3) by simp
  have run: "j_Status (job_at (qw_q w) a) = StatusRunning" "job_ok (job_at (qw_q w) a)"
    using held_job [OF assms(1,2) held] assms(3) by simp_all
  obtain j where q': "q' = set_job a j (qw_q w)" "finished j" "job_ok j" "j_ID j = j_ID (job_at (qw_q w) a)"
    using finish_scan_job [OF assms(4) run] by blast
  show ?thesis unfolding q'(1) by (rule inv_release [OF assms(1,2) held q'(2-4)])
qed

lemma queue_step_inv: "queue_step cc w w' \<Longrightarrow> queue_inv w \<Longrightarrow> queue_inv w'"
proof (induction rule: queue_step.induct)
  case (qs_enqueue now now' jid url w res effs q')
  then show ?case by (intro Enqueue_inv) auto
next
  case (qs_receive i w a rest)
  then show ?case by (intro inv_receive) auto
next
  case (qs_exit i w)
  then show ?case by (intro inv_idle) auto
next
  case (qs_start i w a now effs q')
  then have "queue_inv (w\<lparr>qw_q := q', qw_workers := (qw_workers w)[i := Started a]\<rparr>)" by (intro start_job_inv) auto
  then show ?case by (simp add: queue_inv_def)
next
  case (qs_lookup i w a c now found c')
  then have "queue_inv (w\<lparr>qw_workers := (qw_workers w)[i := case found of Some e \<Rightarrow> Hit a e | None \<Rightarrow> Missed a]\<rparr>)"
    by (intro inv_stay [where a = a]) (auto split: option.splits)
  then show ?case by (simp add: queue_inv_def)
next
  case (qs_nocache i w a)
  then show ?case by (intro inv_stay [where a = a]) auto
next
  case (qs_hit i w a e now effs q')
  then have "queue_inv (w\<lparr>qw_q := q', qw_workers := (qw_workers w)[i := Idle]\<rparr>)" by (intro finish_cached_inv) auto
  then show ?case by (simp add: queue_inv_def)
next
  case (qs_scan i w a result)
  then have "queue_inv (w\<lparr>qw_workers := (qw_workers w)[i := Scanned a result]\<rparr>)"
    by (intro inv_stay [where a = a]) auto
  then show ?case by (simp add: queue_inv_def)
next
  case (qs_finish i w a result wr tms ua effs q' cache')
  then have "queue_inv (w\<lparr>qw_q := q', qw_workers := (qw_workers w)[i := Idle]\<rparr>)" by (intro finish_scan_inv) auto
  then show ?case by (simp add: queue_inv_def)
next
  case (qs_cleanup w now)
  then show ?case by (intro queue_inv_cong(2)) (auto simp: queue_inv_def cleanup_map_ok)
next
  case (qs_stop w q')
  then show ?case by (intro queue_inv_cong(2)) (auto simp: queue_inv_def queue_Stop_def map_ok_def job_at_def split: if_splits)
next
  case (qs_reorder jobs w)
  have "map_ok ((qw_q w)\<lparr>q_jobs := jobs\<rparr>)"
    using qs_reorder gm_perm_wf [of jobs "q_jobs (qw_q w)"] gm_perm_len [of jobs "q_jobs (qw_q w)"] mset_eq_setD [of jobs "q_jobs (qw_q w)"]
    by (simp add: queue_inv_def map_ok_def job_at_def)
  then show ?case using qs_reorder by (intro queue_inv_cong(2)) auto
qed

interpretation queue_life: kept_by_steps "queue_step cc" queue_inv for cc
  by unfold_locales (rule queue_step_inv)

lemma queue_init_inv: "queue_inv (queue_init workers cache)"
  by (simp add: queue_inv_def queue_init_def NewJobQueue_def map_ok_def channel_ok_def workers_ok_def gm_wf_def gm_len_def)

lemma queue_reachable_inv: "(queue_step cc)\<^sup>*\<^sup>* (queue_init workers cache) w \<Longrightarrow> queue_inv w"
  using queue_life.run_keeps queue_init_inv by blast


section \<open>The life of one job\<close>

text \<open>What a step may do to a job: nothing once it is finished, its status only moves on, and its
  identity stays.\<close>

definition job_le :: "job \<Rightarrow> job \<Rightarrow> bool" where
  "job_le j j' \<longleftrightarrow> (finished j \<longrightarrow> j' = j) \<and> j_Status j \<le> j_Status j' \<and>
     j_ID j' = j_ID j \<and> j_URL j' = j_URL j \<and> j_CreatedAt j' = j_CreatedAt j"

definition heap_le :: "job_queue \<Rightarrow> job_queue \<Rightarrow> bool" where
  "heap_le q q' \<longleftrightarrow> length (q_heap q) \<le> length (q_heap q') \<and> (\<forall>a < length (q_heap q). job_le (job_at q a) (job_at q' a))"

lemma job_le_refl [simp]: "job_le j j"
  by (simp add: job_le_def)

lemma job_le_trans: "job_le j k \<Longrightarrow> job_le k l \<Longrightarrow> job_le j l"
  by (auto simp: job_le_def intro: order_trans)

lemma heap_le_refl [simp]: "heap_le q q"
  by (simp add: heap_le_def)

lemma heap_le_trans: "heap_le p q \<Longrightarrow> heap_le q r \<Longrightarrow> heap_le p r"
  unfolding heap_le_def by (meson job_le_trans order_trans less_le_trans)

lemma heap_le_same: "q_heap q' = q_heap q \<Longrightarrow> heap_le q q'"
  by (simp add: heap_le_def job_at_def)

lemma heap_le_set: "a < length (q_heap q) \<Longrightarrow> job_le (job_at q a) j \<Longrightarrow> heap_le q (set_job a j q)"
  by (simp add: heap_le_def job_at_set)

lemma Enqueue_heap:
  assumes "Enqueue now now' jid url q = (res, effs, q')"
  shows "heap_le q q'"
  using assms
proof (cases rule: Enqueue_cases)
  case (full q1)
  then show ?thesis by (intro heap_le_same) simp
next
  case (new q1 j)
  then have "q_heap q' = q_heap q @ [j]" by simp
  then show ?thesis by (simp add: heap_le_def job_at_def nth_append)
qed

lemma queue_step_heap: "queue_step cc w w' \<Longrightarrow> queue_inv w \<Longrightarrow> heap_le (qw_q w) (qw_q w')"
proof (induction rule: queue_step.induct)
  case (qs_enqueue now now' jid url w res effs q')
  then show ?case using Enqueue_heap by simp
next
  case (qs_start i w a now effs q')
  then have "a < length (q_heap (qw_q w))" "j_Status (job_at (qw_q w) a) = StatusPending" using held_job [of w i a] by auto
  then show ?case using qs_start by (auto simp: start_job_def job_le_def finished_def intro!: heap_le_set)
next
  case (qs_hit i w a e now effs q')
  then have "a < length (q_heap (qw_q w))" "j_Status (job_at (qw_q w) a) = StatusRunning" using held_job [of w i a] by auto
  then show ?case using qs_hit by (auto simp: finish_cached_def job_le_def finished_def intro!: heap_le_set)
next
  case (qs_finish i w a result wr tms ua effs q' cache')
  then have run: "a < length (q_heap (qw_q w))" "j_Status (job_at (qw_q w) a) = StatusRunning" "job_ok (job_at (qw_q w) a)"
    using held_job [of w i a] by auto
  obtain j where "q' = set_job a j (qw_q w)" "finished j" "j_ID j = j_ID (job_at (qw_q w) a)" "j_URL j = j_URL (job_at (qw_q w) a)"
    "j_CreatedAt j = j_CreatedAt (job_at (qw_q w) a)"
    using finish_scan_job [OF qs_finish(3) run(2,3)] by metis
  then show ?case using run by (auto simp: job_le_def finished_def intro!: heap_le_set)
qed (auto simp: queue_Stop_def intro: heap_le_same split: if_splits)

lemma queue_run_heap: "(queue_step cc)\<^sup>*\<^sup>* w w' \<Longrightarrow> queue_inv w \<Longrightarrow> heap_le (qw_q w) (qw_q w')"
proof (induction rule: rtranclp_induct)
  case base
  then show ?case by simp
next
  case (step v v')
  then show ?case using queue_step_heap queue_life.run_keeps heap_le_trans by blast
qed

text \<open>A pending job that is neither in the channel nor with a worker.\<close>

definition abandoned :: "addr \<Rightarrow> job_queue \<Rightarrow> worker list \<Rightarrow> bool" where
  "abandoned a q ws \<longleftrightarrow> a < length (q_heap q) \<and> j_Status (job_at q a) = StatusPending \<and>
     a \<notin> set (q_pending q) \<and> (\<forall>wk \<in> set ws. held wk \<noteq> Some a)"

lemma abandoned_move:
  assumes "abandoned a q ws" "i < length ws" "held (ws ! i) = Some b"
  shows "b \<noteq> a"
  using assms nth_mem by (force simp: abandoned_def)

lemma abandoned_set:
  assumes "abandoned a q ws" "i < length ws" "held (ws ! i) = Some b" "held wk = None \<or> held wk = Some b" "b < length (q_heap q)"
  shows "abandoned a (set_job b j q) (ws[i := wk])"
  using assms(1,4,5) abandoned_move [OF assms(1-3)] set_update_subset_insert [of ws i wk]
  by (auto simp: abandoned_def job_at_set)

lemma abandoned_stay:
  assumes "abandoned a q ws" "held wk \<noteq> Some a"
  shows "abandoned a q (ws[i := wk])"
  using assms set_update_subset_insert [of ws i wk] by (auto simp: abandoned_def)

lemma abandoned_sub:
  assumes "abandoned a q ws" "q_heap q' = q_heap q" "set (q_pending q') \<subseteq> set (q_pending q)"
  shows "abandoned a q' ws"
  using assms by (auto simp: abandoned_def job_at_def)

lemma abandoned_Enqueue:
  assumes "Enqueue now now' jid url q = (res, effs, q')" "abandoned a q ws"
  shows "abandoned a q' ws"
  using assms(1)
proof (cases rule: Enqueue_cases)
  case (full q1)
  then show ?thesis by (intro abandoned_sub [OF assms(2)]) auto
next
  case (new q1 j)
  then have "q_heap q' = q_heap q @ [j]" "set (q_pending q') \<subseteq> insert (length (q_heap q)) (set (q_pending q))"
    by (auto split: if_splits)
  then show ?thesis using assms(2) by (auto simp: abandoned_def job_at_def nth_append)
qed

lemma abandoned_step:
  assumes "queue_step cc w w'" "queue_inv w" "abandoned a (qw_q w) (qw_workers w)"
  shows "abandoned a (qw_q w') (qw_workers w')"
  using assms
proof (induction rule: queue_step.induct)
  case (qs_enqueue now now' jid url w res effs q')
  then show ?case using abandoned_Enqueue by simp
next
  case (qs_receive i w b rest)
  then have "b \<noteq> a" by (auto simp: abandoned_def)
  moreover have "abandoned a ((qw_q w)\<lparr>q_pending := rest\<rparr>) (qw_workers w)"
    by (rule abandoned_sub [OF qs_receive(5)]) (use qs_receive in auto)
  ultimately show ?case by (simp add: abandoned_stay)
next
  case (qs_exit i w)
  then show ?case by (simp add: abandoned_stay)
next
  case (qs_start i w b now effs q')
  then have "b < length (q_heap (qw_q w))" using held_job [of w i b] by auto
  then show ?case using qs_start by (auto simp: start_job_def intro: abandoned_set)
next
  case (qs_lookup i w b c now found c')
  then have "b \<noteq> a" using abandoned_move [of a "qw_q w" "qw_workers w" i b] by simp
  then show ?case using qs_lookup by (auto intro!: abandoned_stay split: option.splits)
next
  case (qs_nocache i w b)
  then have "b \<noteq> a" using abandoned_move [of a "qw_q w" "qw_workers w" i b] by simp
  then show ?case using qs_nocache by (simp add: abandoned_stay)
next
  case (qs_hit i w b e now effs q')
  then have "b < length (q_heap (qw_q w))" using held_job [of w i b] by auto
  then show ?case using qs_hit by (auto simp: finish_cached_def intro: abandoned_set)
next
  case (qs_scan i w b result)
  then have "b \<noteq> a" using abandoned_move [of a "qw_q w" "qw_workers w" i b] by simp
  then show ?case using qs_scan by (simp add: abandoned_stay)
next
  case (qs_finish i w b result wr tms ua effs q' cache')
  then have run: "b < length (q_heap (qw_q w))" "j_Status (job_at (qw_q w) b) = StatusRunning" "job_ok (job_at (qw_q w) b)"
    using held_job [of w i b] by auto
  obtain j where "q' = set_job b j (qw_q w)" using finish_scan_job [OF qs_finish(3) run(2,3)] by metis
  then show ?case using qs_finish(1,2,5) run(1) by (auto intro: abandoned_set)
qed (auto simp: queue_Stop_def intro: abandoned_sub split: if_splits)

interpretation abandoned_life: kept_by_steps "queue_step cc" "\<lambda>w. queue_inv w \<and> abandoned a (qw_q w) (qw_workers w)" for cc a
  by unfold_locales (blast intro: queue_step_inv abandoned_step)


section \<open>Clean-up and capacity\<close>

text \<open>The loop finds a finished job of the map, or there is none.\<close>

lemma oldest_job_fold:
  "case foldl (oldest_job_step q) (None, '''') jobs of
     (None, i) \<Rightarrow> i = '''' \<and> (\<forall>(k, a) \<in> set jobs. \<not> finished (job_at q a))
   | (Some a, i) \<Rightarrow> (i, a) \<in> set jobs \<and> finished (job_at q a)"
proof (induction jobs rule: rev_induct)
  case Nil
  then show ?case by simp
next
  case (snoc x jobs)
  obtain o1 i where st: "foldl (oldest_job_step q) (None, '''') jobs = (o1, i)" by (cases "foldl (oldest_job_step q) (None, '''') jobs")
  have step: "foldl (oldest_job_step q) (None, '''') (jobs @ [x]) = oldest_job_step q (o1, i) x" using st by simp
  show ?case
    using snoc unfolding st step
    by (cases x; cases o1) (auto simp: oldest_job_step_def [of q "(_, _)" "(_, _)"] Let_def)
qed

lemma cleanup_cases:
  assumes "gm_wf (q_jobs q)"
  obtains (expired) "q_jobs (cleanupLocked now q) =
        gm_filter (\<lambda>i a. \<not> (finished (job_at q a) \<and> j_CreatedAt (job_at q a) < now - q_resultTTL q)) (q_jobs q)"
      "gm_len (q_jobs (cleanupLocked now q)) < q_maxJobs q \<or> (\<forall>(i, a) \<in> set (q_jobs (cleanupLocked now q)). \<not> finished (job_at q a)) \<or>
       '''' \<in> fst ` set (q_jobs q)"
  | (oldest) i a where "gm_get (q_jobs q) i = Some a" "finished (job_at q a)"
      "q_jobs (cleanupLocked now q) = gm_del i
        (gm_filter (\<lambda>i a. \<not> (finished (job_at q a) \<and> j_CreatedAt (job_at q a) < now - q_resultTTL q)) (q_jobs q))"
      "gm_len (q_jobs (cleanupLocked now q)) < gm_len (q_jobs q)"
proof -
  let ?P = "\<lambda>i a. \<not> (finished (job_at q a) \<and> j_CreatedAt (job_at q a) < now - q_resultTTL q)"
  let ?jobs = "gm_filter ?P (q_jobs q)"
  have wf: "gm_wf ?jobs" using assms by (rule gm_wf_filter)
  obtain o1 i where st: "foldl (oldest_job_step q) (None, '''') ?jobs = (o1, i)" by (cases "foldl (oldest_job_step q) (None, '''') ?jobs")
  show thesis
  proof (cases "gm_len ?jobs \<ge> q_maxJobs q \<and> i \<noteq> ''''")
    case False
    have eq: "q_jobs (cleanupLocked now q) = ?jobs" using False st by (auto simp: cleanupLocked_def Let_def)
    moreover have "gm_len ?jobs < q_maxJobs q \<or> (\<forall>(i, a) \<in> set ?jobs. \<not> finished (job_at q a)) \<or> '''' \<in> fst ` set (q_jobs q)"
    proof (cases o1)
      case None
      then show ?thesis using oldest_job_fold [where q = q and jobs = ?jobs] unfolding st by simp
    next
      case (Some b)
      then have b: "(i, b) \<in> set ?jobs" using oldest_job_fold [where q = q and jobs = ?jobs] unfolding st by simp
      then have "i \<in> fst ` set (q_jobs q)" using gm_filter_sub [of ?P "q_jobs q"] by force
      then show ?thesis using False by (cases "i = ''''") simp_all
    qed
    ultimately show thesis using expired by simp
  next
    case True
    then obtain a where a: "(i, a) \<in> set ?jobs" "finished (job_at q a)"
      using oldest_job_fold [where q = q and jobs = ?jobs] unfolding st by (cases o1) auto
    have eq: "q_jobs (cleanupLocked now q) = gm_del i ?jobs" using True st by (simp add: cleanupLocked_def Let_def)
    have get: "gm_get ?jobs i = Some a" by (rule gm_in_set_get [OF wf a(1)])
    then have "0 < gm_len ?jobs" using a(1) by (auto simp: gm_len_def)
    then have "gm_len (gm_del i ?jobs) < gm_len (q_jobs q)"
      using gm.len_del [OF wf, of i] get gm_len_filter [of ?P "q_jobs q"] by simp
    moreover have "gm_get (q_jobs q) i = Some a" using get assms by (auto simp: gm_get_filter split: option.splits if_splits)
    ultimately show thesis using oldest a(2) eq by simp
  qed
qed

lemma cleanup_keeps_unfinished:
  assumes "gm_wf (q_jobs q)" "gm_get (q_jobs q) i = Some a" "\<not> finished (job_at q a)"
  shows "gm_get (q_jobs (cleanupLocked now q)) i = Some a"
  using assms(1)
proof (cases rule: cleanup_cases [of q now])
  case expired
  then show ?thesis using assms by (simp add: gm_get_filter)
next
  case (oldest k b)
  then have "k \<noteq> i" using assms by auto
  then show ?thesis using oldest(3) assms by (simp add: gm_get_filter gm.get_del)
qed

lemma cleanup_room:
  assumes "map_ok q" "'''' \<notin> fst ` set (q_jobs q)" "(i, a) \<in> set (q_jobs q)" "finished (job_at q a)"
  shows "gm_len (q_jobs (cleanupLocked now q)) < 1000"
proof -
  have q: "gm_wf (q_jobs q)" "gm_len (q_jobs q) \<le> 1000" "q_maxJobs q = 1000" using assms(1) by (simp_all add: map_ok_def)
  from q(1) show ?thesis
  proof (cases rule: cleanup_cases [of q now])
    case expired
    let ?P = "\<lambda>i a. \<not> (finished (job_at q a) \<and> j_CreatedAt (job_at q a) < now - q_resultTTL q)"
    show ?thesis
    proof (cases "(i, a) \<in> set (gm_filter ?P (q_jobs q))")
      case True
      then show ?thesis using expired assms(2,4) q(3) by auto
    next
      case False
      then have "length (filter (\<lambda>(i, a). ?P i a) (q_jobs q)) < length (q_jobs q)"
        using assms(3) by (intro length_filter_less [of "(i, a)"]) (auto simp: gm_filter_def)
      then show ?thesis using expired(1) q(2) by (simp add: gm_filter_def gm_len_def)
    qed
  next
    case (oldest k b)
    then show ?thesis using q(2) by simp
  qed
qed

lemma Enqueue_full_iff:
  assumes "map_ok q" "'''' \<notin> fst ` set (q_jobs q)"
  shows "fst (Enqueue now now' jid url q) = ErrQueueFull \<longleftrightarrow>
     gm_len (q_jobs q) = 1000 \<and> (\<forall>(i, a) \<in> set (q_jobs q). \<not> finished (job_at q a))"
proof -
  let ?q1 = "if gm_len (q_jobs q) \<ge> q_maxJobs q then cleanupLocked now q else q"
  have q: "gm_wf (q_jobs q)" "gm_len (q_jobs q) \<le> 1000" "q_maxJobs q = 1000" using assms(1) by (simp_all add: map_ok_def)
  have full: "fst (Enqueue now now' jid url q) = ErrQueueFull \<longleftrightarrow> gm_len (q_jobs ?q1) \<ge> 1000"
    using q(3) by (auto simp: Enqueue_def Let_def)
  have keep: "gm_len (q_jobs (cleanupLocked now q)) = gm_len (q_jobs q)" if "\<forall>(i, a) \<in> set (q_jobs q). \<not> finished (job_at q a)"
  proof -
    have "(i, a) \<in> set (q_jobs (cleanupLocked now q))" if "(i, a) \<in> set (q_jobs q)" for i a
      using cleanup_keeps_unfinished [OF q(1) gm_in_set_get [OF q(1) that], of now] that
        \<open>\<forall>(i, a) \<in> set (q_jobs q). \<not> finished (job_at q a)\<close>
      by (auto intro: gm_get_in_set)
    then have "set (q_jobs (cleanupLocked now q)) = set (q_jobs q)" using cleanup_jobs(2) [OF q(1), of now] by auto
    then show ?thesis using cleanup_jobs(1) [OF q(1), of now] q(1)
      by (simp add: gm_len_def gm_wf_def distinct_map distinct_card [symmetric])
  qed
  show ?thesis
  proof (cases "\<forall>(i, a) \<in> set (q_jobs q). \<not> finished (job_at q a)")
    case True
    then show ?thesis using full keep q(2,3) by auto
  next
    case False
    then have "gm_len (q_jobs (cleanupLocked now q)) < 1000" using cleanup_room [OF assms, of _ _ now] by fastforce
    then show ?thesis using False full q(2,3) by auto
  qed
qed


section \<open>Listing and statistics\<close>

interpretation job_order: rank_order "\<lambda>a. j_CreatedAt (job_at q a)" "\<lambda>a b. j_CreatedAt (job_at q a) < j_CreatedAt (job_at q b)" for q
  by unfold_locales simp

lemma stats_fold:
  "foldl (stats_step q) st jobs =
     st\<lparr>qs_Pending := qs_Pending st + length (filter (\<lambda>ia. j_Status (job_at q (snd ia)) = StatusPending) jobs),
        qs_Running := qs_Running st + length (filter (\<lambda>ia. j_Status (job_at q (snd ia)) = StatusRunning) jobs),
        qs_Completed := qs_Completed st + length (filter (\<lambda>ia. j_Status (job_at q (snd ia)) = StatusCompleted) jobs),
        qs_Failed := qs_Failed st + length (filter (\<lambda>ia. j_Status (job_at q (snd ia)) = StatusFailed) jobs)\<rparr>"
  by (induction jobs arbitrary: st) (auto simp: stats_step_def split: job_status.splits)

lemma status_partition:
  "length (filter (\<lambda>x. f x = StatusPending) xs) + length (filter (\<lambda>x. f x = StatusRunning) xs) +
   length (filter (\<lambda>x. f x = StatusCompleted) xs) + length (filter (\<lambda>x. f x = StatusFailed) xs) = length xs"
proof (induction xs)
  case (Cons x xs)
  then show ?case by (cases "f x") auto
qed simp

section \<open>Processing without interference\<close>

definition terminal_pubs :: "effect list \<Rightarrow> (string \<times> string) list" where
  "terminal_pubs effs = List.map_filter (\<lambda>e. case e of Pub i ev \<Rightarrow> if terminal ev then Some (i, e_Type ev) else None | Metric m \<Rightarrow> None) effs"

lemma terminal_pubs_simps [simp]:
  "terminal_pubs [] = []" "terminal_pubs (Metric m # es) = terminal_pubs es"
  "terminal_pubs (Pub i ev # es) = (if terminal ev then (i, e_Type ev) # terminal_pubs es else terminal_pubs es)"
  "terminal_pubs (es @ es') = terminal_pubs es @ terminal_pubs es'"
  by (simp_all add: terminal_pubs_def map_filter_simps) (induction es; simp add: map_filter_simps split: option.splits)

lemma terminal_pubs_metrics: "\<forall>e \<in> set es. \<exists>m. e = Metric m \<Longrightarrow> terminal_pubs es = []"
  by (induction es) auto

lemma record_metrics: "terminal_pubs (recordScanDetections r) = []"
  by (rule terminal_pubs_metrics) (auto simp: recordScanDetections_def split: option.splits if_splits)

lemma progress_not_terminal [simp]: "\<not> terminal (progress_event s n m)"
  by (simp add: terminal_def progress_event_def)

lemma scan_events_terminal:
  "terminal_pubs (scan_events i r) = [(i, if sr_Error r = None then ''completed'' else ''failed'')]"
  by (simp add: scan_events_def terminal_def split: option.splits)

lemma finish_scan_effects:
  "finish_scan cc wr tms ua result a q cache = (effs, q', cache') \<Longrightarrow> terminal_pubs effs = []"
  by (cases tms; cases cache)
     (auto simp: finish_scan_def Let_def record_metrics terminal_pubs_metrics split: option.splits prod.splits)

lemma processJob_hit:
  assumes "a < length (q_heap q)" "Get cc (pe_lookup pe) (j_URL (job_at q a)) c = (Some e, c')"
  shows "\<exists>effs q'. processJob cc pe a q (Some c) = (effs, q', Some c') \<and> terminal_pubs effs = [] \<and>
     j_Status (job_at q' a) = StatusCompleted \<and> j_Result (job_at q' a) = Some (ce_Result e) \<and> j_FromCache (job_at q' a) \<and>
     (\<forall>b. b \<noteq> a \<longrightarrow> job_at q' b = job_at q b)"
  using assms
  by (simp add: processJob_def start_job_def finish_cached_def Let_def job_at_set record_metrics)


lemma processJob_miss:
  assumes "a < length (q_heap q)" "job_ok (job_at q a)" "j_Status (job_at q a) = StatusPending"
    and "Get cc (pe_lookup pe) (j_URL (job_at q a)) c = (None, c')" "pe_times pe = (now, t, t1, t2)"
  shows "\<exists>effs q'. processJob cc pe a q (Some c) =
       (effs, q', Some (if sr_Error (pe_result pe) = None
                        then fst (cache_Set cc (pe_write pe) t t1 t2 (j_URL (job_at q a)) (pe_result pe) (pe_ua pe) c') else c')) \<and>
     terminal_pubs effs = [(j_ID (job_at q a), if sr_Error (pe_result pe) = None then ''completed'' else ''failed'')] \<and>
     j_Status (job_at q' a) = (if sr_Error (pe_result pe) = None then StatusCompleted else StatusFailed) \<and>
     j_Result (job_at q' a) = (if sr_Error (pe_result pe) = None then Some (pe_result pe) else None) \<and>
     \<not> j_FromCache (job_at q' a) = (\<not> j_FromCache (job_at q a)) \<and> (\<forall>b. b \<noteq> a \<longrightarrow> job_at q' b = job_at q b) \<and>
     length (q_heap q') = length (q_heap q)"
proof -
  let ?j = "(job_at q a)\<lparr>j_Status := StatusRunning, j_StartedAt := Some (pe_started pe)\<rparr>"
  let ?q = "set_job a ?j q"
  have at: "job_at ?q b = (if b = a then ?j else job_at q b)" for b using assms(1) by (simp add: job_at_set)
  obtain effs q' cache' where fs: "finish_scan cc (pe_write pe) (pe_times pe) (pe_ua pe) (pe_result pe) a ?q (Some c') = (effs, q', cache')"
    by (cases "finish_scan cc (pe_write pe) (pe_times pe) (pe_ua pe) (pe_result pe) a ?q (Some c')")
  have cache': "cache' = Some (if sr_Error (pe_result pe) = None
      then fst (cache_Set cc (pe_write pe) t t1 t2 (j_URL (job_at q a)) (pe_result pe) (pe_ua pe) c') else c')"
    using fs assms(5) at by (auto simp: finish_scan_def Let_def split: option.splits prod.splits)
  have ok: "j_Status (job_at ?q a) = StatusRunning" "job_ok (job_at ?q a)"
    using assms(2,3) by (auto simp: at job_ok_def)
  obtain j where j: "q' = set_job a j ?q" "job_ok j" "j_FromCache j = j_FromCache (job_at ?q a)"
    "j_Status j = (if sr_Error (pe_result pe) = None then StatusCompleted else StatusFailed)"
    "sr_Error (pe_result pe) = None \<Longrightarrow> j_Result j = Some (pe_result pe)"
    using finish_scan_job [OF fs ok] by metis
  have "sr_Error (pe_result pe) \<noteq> None \<Longrightarrow> j_Result j = None" using j(2,4) by (auto simp: job_ok_def)
  moreover have "job_at q' b = (if b = a then j else job_at q b)" for b using j(1) assms(1) at by (simp add: job_at_set)
  moreover have "processJob cc pe a q (Some c) =
      ([Pub (j_ID (job_at q a)) (progress_event (status_string StatusRunning) 10 ''Worker picked up job''), Metric (MInc ''CacheMisses'' [])] @
       scan_events (j_ID (job_at q a)) (pe_result pe) @ effs, q', cache')"
    using assms(4) at fs by (simp add: processJob_def start_job_def Let_def)
  ultimately show ?thesis
    using j cache' finish_scan_effects [OF fs] at by (auto simp: scan_events_terminal)
qed

section \<open>Properties\<close>

text \<open>C3: The queue's invariant. In every interleaving of callers, workers, clean-up and Stop,
  the map holds at most 1000 jobs, each under its own identifier and with fields that agree
  with its status (a completed job has a result, a running one a start time and no end); the
  channel holds at most 100 distinct pending jobs; and no job is held by two workers.\<close>

theorem queue_consistent:
  assumes "(queue_step cc)\<^sup>*\<^sup>* (queue_init workers cache) w"
  shows "gm_len (q_jobs (qw_q w)) \<le> 1000 \<and>
     (\<forall>i a. gm_get (q_jobs (qw_q w)) i = Some a \<longrightarrow> j_ID (job_at (qw_q w) a) = i \<and> job_ok (job_at (qw_q w) a)) \<and>
     length (q_pending (qw_q w)) \<le> 100 \<and> distinct (q_pending (qw_q w)) \<and>
     (\<forall>a \<in> set (q_pending (qw_q w)). j_Status (job_at (qw_q w) a) = StatusPending) \<and>
     (\<forall>i < length (qw_workers w). \<forall>k < length (qw_workers w). \<forall>a.
        held (qw_workers w ! i) = Some a \<and> held (qw_workers w ! k) = Some a \<longrightarrow> i = k)"
proof -
  have inv: "queue_inv w" by (rule queue_reachable_inv [OF assms])
  have "i = k" if "i < length (qw_workers w)" "k < length (qw_workers w)" "held (qw_workers w ! i) = Some a" "held (qw_workers w ! k) = Some a" for i k a
    using workers_held(3) [of "qw_q w" "qw_workers w" k a i] inv that by (simp add: queue_inv_def)
  moreover have "job_ok (job_at (qw_q w) a)" "j_ID (job_at (qw_q w) a) = i" if "gm_get (q_jobs (qw_q w)) i = Some a" for i a
    using inv gm_get_in_set [OF that] by (auto simp: queue_inv_def map_ok_def job_at_def)
  ultimately show ?thesis using inv unfolding queue_inv_def map_ok_def channel_ok_def pending_cap_def by blast
qed

lemma enqueue_reachable:
  "n \<le> 1000 \<Longrightarrow> \<exists>w. (queue_step cc)\<^sup>*\<^sup>* (queue_init 1 None) w \<and> length (q_heap (qw_q w)) = n \<and> length (q_pending (qw_q w)) = min n 100 \<and>
     gm_len (q_jobs (qw_q w)) \<le> 1 \<and> \<not> q_pending_closed (qw_q w) \<and> (\<forall>i a. gm_get (q_jobs (qw_q w)) i = Some a \<longrightarrow> i = ''x'')"
proof (induction n)
  case 0
  then show ?case by (intro exI [of _ "queue_init 1 None"]) (simp add: queue_init_def NewJobQueue_def gm_len_def gm_get_def)
next
  case (Suc n)
  then obtain w where w: "(queue_step cc)\<^sup>*\<^sup>* (queue_init 1 None) w" "length (q_heap (qw_q w)) = n" "length (q_pending (qw_q w)) = min n 100"
    "gm_len (q_jobs (qw_q w)) \<le> 1" "\<not> q_pending_closed (qw_q w)" "\<forall>i a. gm_get (q_jobs (qw_q w)) i = Some a \<longrightarrow> i = ''x''"
    by auto
  obtain res effs q' where e: "Enqueue 0 0 ''x'' ''u'' (qw_q w) = (res, effs, q')" by (cases "Enqueue 0 0 ''x'' ''u'' (qw_q w)")
  have m: "map_ok (qw_q w)" using queue_reachable_inv [OF w(1)] by (simp add: queue_inv_def)
  then have q1: "\<not> q_maxJobs (qw_q w) \<le> gm_len (q_jobs (qw_q w))" using w(4) by (simp add: map_ok_def)
  have len: "gm_len (gm_put ''x'' n (q_jobs (qw_q w))) \<le> 1"
  proof (cases "gm_get (q_jobs (qw_q w)) ''x''")
    case None
    then have "gm_get (q_jobs (qw_q w)) k = None" for k using w(6) by (metis not_Some_eq)
    then have "map_of (q_jobs (qw_q w)) = Map.empty" by (simp add: gm_get_def fun_eq_iff)
    then have "q_jobs (qw_q w) = []" by simp
    then show ?thesis by (simp add: gm_put_def gm_len_def)
  next
    case (Some b)
    then show ?thesis using m w(4) by (simp add: map_ok_def gm.len_put)
  qed
  have "queue_step cc w (w\<lparr>qw_q := q', qw_log := qw_log w @ effs\<rparr>)" by (rule qs_enqueue [OF e])
  then have "(queue_step cc)\<^sup>*\<^sup>* (queue_init 1 None) (w\<lparr>qw_q := q', qw_log := qw_log w @ effs\<rparr>)" using w(1) by simp
  moreover have "length (q_heap q') = Suc n \<and> length (q_pending q') = min (Suc n) 100 \<and> gm_len (q_jobs q') \<le> 1 \<and> \<not> q_pending_closed q' \<and>
      (\<forall>i a. gm_get (q_jobs q') i = Some a \<longrightarrow> i = ''x'')"
    using e
  proof (cases rule: Enqueue_cases)
    case (full q1)
    then show ?thesis using q1 by simp
  next
    case (new q1 j)
    then have "q1 = qw_q w" using q1 by simp
    then show ?thesis using new(8) w len by (auto simp: gm.get_put pending_cap_def split: if_splits)
  qed
  ultimately show ?case by (intro exI [of _ "w\<lparr>qw_q := q', qw_log := qw_log w @ effs\<rparr>"]) simp
qed

definition demo_codec :: "scan_result cache_codec" where
  "demo_codec = \<lparr>cc_sha = (\<lambda>s. CHR ''h'' # s), cc_enc = (\<lambda>es. None), cc_dec = (\<lambda>d. None)\<rparr>"

theorem queue_consistent_witness:
  "\<exists>w. (queue_step demo_codec)\<^sup>*\<^sup>* (queue_init 1 None) w \<and> length (q_pending (qw_q w)) = 2 \<and> gm_len (q_jobs (qw_q w)) \<le> 1000"
proof -
  obtain w where w: "(queue_step demo_codec)\<^sup>*\<^sup>* (queue_init 1 None) w" "length (q_pending (qw_q w)) = min 2 100"
    using enqueue_reachable [of 2 demo_codec] by auto
  then show ?thesis using queue_consistent [OF w(1)] by auto
qed


text \<open>C5: A job's life is one way. From any reachable state on, a finished job never changes, a
  job's status only moves on (pending, running, finished), and no job changes its identifier, URL or creation
  time; so every job is processed at most once.\<close>

theorem job_life_is_one_way:
  assumes "(queue_step cc)\<^sup>*\<^sup>* (queue_init workers cache) w" "(queue_step cc)\<^sup>*\<^sup>* w w'" "a < length (q_heap (qw_q w))"
  shows "a < length (q_heap (qw_q w')) \<and> job_le (job_at (qw_q w) a) (job_at (qw_q w') a)"
  using queue_run_heap [OF assms(2) queue_reachable_inv [OF assms(1)]] assms(3) by (simp add: heap_le_def)

theorem job_life_is_one_way_witness:
  "\<exists>w. (queue_step demo_codec)\<^sup>*\<^sup>* (queue_init 1 None) w \<and> 0 < length (q_heap (qw_q w)) \<and>
     job_le (job_at (qw_q w) 0) (job_at (cleanupLocked 5 (qw_q w)) 0)"
proof -
  obtain w where w: "(queue_step demo_codec)\<^sup>*\<^sup>* (queue_init 1 None) w" "length (q_heap (qw_q w)) = 2"
    using enqueue_reachable [of 2 demo_codec] by auto
  have run: "(queue_step demo_codec)\<^sup>*\<^sup>* w (w\<lparr>qw_q := cleanupLocked 5 (qw_q w)\<rparr>)" using qs_cleanup by blast
  have "0 < length (q_heap (qw_q w))" using w(2) by simp
  from job_life_is_one_way [OF w(1) run this] show ?thesis using w by auto
qed

text \<open>C38: A job that meets a full channel is never scanned. When \<open>Enqueue\<close> accepts a job while
  the channel already holds 100, the job is left out of it, and in every later state it is
  still pending, in no channel and with no worker. Such a state can be reached.\<close>

theorem dropped_job_stays_pending:
  assumes "(queue_step cc)\<^sup>*\<^sup>* (queue_init workers cache) w" "length (q_pending (qw_q w)) = 100"
    and "Enqueue now now' jid url (qw_q w) = (Enqueued a, effs, q')"
    and "(queue_step cc)\<^sup>*\<^sup>* (w\<lparr>qw_q := q', qw_log := qw_log w @ effs\<rparr>) w'"
  shows "j_Status (job_at (qw_q w') a) = StatusPending \<and> a \<notin> set (q_pending (qw_q w')) \<and>
     (\<forall>wk \<in> set (qw_workers w'). held wk \<noteq> Some a)"
proof -
  have inv: "queue_inv w" by (rule queue_reachable_inv [OF assms(1)])
  have inv': "queue_inv (w\<lparr>qw_q := q', qw_log := qw_log w @ effs\<rparr>)" by (rule Enqueue_inv [OF inv assms(3)])
  have "abandoned a q' (qw_workers w)" using assms(3)
  proof (cases rule: Enqueue_cases)
    case (new q1 j)
    have q1: "q_heap q1 = q_heap (qw_q w)" "q_pending q1 = q_pending (qw_q w)" "q_pending_closed q1 = q_pending_closed (qw_q w)"
      using new(1) by simp_all
    have a: "a = length (q_heap (qw_q w))" using new(9) q1 by (simp split: if_splits)
    have "a \<notin> set (q_pending (qw_q w))" using inv a by (auto simp: queue_inv_def channel_ok_def)
    moreover have "held wk \<noteq> Some a" if "wk \<in> set (qw_workers w)" for wk
      using that inv a by (auto simp: queue_inv_def in_set_conv_nth dest: workers_held(1))
    ultimately show ?thesis using new(4,8) q1 a assms(2) by (simp add: abandoned_def job_at_def pending_cap_def)
  qed simp
  then have "abandoned a (qw_q w') (qw_workers w')" using abandoned_life.run_keeps [OF assms(4)] inv' by simp
  then show ?thesis by (simp add: abandoned_def)
qed

theorem dropped_job_stays_pending_witness:
  "\<exists>w effs q'. (queue_step demo_codec)\<^sup>*\<^sup>* (queue_init 1 None) w \<and> length (q_pending (qw_q w)) = 100 \<and>
     Enqueue 0 0 ''y'' ''u'' (qw_q w) = (Enqueued 100, effs, q') \<and>
     j_Status (job_at q' 100) = StatusPending \<and> 100 \<notin> set (q_pending q')"
proof -
  obtain w where w: "(queue_step demo_codec)\<^sup>*\<^sup>* (queue_init 1 None) w" "length (q_heap (qw_q w)) = 100" "length (q_pending (qw_q w)) = min 100 100"
    "gm_len (q_jobs (qw_q w)) \<le> 1" "\<not> q_pending_closed (qw_q w)"
    using enqueue_reachable [of 100 demo_codec] by auto
  have "q_maxJobs (qw_q w) = 1000" using queue_reachable_inv [OF w(1)] by (simp add: queue_inv_def map_ok_def)
  then obtain effs q' where e: "Enqueue 0 0 ''y'' ''u'' (qw_q w) = (Enqueued 100, effs, q')"
    using w(2,4,5) by (simp add: Enqueue_def Let_def)
  have "length (q_pending (qw_q w)) = 100" using w(3) by simp
  from dropped_job_stays_pending [OF w(1) this e rtranclp.rtrancl_refl] show ?thesis using w(1) e \<open>length (q_pending (qw_q w)) = 100\<close> by auto
qed

text \<open>When the queue is full. \<open>Enqueue\<close> refuses a job exactly when all 1000 jobs of the map
  are still pending or running; clean-up never removes such a job.\<close>

theorem enqueue_refuses_iff_busy:
  assumes "map_ok q" "'''' \<notin> fst ` set (q_jobs q)"
  shows "(fst (Enqueue now now' jid url q) = ErrQueueFull \<longleftrightarrow>
       gm_len (q_jobs q) = 1000 \<and> (\<forall>(i, a) \<in> set (q_jobs q). \<not> finished (job_at q a))) \<and>
     (\<forall>i a. gm_get (q_jobs q) i = Some a \<and> \<not> finished (job_at q a) \<longrightarrow> gm_get (q_jobs (cleanupLocked now q)) i = Some a)"
  using Enqueue_full_iff [OF assms] cleanup_keeps_unfinished assms(1) by (auto simp: map_ok_def)

theorem enqueue_refuses_iff_busy_witness:
  "map_ok (NewJobQueue 2) \<and> fst (Enqueue 0 0 ''x'' ''u'' (NewJobQueue 2)) \<noteq> ErrQueueFull"
proof -
  have "map_ok (NewJobQueue 2)" "'''' \<notin> fst ` set (q_jobs (NewJobQueue 2))" "gm_len (q_jobs (NewJobQueue 2)) \<noteq> 1000"
    by (simp_all add: map_ok_def NewJobQueue_def gm_wf_def gm_len_def)
  then show ?thesis using enqueue_refuses_iff_busy [of "NewJobQueue 2" 0 0 "''x''" "''u''"] by blast
qed

text \<open>Listing. \<open>ListJobs\<close> returns the newest jobs first: its result is an initial segment, of
  the requested length where that is positive, of an arrangement of all jobs of the map in
  descending order of creation.\<close>

theorem list_jobs_newest_first:
  "\<exists>rest. mset (ListJobs limit q @ rest) = mset (map snd (q_jobs q)) \<and>
     sorted_wrt (\<lambda>a b. j_CreatedAt (job_at q b) \<le> j_CreatedAt (job_at q a)) (ListJobs limit q @ rest) \<and>
     length (ListJobs limit q) = (if 0 < limit then min (nat limit) (gm_len (q_jobs q)) else gm_len (q_jobs q))"
proof -
  let ?s = "xsort (\<lambda>a b. j_CreatedAt (job_at q a) < j_CreatedAt (job_at q b)) (map snd (q_jobs q))"
  have len: "length ?s = gm_len (q_jobs q)" by (simp add: gm_len_def)
  have perm: "mset ?s = mset (map snd (q_jobs q))" by (rule mset_xsort)
  have desc: "sorted_wrt (\<lambda>a b. j_CreatedAt (job_at q b) \<le> j_CreatedAt (job_at q a)) ?s" by (rule job_order.xsort_descending)
  show ?thesis
  proof (cases "0 < limit \<and> limit < int (length ?s)")
    case True
    then have "ListJobs limit q = take (nat limit) ?s" by (simp add: ListJobs_def Let_def)
    then show ?thesis using True perm desc len by (intro exI [of _ "drop (nat limit) ?s"]) auto
  next
    case False
    then have "ListJobs limit q = ?s" by (auto simp: ListJobs_def Let_def)
    then show ?thesis using False perm desc len by (intro exI [of _ "[]"]) auto
  qed
qed

text \<open>Statistics. Total is the number of jobs in the map and the four status counts add up
  to it, each counting the jobs with that status.\<close>

theorem queue_stats_add_up:
  "qs_Total (queue_Stats q) = gm_len (q_jobs q) \<and>
   qs_Pending (queue_Stats q) + qs_Running (queue_Stats q) + qs_Completed (queue_Stats q) + qs_Failed (queue_Stats q) = gm_len (q_jobs q) \<and>
   qs_Running (queue_Stats q) = length (filter (\<lambda>(i, a). j_Status (job_at q a) = StatusRunning) (q_jobs q))"
  using status_partition [of "\<lambda>ia. j_Status (job_at q (snd ia))" "q_jobs q"]
  by (simp add: queue_Stats_def stats_fold gm_len_def case_prod_unfold)


text \<open>What the subscribers hear of a job. A job that is scanned produces exactly one terminal
  event, under its own identifier and of the kind of its final status; a job that is answered
  from the cache is completed without any terminal event, so its subscribers are not told.\<close>

theorem terminal_events:
  assumes "a < length (q_heap q)" "job_ok (job_at q a)" "j_Status (job_at q a) = StatusPending"
  shows "case Get cc (pe_lookup pe) (j_URL (job_at q a)) c of
      (Some e, c') \<Rightarrow> (\<exists>effs q' cache'. processJob cc pe a q (Some c) = (effs, q', cache') \<and>
         terminal_pubs effs = [] \<and> j_Status (job_at q' a) = StatusCompleted)
    | (None, c') \<Rightarrow> (\<exists>effs q' cache'. processJob cc pe a q (Some c) = (effs, q', cache') \<and>
         terminal_pubs effs = [(j_ID (job_at q a), status_string (j_Status (job_at q' a)))] \<and> finished (job_at q' a))"
proof -
  obtain found c' where get: "Get cc (pe_lookup pe) (j_URL (job_at q a)) c = (found, c')"
    by (cases "Get cc (pe_lookup pe) (j_URL (job_at q a)) c")
  obtain now t t1 t2 where tms: "pe_times pe = (now, t, t1, t2)" by (cases "pe_times pe")
  show ?thesis
  proof (cases found)
    case None
    then show ?thesis
      using processJob_miss [OF assms get [unfolded None] tms] unfolding get by (auto simp: finished_def)
  next
    case (Some e)
    then show ?thesis using processJob_hit [OF assms(1) get [unfolded Some]] unfolding get by auto
  qed
qed

definition demo_job :: "string \<Rightarrow> string \<Rightarrow> job" where
  "demo_job jid url = \<lparr>j_ID = jid, j_URL = url, j_Status = StatusPending, j_CreatedAt = 0, j_StartedAt = None, j_FinishedAt = None,
     j_Duration = '''', j_Error = '''', j_Result = None, j_FromCache = False, j_UA = ''''\<rparr>"

definition demo_queue :: job_queue where
  "demo_queue = (NewJobQueue 2)\<lparr>q_heap := [demo_job ''j1'' ''a'', demo_job ''j2'' ''a/'']\<rparr>"

definition demo_process :: process_env where
  "demo_process = \<lparr>pe_started = 1, pe_lookup = 2, pe_hit = 3, pe_times = (4, 5, 5, 5), pe_result = empty_scan ''a'', pe_ua = ''ua'', pe_write = WriteOk\<rparr>"

lemma demo_jobs_pending:
  "a < 2 \<Longrightarrow> a < length (q_heap demo_queue) \<and> job_ok (job_at demo_queue a) \<and> j_Status (job_at demo_queue a) = StatusPending"
  by (auto simp: demo_queue_def demo_job_def job_at_def job_ok_def less_2_cases_iff)

theorem terminal_events_witness:
  "\<exists>effs q' cache'. processJob demo_codec demo_process 0 demo_queue (Some (NewCache demo_codec 0 10 '''' None)) = (effs, q', cache') \<and>
     terminal_pubs effs = [(''j1'', status_string (j_Status (job_at q' 0)))]"
proof -
  have "Get demo_codec (pe_lookup demo_process) (j_URL (job_at demo_queue 0)) (NewCache demo_codec 0 10 '''' None) =
      (None, (NewCache demo_codec 0 10 '''' None)\<lparr>c_misses := 1\<rparr>)"
    by (simp add: Get_def NewCache_def gm_get_def wrap64_def)
  moreover have "j_ID (job_at demo_queue 0) = ''j1''" by (simp add: demo_queue_def demo_job_def job_at_def)
  ultimately show ?thesis
    using terminal_events [of 0 demo_queue demo_codec demo_process "NewCache demo_codec 0 10 '''' None"] demo_jobs_pending [of 0] by auto
qed

text \<open>A second scan of a page is answered from the cache. When a job is scanned without an
  error, the cache has room and the life time is not over, then processing another job whose
  URL differs at most in trailing slashes completes it with the first job's result, marked as
  cached, and runs no scan.\<close>

theorem second_scan_is_cached:
  assumes "a < length (q_heap q)" "b < length (q_heap q)" "a \<noteq> b"
    and "job_ok (job_at q a)" "j_Status (job_at q a) = StatusPending"
    and "cache_inv cc c" "gm_len (c_entries c) < 5000" "fst (Get cc (pe_lookup pe) (j_URL (job_at q a)) c) = None"
    and "sr_Error (pe_result pe) = None" "pe_times pe = (now, t, t1, t2)" "t1 \<le> t + c_ttl c"
    and "processJob cc pe a q (Some c) = (effs, q1, cache1)"
    and "normalizeURL (j_URL (job_at q b)) = normalizeURL (j_URL (job_at q a))" "pe_lookup pe' \<le> t + c_ttl c"
    and "processJob cc pe' b q1 cache1 = (effs', q2, cache2)"
  shows "j_Status (job_at q2 b) = StatusCompleted \<and> j_FromCache (job_at q2 b) \<and> j_Result (job_at q2 b) = Some (pe_result pe) \<and>
     job_at q2 a = job_at q1 a"
proof -
  obtain c1 where c1: "Get cc (pe_lookup pe) (j_URL (job_at q a)) c = (None, c1)" using assms(8) by (metis prod.collapse)
  have c1_inv: "cache_inv cc c1" "c_entries c1 = c_entries c" "c_ttl c1 = c_ttl c"
    using c1 Get_inv [OF assms(6), of "pe_lookup pe" "j_URL (job_at q a)"] by (auto simp: Get_def split: option.splits if_splits)
  let ?c2 = "fst (cache_Set cc (pe_write pe) t t1 t2 (j_URL (job_at q a)) (pe_result pe) (pe_ua pe) c1)"
  have p: "cache1 = Some ?c2" "\<forall>b. b \<noteq> a \<longrightarrow> job_at q1 b = job_at q b" "length (q_heap q1) = length (q_heap q)"
    using processJob_miss [OF assms(1,4,5) c1 assms(10)] assms(9,12) by auto
  have url: "urlKey (cc_sha cc) (j_URL (job_at q b)) = urlKey (cc_sha cc) (j_URL (job_at q a))" using assms(13) by (simp add: urlKey_def)
  have look: "gm_get (c_entries ?c2) (urlKey (cc_sha cc) (j_URL (job_at q a))) =
      Some \<lparr>ce_URL = j_URL (job_at q a), ce_Result = pe_result pe, ce_CachedAt = t, ce_ExpiresAt = t + c_ttl c1, ce_UserAgent = pe_ua pe\<rparr>"
    by (rule Set_lookup [OF c1_inv(1)]) (use assms(7,11) c1_inv in auto)
  obtain c3 where "Get cc (pe_lookup pe') (j_URL (job_at q1 b)) ?c2 =
      (Some \<lparr>ce_URL = j_URL (job_at q a), ce_Result = pe_result pe, ce_CachedAt = t, ce_ExpiresAt = t + c_ttl c1, ce_UserAgent = pe_ua pe\<rparr>, c3)"
    using look url p(2) assms(3,14) c1_inv(3) by (auto simp: Get_def)
  from processJob_hit [OF _ this] show ?thesis using assms(2,3,15) p by auto
qed

theorem second_scan_is_cached_witness:
  "\<exists>effs q1 cache1 effs' q2 cache2.
     processJob demo_codec demo_process 0 demo_queue (Some (NewCache demo_codec 0 10 '''' None)) = (effs, q1, cache1) \<and>
     processJob demo_codec (demo_process\<lparr>pe_lookup := 9\<rparr>) 1 q1 cache1 = (effs', q2, cache2) \<and>
     j_FromCache (job_at q2 1) \<and> j_Result (job_at q2 1) = Some (empty_scan ''a'')"
proof -
  let ?c = "NewCache demo_codec 0 10 '''' None" and ?pe = "demo_process\<lparr>pe_lookup := 9\<rparr>"
  obtain effs q1 cache1 where p1: "processJob demo_codec demo_process 0 demo_queue (Some ?c) = (effs, q1, cache1)"
    by (cases "processJob demo_codec demo_process 0 demo_queue (Some ?c)")
  obtain effs' q2 cache2 where p2: "processJob demo_codec ?pe 1 q1 cache1 = (effs', q2, cache2)"
    by (cases "processJob demo_codec ?pe 1 q1 cache1")
  have c: "cache_inv demo_codec ?c" by (rule NewCache_inv) (simp add: file_ok_def)
  have c': "c_ttl ?c = 10" "gm_len (c_entries ?c) < 5000" by (simp_all add: NewCache_def gm_len_def)
  have get: "fst (Get demo_codec (pe_lookup demo_process) (j_URL (job_at demo_queue 0)) ?c) = None" by (simp add: Get_def NewCache_def gm_get_def)
  have urls: "normalizeURL (j_URL (job_at demo_queue 1)) = normalizeURL (j_URL (job_at demo_queue 0))" by code_simp
  have pe: "sr_Error (pe_result demo_process) = None" "pe_times demo_process = (4, 5, 5, 5)" "pe_lookup ?pe = 9" "pe_result demo_process = empty_scan ''a''"
    by (simp_all add: demo_process_def empty_scan_def)
  show ?thesis
    using second_scan_is_cached [OF _ _ _ _ _ c c'(2) get pe(1,2) _ p1 urls _ p2] demo_jobs_pending [of 0] demo_jobs_pending [of 1] c'(1) pe p1 p2
    by auto
qed

end
