(* ===== verification/Detect.thy ===== *)
theory Detect
  imports Scan_Types "HOL-Library.Sublist"
begin

text \<open>
  Technology detection, \<^verbatim>\<open>internal/scanner/scanner.go\<close>: \<^verbatim>\<open>matchPattern\<close>, \<^verbatim>\<open>detect\<close>,
  \<^verbatim>\<open>GetImplied\<close>, \<^verbatim>\<open>FormatResults\<close>, \<^verbatim>\<open>mergeUnique\<close>, \<^verbatim>\<open>rootDomain\<close>. The regular expressions of
  the fingerprint file are matched by the parameter \<open>rx\<close>, which takes a pattern and an input
  and is false for a pattern that does not compile.
\<close>

section \<open>Header names\<close>

text \<open>\<^verbatim>\<open>Header.Get\<close> looks up the canonical form of its argument.\<close>

definition is_upper :: "char \<Rightarrow> bool" where
  "is_upper c \<longleftrightarrow> 65 \<le> (of_char c :: nat) \<and> (of_char c :: nat) \<le> 90"

definition is_lower :: "char \<Rightarrow> bool" where
  "is_lower c \<longleftrightarrow> 97 \<le> (of_char c :: nat) \<and> (of_char c :: nat) \<le> 122"

definition is_digit :: "char \<Rightarrow> bool" where
  "is_digit c \<longleftrightarrow> 48 \<le> (of_char c :: nat) \<and> (of_char c :: nat) \<le> 57"

definition is_token_char :: "char \<Rightarrow> bool" where
  "is_token_char c \<longleftrightarrow> is_upper c \<or> is_lower c \<or> is_digit c \<or> c \<in> set ''!#$%&*+-.^_|~'' \<or> c = CHR 0x27 \<or> c = CHR 0x60"

definition to_upper_char :: "char \<Rightarrow> char" where
  "to_upper_char c = (if is_lower c then char_of ((of_char c :: nat) - 32) else c)"

fun canon_chars :: "bool \<Rightarrow> string \<Rightarrow> string" where
  "canon_chars up [] = []"
| "canon_chars up (c # s) = (if up then to_upper_char c else to_lower_char c) # canon_chars (c = CHR ''-'') s"

definition CanonicalHeaderKey :: "string \<Rightarrow> string" where
  "CanonicalHeaderKey s = (if \<forall>c \<in> set s. is_token_char c then canon_chars True s else s)"

definition Header_Get :: "(string, string) gomap \<Rightarrow> string \<Rightarrow> string" where
  "Header_Get hs k = (case gm_get hs (CanonicalHeaderKey k) of Some v \<Rightarrow> v | None \<Rightarrow> '''')"

section \<open>Rules\<close>

definition matchPattern :: "(string \<Rightarrow> string \<Rightarrow> bool) \<Rightarrow> string \<Rightarrow> string \<Rightarrow> string \<Rightarrow> bool" where
  "matchPattern rx input pattern matchType =
     (if pattern = '''' then input \<noteq> ''''
      else if matchType = ''exact'' then input = pattern
      else if matchType = ''regex'' then rx pattern input
      else if matchType = ''exists'' then input \<noteq> ''''
      else Contains input pattern)"

definition rule_conf :: "detection_rule \<Rightarrow> int" where
  "rule_conf r = (if dr_Confidence r = 0 then 100 else dr_Confidence r)"

type_synonym score = "int \<times> tech_match list"

definition add_hit :: "detection_rule \<Rightarrow> tech_match \<Rightarrow> score \<Rightarrow> score" where
  "add_hit r m st = (wrap64 (fst st + rule_conf r), snd st @ [m])"

definition html_rule :: "(string \<Rightarrow> string \<Rightarrow> bool) \<Rightarrow> scan_result \<Rightarrow> detection_rule \<Rightarrow> tech_match option" where
  "html_rule rx data r =
     (if matchPattern rx (sr_HTML data) (dr_Pattern r) (dr_Match r)
      then Some \<lparr>m_Type = ''html'', m_Rule = dr_Pattern r, m_Detail = ''HTML match''\<rparr> else None)"

definition header_rule :: "(string \<Rightarrow> string \<Rightarrow> bool) \<Rightarrow> scan_result \<Rightarrow> detection_rule \<Rightarrow> tech_match option" where
  "header_rule rx data r =
     (let headerVal = Header_Get (sr_Headers data) (dr_Header r) in
      if headerVal \<noteq> '''' \<and> (dr_Pattern r = '''' \<or> matchPattern rx headerVal (dr_Pattern r) (dr_Match r))
      then Some \<lparr>m_Type = ''header'', m_Rule = dr_Header r @ '': '' @ dr_Pattern r, m_Detail = headerVal\<rparr> else None)"

text \<open>The loops over scripts, style sheets, globals and cookies stop at the first item that
  matches.\<close>

definition item_rule ::
  "(string \<Rightarrow> string \<Rightarrow> bool) \<Rightarrow> string \<Rightarrow> string list \<Rightarrow> detection_rule \<Rightarrow> tech_match option"
where
  "item_rule rx ty items r =
     (case find (\<lambda>x. matchPattern rx x (dr_Pattern r) (dr_Match r)) items of
        None \<Rightarrow> None
      | Some x \<Rightarrow> Some \<lparr>m_Type = ty, m_Rule = dr_Pattern r, m_Detail = x\<rparr>)"

definition url_rule :: "(string \<Rightarrow> string \<Rightarrow> bool) \<Rightarrow> scan_result \<Rightarrow> detection_rule \<Rightarrow> tech_match option" where
  "url_rule rx data r =
     (if matchPattern rx (sr_URL data) (dr_Pattern r) (dr_Match r)
      then Some \<lparr>m_Type = ''url'', m_Rule = dr_Pattern r, m_Detail = ''URL match''\<rparr> else None)"

definition meta_rule :: "(string \<Rightarrow> string \<Rightarrow> bool) \<Rightarrow> scan_result \<Rightarrow> detection_rule \<Rightarrow> tech_match option" where
  "meta_rule rx data r =
     (case gm_get (sr_MetaTags data) (ToLower (dr_Name r)) of
        None \<Rightarrow> None
      | Some v \<Rightarrow> if matchPattern rx v (dr_Pattern r) (dr_Match r)
          then Some \<lparr>m_Type = ''meta'', m_Rule = dr_Name r @ ''='' @ dr_Pattern r, m_Detail = v\<rparr> else None)"

definition run_rules :: "(detection_rule \<Rightarrow> tech_match option) \<Rightarrow> detection_rule list \<Rightarrow> score \<Rightarrow> score" where
  "run_rules f rules st = foldl (\<lambda>st r. case f r of None \<Rightarrow> st | Some m \<Rightarrow> add_hit r m st) st rules"

definition score_tech :: "(string \<Rightarrow> string \<Rightarrow> bool) \<Rightarrow> scan_result \<Rightarrow> technology \<Rightarrow> score" where
  "score_tech rx data tech =
     (let ds = t_Detectors tech;
          st1 = run_rules (html_rule rx data) (d_HTML ds) (0, []);
          st2 = run_rules (header_rule rx data) (d_Headers ds) st1;
          st3 = run_rules (item_rule rx ''script'' (sr_Scripts data)) (d_Scripts ds) st2;
          st4 = run_rules (item_rule rx ''css'' (sr_CSSLinks data)) (d_CSS ds) st3;
          st5 = run_rules (url_rule rx data) (d_URL ds) st4;
          st6 = run_rules (meta_rule rx data) (d_Meta ds) st5;
          st7 = run_rules (item_rule rx ''js_global'' (sr_JSGlobals data)) (d_JSGlobals ds) st6
      in run_rules (item_rule rx ''cookie'' (sr_Cookies data)) (d_Cookies ds) st7)"

definition detect :: "(string \<Rightarrow> string \<Rightarrow> bool) \<Rightarrow> technology list \<Rightarrow> scan_result \<Rightarrow> tech_result list" where
  "detect rx techs data =
     foldl (\<lambda>results tech.
        let (confidence, matches) = score_tech rx data tech in
        if confidence > 0 then results @ [\<lparr>tr_Technology = tech, tr_Confidence = confidence, tr_Matches = matches\<rparr>]
        else results) [] techs"

section \<open>Implied technologies and output\<close>

definition implied_step :: "string set \<times> string list \<Rightarrow> string \<Rightarrow> string set \<times> string list" where
  "implied_step st imp =
     (let (detected, implied) = st in
      if imp \<notin> detected then (insert imp detected, implied @ [imp]) else st)"

definition GetImplied :: "tech_result list \<Rightarrow> string list" where
  "GetImplied results =
     (let detected = foldl (\<lambda>d r. insert (t_Slug (tr_Technology r)) d) {} results
      in snd (foldl (\<lambda>st r. foldl implied_step st (t_Implies (tr_Technology r))) (detected, []) results))"

text \<open>\<^verbatim>\<open>%-20s\<close>\<close>

definition pad_right :: "nat \<Rightarrow> string \<Rightarrow> string" where
  "pad_right n s = s @ replicate (n - length s) (CHR '' '')"

definition FormatResults :: "tech_result list \<Rightarrow> string" where
  "FormatResults results =
     (if length results = 0 then ''No technologies detected.''
      else concat (map (\<lambda>r.
             pad_right 20 (t_Name (tr_Technology r)) @ '' '' @ t_Category (tr_Technology r) @ [CHR 0x0A] @
             concat (map (\<lambda>m. ''  ['' @ m_Type m @ ''] '' @ m_Rule m @ [CHR 0x0A]) (tr_Matches r))) results))"

definition mergeUnique :: "string list \<Rightarrow> string \<Rightarrow> string list" where
  "mergeUnique dst e =
     (if e = '''' then dst else if e \<in> set dst then dst else if length dst \<ge> 20 then dst else dst @ [e])"

definition rootDomain :: "string \<Rightarrow> string" where
  "rootDomain host =
     (let h = TrimSuffix host ''.''; parts = Split h (CHR ''.'') in
      if length parts < 2 then h else Join (drop (length parts - 2) parts) ''.'')"


section \<open>Reference definitions\<close>

text \<open>The rules of a technology that match, with what they matched, in the order of the code.\<close>

definition rule_hits :: "(detection_rule \<Rightarrow> tech_match option) \<Rightarrow> detection_rule list \<Rightarrow> (detection_rule \<times> tech_match) list" where
  "rule_hits f rules = List.map_filter (\<lambda>r. map_option (Pair r) (f r)) rules"

definition tech_hits :: "(string \<Rightarrow> string \<Rightarrow> bool) \<Rightarrow> scan_result \<Rightarrow> technology \<Rightarrow> (detection_rule \<times> tech_match) list" where
  "tech_hits rx data tech =
     rule_hits (html_rule rx data) (d_HTML (t_Detectors tech)) @
     rule_hits (header_rule rx data) (d_Headers (t_Detectors tech)) @
     rule_hits (item_rule rx ''script'' (sr_Scripts data)) (d_Scripts (t_Detectors tech)) @
     rule_hits (item_rule rx ''css'' (sr_CSSLinks data)) (d_CSS (t_Detectors tech)) @
     rule_hits (url_rule rx data) (d_URL (t_Detectors tech)) @
     rule_hits (meta_rule rx data) (d_Meta (t_Detectors tech)) @
     rule_hits (item_rule rx ''js_global'' (sr_JSGlobals data)) (d_JSGlobals (t_Detectors tech)) @
     rule_hits (item_rule rx ''cookie'' (sr_Cookies data)) (d_Cookies (t_Detectors tech))"

definition tech_rules :: "technology \<Rightarrow> detection_rule list" where
  "tech_rules tech = (let ds = t_Detectors tech in
     d_HTML ds @ d_Headers ds @ d_Scripts ds @ d_CSS ds @ d_URL ds @ d_Meta ds @ d_JSGlobals ds @ d_Cookies ds)"

text \<open>Confidences as the fingerprint files have them: not negative, and small enough that no
  technology's total leaves 64 bits.\<close>

definition sane_tech :: "technology \<Rightarrow> bool" where
  "sane_tech tech \<longleftrightarrow> (\<forall>r \<in> set (tech_rules tech). 0 \<le> dr_Confidence r \<and> dr_Confidence r \<le> 1000000) \<and>
     length (tech_rules tech) \<le> 1000000"

definition total_conf :: "int \<Rightarrow> (detection_rule \<times> tech_match) list \<Rightarrow> int" where
  "total_conf c hits = foldl (\<lambda>c (r, m). wrap64 (c + rule_conf r)) c hits"

lemma total_conf_append: "total_conf (total_conf c hs) hs' = total_conf c (hs @ hs')"
  by (simp add: total_conf_def)

lemma run_rules_hits:
  "run_rules f rules st = (total_conf (fst st) (rule_hits f rules), snd st @ map snd (rule_hits f rules))"
  unfolding run_rules_def rule_hits_def total_conf_def
  by (induction rules arbitrary: st) (auto simp: add_hit_def map_filter_simps split: option.splits)

lemma score_tech_hits: "score_tech rx data tech = (total_conf 0 (tech_hits rx data tech), map snd (tech_hits rx data tech))"
  unfolding score_tech_def tech_hits_def Let_def run_rules_hits
  by (simp only: fst_conv snd_conv total_conf_append append_assoc map_append append_Nil)

lemma rule_hits_subset: "set (map fst (rule_hits f rules)) \<subseteq> set rules" "length (rule_hits f rules) \<le> length rules"
  by (induction rules) (auto simp: rule_hits_def map_filter_simps split: option.splits)

lemma tech_hits_subset:
  "set (map fst (tech_hits rx data tech)) \<subseteq> set (tech_rules tech)"
  "length (tech_hits rx data tech) \<le> length (tech_rules tech)"
proof -
  show "set (map fst (tech_hits rx data tech)) \<subseteq> set (tech_rules tech)"
    unfolding tech_hits_def tech_rules_def Let_def map_append set_append
    by (intro Un_mono rule_hits_subset(1))
  show "length (tech_hits rx data tech) \<le> length (tech_rules tech)"
    unfolding tech_hits_def tech_rules_def Let_def length_append
    by (intro add_mono rule_hits_subset(2))
qed

lemma total_conf_exact:
  assumes "\<forall>(r, m) \<in> set hits. 0 \<le> dr_Confidence r \<and> dr_Confidence r \<le> 1000000"
    and "0 \<le> c" "c + 1000000 * int (length hits) < 2 ^ 63"
  shows "total_conf c hits = c + (\<Sum>(r, m) \<leftarrow> hits. rule_conf r)"
  using assms
proof (induction hits arbitrary: c)
  case Nil
  then show ?case by (simp add: total_conf_def)
next
  case (Cons h hits)
  obtain r m where h: "h = (r, m)" by (cases h)
  have r: "1 \<le> rule_conf r" "rule_conf r \<le> 1000000" using Cons.prems(1) h by (auto simp: rule_conf_def)
  have "wrap64 (c + rule_conf r) = c + rule_conf r" using Cons.prems r by (intro wrap64_id) simp_all
  moreover have "total_conf (c + rule_conf r) hits = c + rule_conf r + (\<Sum>(r, m) \<leftarrow> hits. rule_conf r)"
    by (rule Cons.IH) (use Cons.prems r in simp_all)
  ultimately show ?case using h by (simp add: total_conf_def)
qed

lemma conf_positive:
  assumes "\<forall>(r, m) \<in> set hits. 0 \<le> dr_Confidence r \<and> dr_Confidence r \<le> 1000000" "hits \<noteq> []"
  shows "0 < (\<Sum>(r, m) \<leftarrow> hits. rule_conf r)"
proof -
  have pos: "(r, m) \<in> set hits \<Longrightarrow> 0 < rule_conf r" for r m using assms(1) by (force simp: rule_conf_def)
  then have "0 \<le> (\<Sum>(r, m) \<leftarrow> tl hits. rule_conf r)"
    by (intro sum_list_nonneg) (auto dest!: list.set_sel(2) [OF assms(2)] less_imp_le)
  moreover have "0 < (case hd hits of (r, m) \<Rightarrow> rule_conf r)" using assms(2) pos by (cases "hd hits") (metis case_prod_conv list.set_sel(1))
  ultimately show ?thesis using assms(2) by (cases hits) auto
qed

lemma sane_total:
  assumes "sane_tech tech"
  shows "total_conf 0 (tech_hits rx data tech) = (\<Sum>(r, m) \<leftarrow> tech_hits rx data tech. rule_conf r)"
    and "0 < total_conf 0 (tech_hits rx data tech) \<longleftrightarrow> tech_hits rx data tech \<noteq> []"
proof -
  have ok: "\<forall>(r, m) \<in> set (tech_hits rx data tech). 0 \<le> dr_Confidence r \<and> dr_Confidence r \<le> 1000000"
    using assms tech_hits_subset(1) [of rx data tech] by (auto simp: sane_tech_def)
  have "length (tech_hits rx data tech) \<le> 1000000"
    using tech_hits_subset(2) [of rx data tech] assms by (simp add: sane_tech_def)
  then show eq: "total_conf 0 (tech_hits rx data tech) = (\<Sum>(r, m) \<leftarrow> tech_hits rx data tech. rule_conf r)"
    using total_conf_exact [OF ok, of 0] by simp
  show "0 < total_conf 0 (tech_hits rx data tech) \<longleftrightarrow> tech_hits rx data tech \<noteq> []"
    using conf_positive [OF ok] unfolding eq by auto
qed

lemma detect_filter:
  "detect rx techs data =
     map (\<lambda>tech. \<lparr>tr_Technology = tech, tr_Confidence = fst (score_tech rx data tech), tr_Matches = snd (score_tech rx data tech)\<rparr>)
       (filter (\<lambda>tech. 0 < fst (score_tech rx data tech)) techs)"
  unfolding detect_def by (induction techs rule: rev_induct) (auto simp: Let_def split: prod.splits)

lemma implied_fold:
  assumes "set ims \<subseteq> det" "distinct ims"
  shows "let st = foldl implied_step (det, ims) xs in
     fst st = det \<union> set xs \<and> set (snd st) = set ims \<union> (set xs - det) \<and> distinct (snd st)"
  using assms
proof (induction xs arbitrary: det ims)
  case Nil
  then show ?case by (simp add: Let_def)
next
  case (Cons x xs)
  show ?case
  proof (cases "x \<in> det")
    case True
    then show ?thesis using Cons by (auto simp: implied_step_def Let_def)
  next
    case False
    then have "set (ims @ [x]) \<subseteq> insert x det" "distinct (ims @ [x])" using Cons.prems by auto
    then show ?thesis using Cons.IH [of "ims @ [x]" "insert x det"] False by (auto simp: implied_step_def Let_def)
  qed
qed

lemma foldl_concat: "foldl (\<lambda>st r. foldl g st (h r)) st rs = foldl g st (concat (map h rs))"
  by (induction rs arbitrary: st) auto

lemma foldl_insert: "foldl (\<lambda>d r. insert (f r) d) A rs = A \<union> f ` set rs"
  by (induction rs arbitrary: A) auto

lemma mergeUnique_keeps [inv_intros]: "distinct dst \<and> length dst \<le> 20 \<Longrightarrow> distinct (mergeUnique dst e) \<and> length (mergeUnique dst e) \<le> 20"
  by (auto simp: mergeUnique_def)

section \<open>Properties\<close>

text \<open>C9: Detection is exact. For fingerprints with confidences between 0 and a million, the
  result lists, in database order, exactly the technologies with at least one matching rule;
  each entry's matches are those of its matching rules in the order of the detectors, and its
  confidence is the sum of their confidences (100 where a rule gives none).\<close>

theorem detect_exact:
  assumes "\<forall>tech \<in> set techs. sane_tech tech"
  shows "detect rx techs data =
     map (\<lambda>tech. \<lparr>tr_Technology = tech, tr_Confidence = (\<Sum>(r, m) \<leftarrow> tech_hits rx data tech. rule_conf r),
                  tr_Matches = map snd (tech_hits rx data tech)\<rparr>)
       (filter (\<lambda>tech. tech_hits rx data tech \<noteq> []) techs)"
proof -
  have "filter (\<lambda>tech. 0 < fst (score_tech rx data tech)) techs = filter (\<lambda>tech. tech_hits rx data tech \<noteq> []) techs"
    using assms by (intro filter_cong) (simp_all add: score_tech_hits sane_total(2))
  then show ?thesis using assms by (simp add: detect_filter score_tech_hits sane_total(1))
qed

definition demo_tech :: technology where
  "demo_tech = \<lparr>t_Slug = ''wp'', t_Name = ''WordPress'', t_Website = '''', t_Category = ''cms'', t_Icon = '''',
     t_Detectors = \<lparr>d_HTML = [\<lparr>dr_Pattern = ''wp-'', dr_Match = '''', dr_Confidence = 0, dr_Name = '''', dr_Header = ''''\<rparr>],
       d_Headers = [], d_Scripts = [], d_Cookies = [], d_URL = [], d_JSGlobals = [], d_CSS = [], d_Meta = []\<rparr>,
     t_Implies = [''php''], t_Excludes = []\<rparr>"

theorem detect_exact_witness:
  "sane_tech demo_tech \<and>
   detect (\<lambda>p s. False) [demo_tech] ((empty_scan ''u'')\<lparr>sr_HTML := ''a wp-x''\<rparr>) =
     [\<lparr>tr_Technology = demo_tech, tr_Confidence = 100,
       tr_Matches = [\<lparr>m_Type = ''html'', m_Rule = ''wp-'', m_Detail = ''HTML match''\<rparr>]\<rparr>]"
proof -
  have sane: "sane_tech demo_tech" by (simp add: sane_tech_def demo_tech_def tech_rules_def Let_def)
  have hits: "tech_hits (\<lambda>p s. False) ((empty_scan ''u'')\<lparr>sr_HTML := ''a wp-x''\<rparr>) demo_tech =
      [(\<lparr>dr_Pattern = ''wp-'', dr_Match = '''', dr_Confidence = 0, dr_Name = '''', dr_Header = ''''\<rparr>,
        \<lparr>m_Type = ''html'', m_Rule = ''wp-'', m_Detail = ''HTML match''\<rparr>)]"
    by (simp add: tech_hits_def rule_hits_def demo_tech_def map_filter_simps html_rule_def matchPattern_def Contains_def HasPrefix_def)
  from sane have "\<forall>tech \<in> set [demo_tech]. sane_tech tech" by simp
  from detect_exact [OF this, of "\<lambda>p s. False" "(empty_scan ''u'')\<lparr>sr_HTML := ''a wp-x''\<rparr>"] show ?thesis
    using sane by (simp add: hits rule_conf_def)
qed

text \<open>Implied technologies. \<open>GetImplied\<close> returns, without repetition, exactly the slugs that
  some detected technology implies and that were not detected themselves.\<close>

theorem implied_exact:
  "distinct (GetImplied results) \<and>
   set (GetImplied results) =
     (\<Union>r \<in> set results. set (t_Implies (tr_Technology r))) - (\<lambda>r. t_Slug (tr_Technology r)) ` set results"
proof -
  let ?det = "(\<lambda>r. t_Slug (tr_Technology r)) ` set results"
  let ?ims = "concat (map (\<lambda>r. t_Implies (tr_Technology r)) results)"
  have "GetImplied results = snd (foldl implied_step (?det, []) ?ims)"
    by (simp add: GetImplied_def foldl_concat foldl_insert Let_def)
  then show ?thesis using implied_fold [of "[]" ?det ?ims] by (auto simp: Let_def)
qed

end
