(* ===== verification/Report.thy ===== *)
theory Report
  imports Scan_Types Go_Format
begin

text \<open>
  The printable report: \<^verbatim>\<open>internal/report/report.go\<close>, the stylesheet of \<^verbatim>\<open>styles.go\<close>, and the
  printing of \<^verbatim>\<open>pdf.go\<close> with the browser as a parameter. Times are formatted in UTC; \<open>now\<close> is the clock reading of the
  function that needs one. The number of days of \<open>renderSSL\<close>, computed in floating point by the
  code, is the exact quotient truncated.
\<close>

section \<open>Standard library\<close>

text \<open>\<^verbatim>\<open>html.EscapeString\<close>\<close>

definition escape_char :: "char \<Rightarrow> string" where
  "escape_char c =
     (if c = CHR ''&'' then ''&amp;''
      else if c = CHR 0x27 then ''&#39;''
      else if c = CHR ''<'' then ''&lt;''
      else if c = CHR ''>'' then ''&gt;''
      else if c = CHR 0x22 then ''&#34;''
      else [c])"

definition EscapeString :: "string \<Rightarrow> string" where
  "EscapeString s = concat (map escape_char s)"

text \<open>\<^verbatim>\<open>strings.Title\<close> for ASCII text.\<close>

definition is_word_char :: "char \<Rightarrow> bool" where
  "is_word_char c \<longleftrightarrow> (let n = (of_char c :: nat) in
     48 \<le> n \<and> n \<le> 57 \<or> 65 \<le> n \<and> n \<le> 90 \<or> 97 \<le> n \<and> n \<le> 122 \<or> n = 95)"

definition title_char :: "char \<Rightarrow> char" where
  "title_char c = (let n = (of_char c :: nat) in if 97 \<le> n \<and> n \<le> 122 then char_of (n - 32) else c)"

fun title_from :: "bool \<Rightarrow> string \<Rightarrow> string" where
  "title_from start [] = []"
| "title_from start (c # s) = (if start then title_char c else c) # title_from (\<not> is_word_char c) s"

definition Title :: "string \<Rightarrow> string" where
  "Title s = title_from True s"

text \<open>\<^verbatim>\<open>t.UTC().Format("2006-01-02")\<close> and \<^verbatim>\<open>Format("2006-01-02 15:04 UTC")\<close>\<close>

definition format_date :: "time \<Rightarrow> string" where
  "format_date t = take 10 (format_RFC3339 t)"

definition format_minute :: "time \<Rightarrow> string" where
  "format_minute t = format_date t @ '' '' @ take 5 (drop 11 (format_RFC3339 t)) @ '' UTC''"

text \<open>\<^verbatim>\<open>%.nf\<close> of \<open>a / b\<close>, rounded half to even.\<close>

definition round_half_even :: "int \<Rightarrow> int \<Rightarrow> int" where
  "round_half_even a b =
     (let q = a div b; r = a mod b in if 2 * r < b \<or> 2 * r = b \<and> even q then q else q + 1)"

definition fixed :: "nat \<Rightarrow> int \<Rightarrow> int \<Rightarrow> string" where
  "fixed n a b = (let v = round_half_even (a * 10 ^ n) b in Itoa (v div 10 ^ n) @ ''.'' @ frac_digits n (v mod 10 ^ n))"

section \<open>Small helpers\<close>

definition css_lines :: "string list" where
  "css_lines = [
     ''*{box-sizing:border-box;margin:0;padding:0}'',
     ''body{font-family:-apple-system,BlinkMacSystemFont,\"Segoe UI\",Roboto,sans-serif;'',
     ''  color:#0F172A;background:#FAFAF9;line-height:1.5;padding:32px;max-width:980px;margin:0 auto}'',
     ''.hdr{background:#0F172A;color:#fff;padding:32px;border-radius:12px;margin-bottom:24px}'',
     ''.hdr-row{display:flex;justify-content:space-between;align-items:baseline;margin-bottom:24px}'',
     ''.hdr-brand{font-weight:700;font-size:14px;letter-spacing:0.5px;text-transform:uppercase;color:#94A3B8}'',
     ''.hdr-meta{font-size:12px;color:#94A3B8;font-family:ui-monospace,monospace}'',
     ''.hdr-url{font-size:24px;font-weight:600;word-break:break-all;margin-bottom:24px}'',
     ''.hdr-stats{display:flex;gap:24px;flex-wrap:wrap}'',
     ''.hdr-stat-label{font-size:11px;text-transform:uppercase;letter-spacing:0.5px;color:#94A3B8;margin-bottom:4px}'',
     ''.hdr-stat-val{font-size:16px;font-weight:500}'',
     ''.mono{font-family:ui-monospace,monospace;font-size:13px}'',
     ''.sec{background:#fff;border:1px solid #E2E8F0;border-radius:12px;padding:24px;margin-bottom:16px}'',
     ''.sec h2{font-size:16px;font-weight:600;margin-bottom:16px;color:#0F172A}'',
     ''.cat-block{margin-bottom:16px}'',
     ''.cat-block:last-child{margin-bottom:0}'',
     ''.cat-title{font-size:12px;text-transform:uppercase;letter-spacing:0.5px;color:#64748B;'',
     ''  margin-bottom:8px;font-weight:600}'',
     ''.pills{display:flex;flex-wrap:wrap;gap:8px}'',
     ''.pill{display:inline-block;padding:6px 12px;background:#F1F5F9;border-radius:999px;'',
     ''  font-size:13px;color:#0F172A;font-weight:500}'',
     ''.pill-link{text-decoration:none;color:#0F172A;border:1px solid #CBD5E1}'',
     ''.pill-link:hover{background:#E2E8F0}'',
     ''.pill-conf{color:#64748B;font-weight:400;margin-left:4px}'',
     ''.grid-2{display:grid;grid-template-columns:repeat(2,1fr);gap:16px}'',
     ''@media(max-width:680px){.grid-2{grid-template-columns:1fr}}'',
     ''.card{background:#FAFAF9;border:1px solid #E2E8F0;border-radius:8px;padding:16px}'',
     ''.card-title{font-size:12px;text-transform:uppercase;letter-spacing:0.5px;color:#64748B;'',
     ''  font-weight:600;margin-bottom:12px}'',
     ''.kv{display:flex;justify-content:space-between;padding:6px 0;font-size:13px;'',
     ''  border-bottom:1px solid #F1F5F9;gap:12px}'',
     ''.kv:last-child{border-bottom:none}'',
     ''.k{color:#64748B;font-weight:500}'',
     ''.v{color:#0F172A;text-align:right;word-break:break-word;font-family:ui-monospace,monospace;font-size:12px}'',
     ''.v.warn{color:#D97706}'',
     ''.v.err{color:#DC2626}'',
     ''.empty{color:#94A3B8;font-size:13px;font-style:italic}'',
     ''.emails{display:flex;flex-wrap:wrap;gap:8px}'',
     ''.email-pill{display:inline-block;padding:6px 12px;background:#FEF3C7;color:#92400E;'',
     ''  border-radius:6px;font-size:13px;text-decoration:none;font-family:ui-monospace,monospace}'',
     ''.email-pill:hover{background:#FDE68A}'',
     ''.ftr{text-align:center;color:#94A3B8;font-size:12px;margin-top:32px;padding-top:16px;border-top:1px solid #E2E8F0}'',
     ''.ftr a{color:#64748B;text-decoration:none}'',
     ''@media print{'',
     ''  body{background:#fff;padding:0}'',
     ''  .hdr{background:#fff;color:#0F172A;border:1px solid #0F172A}'',
     ''  .hdr-brand,.hdr-meta,.hdr-stat-label{color:#64748B}'',
     ''  .sec{break-inside:avoid;border:1px solid #E2E8F0}'',
     ''  .pill-link{color:#0F172A}'',
     ''}'']"

definition reportCSS :: string where
  "reportCSS = CHR 0x0A # concat (map (\<lambda>l. l @ [CHR 0x0A]) css_lines)"

definition kv :: "string \<Rightarrow> string \<Rightarrow> string \<Rightarrow> string" where
  "kv k cls v =
     ''<div class=\"kv\"><span class=\"k\">'' @ k @ ''</span><span class=\"'' @ cls @ ''\">'' @ v @ ''</span></div>''"

definition writeKV :: "string \<Rightarrow> string \<Rightarrow> string" where
  "writeKV k v = (if v = '''' then '''' else kv (EscapeString k) ''v'' (EscapeString v))"

text \<open>The label \<open>k\<close> is escaped and then dropped by the code.\<close>

definition writeKVList :: "string \<Rightarrow> string list \<Rightarrow> string" where
  "writeKVList k vals =
     (if length vals = 0 then ''''
      else ''<div class=\"kv\"><span class=\"k\">'' @ ''</span><span class=\"v\">'' @
           concat (map (\<lambda>(i, v). (if i > 0 then ''<br>'' else '''') @ EscapeString v) (enumerate 0 vals)) @ ''</span></div>'')"

definition emptyCard :: "string \<Rightarrow> string" where
  "emptyCard nm = ''<div class=\"card\"><div class=\"card-title\">'' @ EscapeString nm @ ''</div><div class=\"empty\">Not available</div></div>''"

definition minimalErrorPage :: "string \<Rightarrow> time \<Rightarrow> string" where
  "minimalErrorPage msg ts =
     ''<!DOCTYPE html><html><body><h1>Report unavailable</h1><p>'' @ EscapeString msg @ ''</p><p>'' @ format_RFC3339 ts @ ''</p></body></html>''"

definition humanBytes :: "int \<Rightarrow> string" where
  "humanBytes n =
     (if n < 1024 then Itoa n @ '' B''
      else if n < 1024 * 1024 then fixed 1 n 1024 @ '' KB''
      else fixed 2 n (1024 * 1024) @ '' MB'')"

section \<open>Sections\<close>

definition renderSection :: "string \<Rightarrow> string \<Rightarrow> string \<Rightarrow> string" where
  "renderSection title i body =
     ''<section class=\"sec\" id=\"'' @ EscapeString i @ ''\"><h2>'' @ EscapeString title @ ''</h2>'' @ body @ ''</section>''"

definition catNames :: "(string, string) gomap" where
  "catNames =
     [(''webserver'', ''Web Servers''), (''cdn'', ''CDN''), (''cms'', ''CMS''), (''framework'', ''Frameworks''),
      (''analytics'', ''Analytics''), (''database'', ''Databases''), (''language'', ''Languages''), (''security'', ''Security''),
      (''ssl'', ''SSL/TLS''), (''hosting'', ''Hosting''), (''marketing'', ''Marketing''), (''javascript'', ''JavaScript Libraries'')]"

text \<open>\<^verbatim>\<open>byCat\<close> with the order of first occurrence kept beside it.\<close>

definition group_step :: "(string, tech_result list) gomap \<times> string list \<Rightarrow> tech_result \<Rightarrow> (string, tech_result list) gomap \<times> string list" where
  "group_step st t =
     (let (byCat, order) = st; cat = t_Category (tr_Technology t) in
      case gm_get byCat cat of
        None \<Rightarrow> (gm_put cat [t] byCat, order @ [cat])
      | Some ts \<Rightarrow> (gm_put cat (ts @ [t]) byCat, order))"

definition pill :: "tech_result \<Rightarrow> string" where
  "pill t =
     (let conf = (if 0 < tr_Confidence t \<and> tr_Confidence t < 100
                  then '' <span class=\"pill-conf\">'' @ Itoa (tr_Confidence t) @ ''%</span>'' else '''');
          tech = tr_Technology t in
      if t_Website tech \<noteq> ''''
      then ''<a class=\"pill pill-link\" href=\"'' @ EscapeString (t_Website tech) @ ''\" target=\"_blank\" rel=\"noopener\">'' @
           EscapeString (t_Name tech) @ conf @ ''</a>''
      else ''<span class=\"pill\">'' @ EscapeString (t_Name tech) @ conf @ ''</span>'')"

definition cat_display :: "string \<Rightarrow> string" where
  "cat_display cat = (case gm_get catNames cat of Some d \<Rightarrow> d | None \<Rightarrow> Title cat)"

definition renderTechPills :: "tech_result list \<Rightarrow> string" where
  "renderTechPills techs =
     (if length techs = 0 then ''<div class=\"empty\">No technologies detected.</div>''
      else let (byCat, order) = foldl group_step ([], []) techs in
        concat (map (\<lambda>cat.
          ''<div class=\"cat-block\"><h3 class=\"cat-title\">'' @ EscapeString (cat_display cat) @ ''</h3><div class=\"pills\">'' @
          concat (map pill (case gm_get byCat cat of Some ts \<Rightarrow> ts | None \<Rightarrow> [])) @ ''</div></div>'') order))"

definition renderDNS :: "dns_info option \<Rightarrow> string" where
  "renderDNS d =
     (case d of
        None \<Rightarrow> emptyCard ''DNS''
      | Some i \<Rightarrow>
          ''<div class=\"card\"><div class=\"card-title\">DNS</div>'' @
          (if dns_DNSProvider i \<noteq> '''' then kv ''Provider'' ''v'' (EscapeString (dns_DNSProvider i)) else '''') @
          writeKVList ''A Records'' (dns_A i) @ writeKVList ''AAAA Records'' (dns_AAAA i) @
          writeKVList ''NS Records'' (dns_NS i) @ writeKVList ''TXT Records'' (dns_TXT i) @
          (if length (dns_MX i) > 0
           then writeKVList ''MX Records'' (map (\<lambda>m. mx_Host m @ '' (pref '' @ Itoa (mx_Pref m) @ '')'') (filter (\<lambda>m. mx_Host m \<noteq> '''') (dns_MX i)))
           else '''') @
          (if dns_EmailProvider i \<noteq> '''' then kv ''Email Provider'' ''v'' (EscapeString (dns_EmailProvider i)) else '''') @
          (if dns_Error i \<noteq> '''' then kv ''Error'' ''v err'' (EscapeString (dns_Error i)) else '''') @ ''</div>'')"

definition renderWHOIS :: "whois_info option \<Rightarrow> string" where
  "renderWHOIS w =
     (case w of
        None \<Rightarrow> emptyCard ''WHOIS''
      | Some i \<Rightarrow>
          ''<div class=\"card\"><div class=\"card-title\">WHOIS</div>'' @
          writeKV ''Registrar'' (wh_Registrar i) @ writeKV ''Created'' (wh_CreatedDate i) @
          writeKV ''Expires'' (wh_ExpiryDate i) @ writeKV ''Updated'' (wh_UpdatedDate i) @
          (if 0 < wh_DomainAgeDays i then kv ''Age'' ''v'' (Itoa (wh_DomainAgeDays i) @ '' days'') else '''') @
          (if 0 < wh_DaysToExpiry i then kv ''Expires in'' ''v'' (Itoa (wh_DaysToExpiry i) @ '' days'') else '''') @
          (if length (wh_Status i) > 0 then writeKVList ''Status'' (wh_Status i) else '''') @
          (if length (wh_NameServers i) > 0 then writeKVList ''Name Servers'' (wh_NameServers i) else '''') @
          (if wh_Error i \<noteq> '''' then kv ''Error'' ''v err'' (EscapeString (wh_Error i)) else '''') @ ''</div>'')"

definition trunc_div :: "int \<Rightarrow> int \<Rightarrow> int" where
  "trunc_div a b = (if a < 0 then - ((- a) div b) else a div b)"

definition renderSSL :: "time \<Rightarrow> ssl_info option \<Rightarrow> string" where
  "renderSSL now s =
     (case s of
        None \<Rightarrow> emptyCard ''SSL / TLS''
      | Some i \<Rightarrow>
          ''<div class=\"card\"><div class=\"card-title\">SSL / TLS</div>'' @
          writeKV ''Issuer'' (ssl_Issuer i) @ writeKV ''Subject'' (ssl_Subject i) @
          writeKV ''TLS Version'' (ssl_TLSVersion i) @ writeKV ''Cipher'' (ssl_CipherSuite i) @
          (if 0 < ssl_SANCount i then kv ''SAN Count'' ''v'' (Itoa (ssl_SANCount i)) else '''') @
          (if ssl_SelfSigned i then kv ''Self-Signed'' ''v warn'' ''Yes'' else '''') @
          (if ssl_NotAfter i \<noteq> 0 then
             let days = trunc_div (ssl_NotAfter i - now) (24 * hour);
                 cls = (if days < 0 then ''v err'' else if days < 30 then ''v warn'' else ''v'')
             in kv ''Expires'' cls (format_date (ssl_NotAfter i) @ '' ('' @ Itoa days @ '' days)'')
           else '''') @
          (if ssl_Error i \<noteq> '''' then kv ''Error'' ''v err'' (EscapeString (ssl_Error i)) else '''') @ ''</div>'')"

definition renderPerf :: "perf_metrics option \<Rightarrow> string" where
  "renderPerf p =
     (case p of
        None \<Rightarrow> emptyCard ''Performance''
      | Some i \<Rightarrow>
          ''<div class=\"card\"><div class=\"card-title\">Performance</div>'' @
          (if 0 < pf_TTFB i then kv ''TTFB'' ''v'' (Itoa (pf_TTFB i) @ '' ms'') else '''') @
          (if 0 < pf_TotalDuration i then kv ''Total'' ''v'' (Itoa (pf_TotalDuration i) @ '' ms'') else '''') @
          kv ''HTML Size'' ''v'' (humanBytes (pf_HTMLSizeBytes i)) @
          kv ''JS Bundle'' ''v'' (humanBytes (pf_JSBundleSizeBytes i)) @
          kv ''CSS Bundle'' ''v'' (humanBytes (pf_CSSBundleSizeBytes i)) @
          kv ''Scripts'' ''v'' (Itoa (pf_ScriptCount i)) @ kv ''Stylesheets'' ''v'' (Itoa (pf_StylesheetCount i)) @
          kv ''Images'' ''v'' (Itoa (pf_ImagesCount i)) @ kv ''Links'' ''v'' (Itoa (pf_LinksCount i)) @
          kv ''Headings'' ''v'' (Itoa (pf_HeadingsCount i)) @ ''</div>'')"

definition renderEmails :: "string list \<Rightarrow> string" where
  "renderEmails emails =
     ''<div class=\"emails\">'' @
     concat (map (\<lambda>e. ''<a class=\"email-pill\" href=\"mailto:'' @ EscapeString e @ ''\">'' @ EscapeString e @ ''</a>'') emails) @ ''</div>''"

section \<open>The page\<close>

record report_data =
  rd_Result :: "scan_result option"
  rd_JobID :: string
  rd_Generated :: time
  rd_ServerURL :: string

definition hdr_stat :: "string \<Rightarrow> string \<Rightarrow> string \<Rightarrow> string" where
  "hdr_stat label cls v =
     ''<div class=\"hdr-stat\"><div class=\"hdr-stat-label\">'' @ label @ ''</div><div class=\"'' @ cls @ ''\">'' @ v @ ''</div></div>''"

text \<open>The dash of the title is three bytes of UTF-8.\<close>

definition Render :: "time \<Rightarrow> time \<Rightarrow> report_data \<Rightarrow> string" where
  "Render now now' d =
     (let generated = (if rd_Generated d = 0 then now else rd_Generated d) in
      case rd_Result d of
        None \<Rightarrow> minimalErrorPage ''no result'' generated
      | Some r \<Rightarrow>
          ''<!DOCTYPE html><html lang=\"en\"><head><meta charset=\"utf-8\">'' @
          ''<title>Stackly Report '' @ [CHR 0xE2, CHR 0x80, CHR 0x94] @ '' '' @ EscapeString (sr_URL r) @ ''</title>'' @
          ''<style>'' @ reportCSS @ ''</style></head><body>'' @
          ''<header class=\"hdr\">'' @
          ''<div class=\"hdr-row\"><div class=\"hdr-brand\">Stackly</div><div class=\"hdr-meta\">'' @ format_minute generated @ ''</div></div>'' @
          ''<h1 class=\"hdr-url\">'' @ EscapeString (sr_URL r) @ ''</h1>'' @ ''<div class=\"hdr-stats\">'' @
          hdr_stat ''Scan ID'' ''hdr-stat-val mono'' (EscapeString (rd_JobID d)) @
          (if 0 < sr_ScanDuration r then hdr_stat ''Duration'' ''hdr-stat-val'' (duration_String (duration_Round (sr_ScanDuration r) millisecond)) else '''') @
          (if length (sr_Results r) > 0 then hdr_stat ''Technologies'' ''hdr-stat-val'' (Itoa (int (length (sr_Results r)))) else '''') @
          ''</div></header>'' @
          renderSection ''Tech Stack'' ''technologies'' (renderTechPills (sr_Results r)) @
          ''<section class=\"sec\"><h2>Enrichment</h2><div class=\"grid-2\">'' @
          renderDNS (sr_DNS r) @ renderWHOIS (sr_WHOIS r) @ renderSSL now' (sr_SSL r) @ renderPerf (sr_Perf r) @
          ''</div></section>'' @
          (if length (sr_Emails r) > 0 then renderSection ''Contact Emails'' ''emails'' (renderEmails (sr_Emails r)) else '''') @
          (if rd_ServerURL d \<noteq> ''''
           then ''<footer class=\"ftr\">Generated by <a href=\"'' @ EscapeString (rd_ServerURL d) @ ''\">'' @ EscapeString (rd_ServerURL d) @ ''</a></footer>''
           else ''<footer class=\"ftr\">Generated by Stackly</footer>'') @
          ''</body></html>'')"

section \<open>Data URLs\<close>

definition hexDigit :: "nat \<Rightarrow> char" where
  "hexDigit b = (if b < 10 then char_of (48 + b) else char_of (65 + (b - 10)))"

definition data_url_char :: "char \<Rightarrow> string" where
  "data_url_char c =
     (let n = (of_char c :: nat) in
      if c = CHR 0x22 \<or> c = CHR ''#'' \<or> c = CHR ''%'' \<or> c = CHR ''?'' \<or> c = CHR 0x0A \<or> c = CHR 0x0D
      then [CHR ''%'', hexDigit (n div 16), hexDigit (n mod 16)]
      else if n < 0x20 \<or> n \<ge> 0x7F then [CHR ''%'', hexDigit (n div 16), hexDigit (n mod 16)]
      else [c])"

definition escapeForDataURL :: "string \<Rightarrow> string" where
  "escapeForDataURL s = concat (map data_url_char s)"

text \<open>\<open>browser_print\<close> navigates a headless browser to the URL and prints the page; its error or the bytes.\<close>

definition RenderPDF :: "(string \<Rightarrow> string + string) \<Rightarrow> string \<Rightarrow> string + string" where
  "RenderPDF browser_print htmlContent =
     (let dataURL = ''data:text/html;charset=utf-8,'' @ escapeForDataURL htmlContent in
      case browser_print dataURL of
        Inl err \<Rightarrow> Inl (''chromedp print: '' @ err)
      | Inr buf \<Rightarrow> if length buf = 0 then Inl ''empty PDF buffer'' else Inr buf)"


section \<open>Markup\<close>

text \<open>The characters that delimit tags and attribute values.\<close>

definition markup :: "string \<Rightarrow> string" where
  "markup s = filter (\<lambda>c. c = CHR ''<'' \<or> c = CHR ''>'' \<or> c = CHR 0x22) s"

lemma markup_append [simp]: "markup (s @ t) = markup s @ markup t"
  by (simp add: markup_def)

lemma markup_Cons [simp]: "markup (c # s) = (if c = CHR ''<'' \<or> c = CHR ''>'' \<or> c = CHR 0x22 then c # markup s else markup s)"
  by (simp add: markup_def)

lemma markup_Nil [simp]: "markup [] = []"
  by (simp add: markup_def)

lemma markup_concat: "markup (concat xs) = concat (map markup xs)"
  by (induction xs) simp_all

lemma markup_escape [simp]: "markup (EscapeString s) = []"
proof -
  have "markup (escape_char c) = []" for c by (simp add: escape_char_def markup_def)
  then show ?thesis by (simp add: EscapeString_def markup_concat comp_def)
qed

text \<open>Digits, signs and units carry no markup.\<close>

lemma digit_char_plain: "d < 10 \<Longrightarrow> markup [digit_char d] = []"
proof -
  assume d: "d < 10"
  have "(of_char (digit_char d) :: nat) = 48 + d" using d by (simp add: digit_char_def)
  then have "digit_char d \<noteq> CHR ''<''" "digit_char d \<noteq> CHR ''>''" "digit_char d \<noteq> CHR 0x22" using d by auto
  then show ?thesis by simp
qed

lemma markup_show_nat: "markup (show_nat n) = []"
proof (induction n rule: show_nat.induct)
  case (1 n)
  then show ?case using digit_char_plain by (subst show_nat.simps) auto
qed

lemma markup_Itoa [simp]: "markup (Itoa n) = []"
  using markup_show_nat markup_append [of "''-''"] by (simp add: Itoa_def markup_def)

lemma markup_frac_digits [simp]: "markup (frac_digits n v) = []"
  using digit_char_plain by (induction n arbitrary: v) simp_all

lemma markup_take_drop: "markup s = [] \<Longrightarrow> markup (take n s) = [] \<and> markup (drop n s) = []"
  by (auto simp: markup_def filter_empty_conv dest: in_set_takeD in_set_dropD)

lemma markup_format_RFC3339 [simp]: "markup (format_RFC3339 t) = []"
proof -
  show ?thesis by (simp add: format_RFC3339_def Let_def split: prod.splits)
qed

lemma markup_format_date [simp]: "markup (format_date t) = []"
  using markup_take_drop by (simp add: format_date_def)

lemma markup_format_minute [simp]: "markup (format_minute t) = []"
proof -
  have "markup (take 5 (drop 11 (format_RFC3339 t))) = []" using markup_take_drop markup_format_RFC3339 by blast
  then show ?thesis by (simp add: format_minute_def)
qed

section \<open>Replacing the texts\<close>

text \<open>Every text of the data that is not empty is replaced by another one.\<close>

definition retext :: "(string \<Rightarrow> string) \<Rightarrow> string \<Rightarrow> string" where
  "retext f s = (if s = '''' then '''' else CHR ''x'' # f s)"

definition re_tech :: "(string \<Rightarrow> string) \<Rightarrow> tech_result \<Rightarrow> tech_result" where
  "re_tech f t = t\<lparr>tr_Technology := (tr_Technology t)\<lparr>t_Name := retext f (t_Name (tr_Technology t)), t_Website := retext f (t_Website (tr_Technology t))\<rparr>\<rparr>"

definition re_dns :: "(string \<Rightarrow> string) \<Rightarrow> dns_info \<Rightarrow> dns_info" where
  "re_dns f i = i\<lparr>dns_A := map (retext f) (dns_A i), dns_AAAA := map (retext f) (dns_AAAA i), dns_NS := map (retext f) (dns_NS i),
     dns_TXT := map (retext f) (dns_TXT i), dns_MX := map (\<lambda>m. m\<lparr>mx_Host := retext f (mx_Host m)\<rparr>) (dns_MX i),
     dns_EmailProvider := retext f (dns_EmailProvider i), dns_DNSProvider := retext f (dns_DNSProvider i), dns_Error := retext f (dns_Error i)\<rparr>"

definition re_whois :: "(string \<Rightarrow> string) \<Rightarrow> whois_info \<Rightarrow> whois_info" where
  "re_whois f i = i\<lparr>wh_Registrar := retext f (wh_Registrar i), wh_CreatedDate := retext f (wh_CreatedDate i), wh_ExpiryDate := retext f (wh_ExpiryDate i),
     wh_UpdatedDate := retext f (wh_UpdatedDate i), wh_Status := map (retext f) (wh_Status i), wh_NameServers := map (retext f) (wh_NameServers i),
     wh_Error := retext f (wh_Error i)\<rparr>"

definition re_ssl :: "(string \<Rightarrow> string) \<Rightarrow> ssl_info \<Rightarrow> ssl_info" where
  "re_ssl f i = i\<lparr>ssl_Issuer := retext f (ssl_Issuer i), ssl_Subject := retext f (ssl_Subject i), ssl_TLSVersion := retext f (ssl_TLSVersion i),
     ssl_CipherSuite := retext f (ssl_CipherSuite i), ssl_Error := retext f (ssl_Error i)\<rparr>"

definition re_scan :: "(string \<Rightarrow> string) \<Rightarrow> scan_result \<Rightarrow> scan_result" where
  "re_scan f r = r\<lparr>sr_URL := retext f (sr_URL r), sr_Results := map (re_tech f) (sr_Results r), sr_Emails := map (retext f) (sr_Emails r),
     sr_DNS := map_option (re_dns f) (sr_DNS r), sr_WHOIS := map_option (re_whois f) (sr_WHOIS r), sr_SSL := map_option (re_ssl f) (sr_SSL r)\<rparr>"

definition re_data :: "(string \<Rightarrow> string) \<Rightarrow> report_data \<Rightarrow> report_data" where
  "re_data f d = d\<lparr>rd_Result := map_option (re_scan f) (rd_Result d), rd_JobID := retext f (rd_JobID d), rd_ServerURL := retext f (rd_ServerURL d)\<rparr>"

lemma retext_Nil [simp]: "retext f s = [] \<longleftrightarrow> s = []"
  by (simp add: retext_def)

lemma markup_kv [simp]:
  "markup v = markup v' \<Longrightarrow> markup (kv k c v) = markup (kv k c v')"
  by (simp add: kv_def)

lemma markup_writeKV [simp]: "markup (writeKV k (retext f v)) = markup (writeKV k v)"
  by (simp add: writeKV_def kv_def)

lemma markup_list_items:
  "length vs = length vs' \<Longrightarrow>
   markup (concat (map (\<lambda>(i, v). (if i > 0 then ''<br>'' else '''') @ EscapeString v) (enumerate n vs))) =
   markup (concat (map (\<lambda>(i, v). (if i > 0 then ''<br>'' else '''') @ EscapeString v) (enumerate n vs')))"
  by (induction vs vs' arbitrary: n rule: list_induct2) simp_all

lemma markup_writeKVList: "length vs = length vs' \<Longrightarrow> markup (writeKVList k vs) = markup (writeKVList k vs')"
  using markup_list_items [of vs vs' 0] by (simp add: writeKVList_def)

lemma renderDNS_markup: "markup (renderDNS (map_option (re_dns f) d)) = markup (renderDNS d)"
proof (cases d)
  case (Some i)
  have fil: "filter (\<lambda>m. mx_Host m \<noteq> '''') (map (\<lambda>m. m\<lparr>mx_Host := retext f (mx_Host m)\<rparr>) ms) =
      map (\<lambda>m. m\<lparr>mx_Host := retext f (mx_Host m)\<rparr>) (filter (\<lambda>m. mx_Host m \<noteq> '''') ms)" for ms
    by (induction ms) simp_all
  have l: "markup (writeKVList k (map (retext f) vs)) = markup (writeKVList k vs)" for k vs by (rule markup_writeKVList) simp
  have mx: "markup (writeKVList k (map g (filter (\<lambda>m. mx_Host m \<noteq> '''') (map (\<lambda>m. m\<lparr>mx_Host := retext f (mx_Host m)\<rparr>) ms)))) =
      markup (writeKVList k (map g (filter (\<lambda>m. mx_Host m \<noteq> '''') ms)))" for k g ms
    unfolding fil by (rule markup_writeKVList) simp
  show ?thesis unfolding Some option.map renderDNS_def option.case re_dns_def by (simp add: l mx kv_def)
qed simp

lemma renderWHOIS_markup: "markup (renderWHOIS (map_option (re_whois f) w)) = markup (renderWHOIS w)"
proof (cases w)
  case (Some i)
  have l: "markup (writeKVList k (map (retext f) vs)) = markup (writeKVList k vs)" for k vs by (rule markup_writeKVList) simp
  show ?thesis unfolding Some option.map renderWHOIS_def option.case re_whois_def by (simp add: l kv_def)
qed simp

lemma renderSSL_markup: "markup (renderSSL now (map_option (re_ssl f) s)) = markup (renderSSL now s)"
proof (cases s)
  case (Some i)
  show ?thesis unfolding Some option.map renderSSL_def option.case re_ssl_def by (simp add: kv_def)
qed simp

lemma pill_markup: "markup (pill (re_tech f t)) = markup (pill t)"
  by (simp add: pill_def re_tech_def Let_def)

text \<open>Grouping by category commutes with the replacement, which leaves categories alone.\<close>

lemma gm_put_map: "gm_put k (g v) (map (\<lambda>(k, v). (k, g v)) m) = map (\<lambda>(k, v). (k, g v)) (gm_put k v m)"
  by (induction m) (auto simp: gm_put_def)

lemma gm_get_map: "gm_get (map (\<lambda>(k, v). (k, g v)) m) k = map_option g (gm_get m k)"
  by (induction m) (auto simp: gm_get_def)

lemma group_map:
  "foldl group_step (map (\<lambda>(k, v). (k, map (re_tech f) v)) m, ord) (map (re_tech f) ts) =
   (case foldl group_step (m, ord) ts of (m', ord') \<Rightarrow> (map (\<lambda>(k, v). (k, map (re_tech f) v)) m', ord'))"
proof (induction ts arbitrary: m ord)
  case (Cons t ts)
  have cat: "t_Category (tr_Technology (re_tech f t)) = t_Category (tr_Technology t)" by (simp add: re_tech_def)
  have put: "gm_put k [re_tech f t] (map (\<lambda>(k, v). (k, map (re_tech f) v)) m) = map (\<lambda>(k, v). (k, map (re_tech f) v)) (gm_put k [t] m)"
    "gm_put k (map (re_tech f) us @ [re_tech f t]) (map (\<lambda>(k, v). (k, map (re_tech f) v)) m) = map (\<lambda>(k, v). (k, map (re_tech f) v)) (gm_put k (us @ [t]) m)" for k us
    using gm_put_map [of k "map (re_tech f)" "[t]" m] gm_put_map [of k "map (re_tech f)" "us @ [t]" m] by simp_all
  have "group_step (map (\<lambda>(k, v). (k, map (re_tech f) v)) m, ord) (re_tech f t) =
      (case group_step (m, ord) t of (m', ord') \<Rightarrow> (map (\<lambda>(k, v). (k, map (re_tech f) v)) m', ord'))"
    by (simp add: group_step_def Let_def cat gm_get_map put split: option.splits)
  then show ?case using Cons.IH by (cases "group_step (m, ord) t") simp
qed simp

lemma renderTechPills_markup: "markup (renderTechPills (map (re_tech f) ts)) = markup (renderTechPills ts)"
proof -
  obtain m ord where g: "foldl group_step ([], []) ts = (m, ord)" by (cases "foldl group_step ([], []) ts")
  have g': "foldl group_step ([], []) (map (re_tech f) ts) = (map (\<lambda>(k, v). (k, map (re_tech f) v)) m, ord)"
    using group_map [of f "[]" "[]" ts] g by simp
  have pills: "markup (concat (map pill (map (re_tech f) us))) = markup (concat (map pill us))" for us
    by (simp add: markup_concat comp_def pill_markup)
  have "markup (concat (map pill (case gm_get (map (\<lambda>(k, v). (k, map (re_tech f) v)) m) c of Some us \<Rightarrow> us | None \<Rightarrow> []))) =
      markup (concat (map pill (case gm_get m c of Some us \<Rightarrow> us | None \<Rightarrow> [])))" for c
    using pills by (cases "gm_get m c") (simp_all add: gm_get_map)
  then show ?thesis by (simp add: renderTechPills_def g g' markup_concat comp_def)
qed

lemma renderEmails_markup: "markup (renderEmails (map (retext f) es)) = markup (renderEmails es)"
  by (simp add: renderEmails_def markup_concat comp_def)

section \<open>Properties\<close>

text \<open>C17: Scanned data cannot inject markup. Whatever the texts of the scan result, the job
  identifier and the server URL are (technology names and websites, DNS, WHOIS and certificate
  fields, addresses, error messages), the page's tag and quote characters are the same: they
  come from the program's own fragments.\<close>

theorem report_markup_fixed: "markup (Render now now' (re_data f d)) = markup (Render now now' d)"
proof (cases "rd_Result d")
  case None
  then show ?thesis by (simp add: Render_def re_data_def Let_def minimalErrorPage_def)
next
  case (Some r)
  have data: "rd_Result (re_data f d) = Some (re_scan f r)" "rd_Generated (re_data f d) = rd_Generated d"
    "rd_JobID (re_data f d) = retext f (rd_JobID d)" "rd_ServerURL (re_data f d) = retext f (rd_ServerURL d)"
    using Some by (simp_all add: re_data_def)
  have scan: "sr_URL (re_scan f r) = retext f (sr_URL r)" "sr_Results (re_scan f r) = map (re_tech f) (sr_Results r)"
    "sr_Emails (re_scan f r) = map (retext f) (sr_Emails r)" "sr_ScanDuration (re_scan f r) = sr_ScanDuration r"
    "sr_DNS (re_scan f r) = map_option (re_dns f) (sr_DNS r)" "sr_WHOIS (re_scan f r) = map_option (re_whois f) (sr_WHOIS r)"
    "sr_SSL (re_scan f r) = map_option (re_ssl f) (sr_SSL r)" "sr_Perf (re_scan f r) = sr_Perf r"
    by (simp_all add: re_scan_def)
  show ?thesis
    unfolding Render_def Let_def data scan Some option.case
    by (simp only: markup_append markup_escape if_distrib [of markup] length_map retext_Nil renderSection_def hdr_stat_def
        renderDNS_markup renderWHOIS_markup renderSSL_markup renderTechPills_markup renderEmails_markup)
qed

text \<open>Percent decoding, as the browser does it.\<close>

definition unhex :: "char \<Rightarrow> nat" where
  "unhex c = (let n = of_char c in if n < 65 then n - 48 else n - 55)"

fun percent_decode :: "string \<Rightarrow> string" where
  "percent_decode (c # s) =
     (if c = CHR ''%'' then (case s of h # l # s' \<Rightarrow> char_of (16 * unhex h + unhex l) # percent_decode s' | _ \<Rightarrow> c # s) else c # percent_decode s)"
| "percent_decode [] = []"

lemma unhex_hexDigit: "b < 16 \<Longrightarrow> unhex (hexDigit b) = b"
  by (simp add: unhex_def hexDigit_def Let_def)

lemma percent_decode_char: "percent_decode (data_url_char c @ s) = c # percent_decode s"
proof -
  have "(of_char c :: nat) < 256" using nat_of_char_less_256 [of c] .
  then have n: "(of_char c :: nat) div 16 < 16" by (intro less_mult_imp_div_less) simp
  have "16 * unhex (hexDigit (of_char c div 16)) + unhex (hexDigit (of_char c mod 16)) = of_char c"
    using n by (simp add: unhex_hexDigit)
  then show ?thesis by (simp add: data_url_char_def Let_def)
qed

text \<open>C36: The page survives the data URL. Percent decoding what \<open>escapeForDataURL\<close> makes gives back
  the page, and the encoded text is printable ASCII without quotes, hashes and question marks, so
  nothing of it is taken for a fragment or a query.\<close>

theorem data_url_roundtrip:
  "percent_decode (escapeForDataURL s) = s \<and>
   set (escapeForDataURL s) \<subseteq> {c. 0x20 \<le> (of_char c :: nat) \<and> (of_char c :: nat) < 0x7F \<and> c \<noteq> CHR 0x22 \<and> c \<noteq> CHR ''#'' \<and> c \<noteq> CHR ''?''}"
proof
  show "percent_decode (escapeForDataURL s) = s"
    by (induction s) (simp_all add: escapeForDataURL_def percent_decode_char)
  let ?ok = "{c. 0x20 \<le> (of_char c :: nat) \<and> (of_char c :: nat) < 0x7F \<and> c \<noteq> CHR 0x22 \<and> c \<noteq> CHR ''#'' \<and> c \<noteq> CHR ''?''}"
  have hex: "hexDigit b \<in> ?ok" if "b < 16" for b
  proof -
    have "(of_char (hexDigit b) :: nat) = (if b < 10 then 48 + b else 55 + b)" using that by (simp add: hexDigit_def)
    then show ?thesis using that by (auto split: if_splits)
  qed
  have "set (data_url_char c) \<subseteq> ?ok" for c
  proof -
    have "(of_char c :: nat) < 256" using nat_of_char_less_256 [of c] .
    then have "(of_char c :: nat) div 16 < 16" by (intro less_mult_imp_div_less) simp
    then have "hexDigit (of_char c div 16) \<in> ?ok" "hexDigit (of_char c mod 16) \<in> ?ok" using hex by simp_all
    moreover have "CHR ''%'' \<in> ?ok" by simp
    ultimately show ?thesis unfolding data_url_char_def Let_def by auto
  qed
  then show "set (escapeForDataURL s) \<subseteq> ?ok" by (auto simp: escapeForDataURL_def)
qed

end
