(* ===== verification/Api.thy ===== *)
theory Api
  imports Api_Schedules Auth_Middleware Queue Detect Report
begin

text \<open>
  The HTTP server: \<^verbatim>\<open>internal/api/server.go\<close>, \<^verbatim>\<open>quota.go\<close>, \<^verbatim>\<open>reports.go\<close> and
  \<^verbatim>\<open>internal/metrics/middleware.go\<close>. The record \<open>server\<close> holds the components; the user store is
  the one inside \<open>sv_auth\<close>, as \<^verbatim>\<open>cmd/server/main.go\<close> sets it up. A handler that dereferences nil
  gives \<open>Panic\<close>. \<open>server_env\<close> holds what a request meets: clock readings, random identifiers,
  decoded bodies, the network, file writes, the JSON of a scan result, the PDF renderer, and
  what the workers do to the queue while a handler waits. A file handed to \<^verbatim>\<open>http.ServeFile\<close> is
  the body \<open>File\<close>; request paths are already in the clean form the multiplexer insists on.
\<close>

record server =
  sv_queue :: job_queue
  sv_cache :: "scan_result cache option"
  sv_auth :: auth
  sv_hub :: hub
  sv_fingerprints :: database
  sv_sched :: "sched_store option"
  sv_webDir :: string

record scan_body =
  sq_URL :: string
  sq_Wait :: bool
  sq_Timeout :: int

record server_env =
  se_auth :: auth_env
  se_api :: api_env
  se_hook :: hook_env
  se_codec :: "scan_result cache_codec"
  se_write :: write_outcome
  se_off :: duration
  se_now :: time
  se_now' :: time
  se_clock :: "nat \<Rightarrow> time"
  se_jid :: string
  se_scan :: "string + scan_body"
  se_create :: "string + create_body"
  se_patch :: "string + patch_body"
  se_test :: "string + test_body"
  se_others :: "job_queue \<Rightarrow> job_queue"
  se_result_json :: "scan_result \<Rightarrow> json"
  se_Print :: "string \<Rightarrow> string + string"
  se_upgrade :: bool

datatype outcome = Resp response | Panic

definition NewServer :: "job_queue \<Rightarrow> scan_result cache option \<Rightarrow> string \<Rightarrow> auth \<Rightarrow> hub \<Rightarrow> database \<Rightarrow> server" where
  "NewServer q c webDir a h db =
     \<lparr>sv_queue = q, sv_cache = c, sv_auth = a, sv_hub = h, sv_fingerprints = db, sv_sched = None, sv_webDir = webDir\<rparr>"

definition SetSchedulerStore :: "sched_store \<Rightarrow> server \<Rightarrow> server" where
  "SetSchedulerStore st sv = sv\<lparr>sv_sched := Some st\<rparr>"

section \<open>JSON\<close>

definition opt_time :: "string \<Rightarrow> time option \<Rightarrow> (string \<times> json) list" where
  "opt_time k t = (case t of Some x \<Rightarrow> [(k, JTime x)] | None \<Rightarrow> [])"

definition job_json :: "(scan_result \<Rightarrow> json) \<Rightarrow> job \<Rightarrow> json" where
  "job_json rj j = JObj (
     [(''id'', JStr (j_ID j)), (''url'', JStr (j_URL j)), (''status'', JStr (status_string (j_Status j))), (''created_at'', JTime (j_CreatedAt j))] @
     opt_time ''started_at'' (j_StartedAt j) @ opt_time ''finished_at'' (j_FinishedAt j) @
     omit_empty ''duration'' (j_Duration j) @ omit_empty ''error'' (j_Error j) @
     (case j_Result j of Some r \<Rightarrow> [(''result'', rj r)] | None \<Rightarrow> []) @
     (if j_FromCache j then [(''from_cache'', JBool True)] else []) @ omit_empty ''user_agent'' (j_UA j))"

definition queue_stats_json :: "queue_stats \<Rightarrow> json" where
  "queue_stats_json st = JObj [(''total'', JNum (int (qs_Total st))), (''pending'', JNum (int (qs_Pending st))), (''running'', JNum (int (qs_Running st))),
     (''completed'', JNum (int (qs_Completed st))), (''failed'', JNum (int (qs_Failed st)))]"

definition cache_stats_json :: "cache_stats \<Rightarrow> json" where
  "cache_stats_json st = JObj [(''size'', JNum (int (cs_Size st))), (''valid'', JNum (int (cs_Valid st))), (''hits'', JNum (cs_Hits st)),
     (''misses'', JNum (cs_Misses st)), (''hit_rate'', JReal (cs_HitRate st)), (''ttl'', JNum (cs_TTL st))]"

definition quota_json :: "quota_info \<Rightarrow> json" where
  "quota_json i = JObj [(''user_id'', JStr (qi_UserID i)), (''tier'', JStr (qi_Tier i)), (''used'', JNum (qi_Used i)), (''limit'', JNum (qi_Limit i)),
     (''remaining'', JNum (qi_Remaining i)), (''month_reset'', JTime (qi_MonthReset i)), (''unlimited'', JBool (qi_Unlimited i))]"

definition user_json :: "user \<Rightarrow> json" where
  "user_json u = JObj (
     [(''id'', JStr (u_ID u)), (''key'', JStr (u_Key u)), (''name'', JStr (u_Name u)), (''tier'', JStr (u_Tier u)), (''rate_limit'', JNum (u_RateLimit u)),
      (''created_at'', JTime (u_CreatedAt u)), (''last_seen_at'', JTime (u_LastSeenAt u)), (''request_count'', JNum (u_RequestCount u))] @
     (if u_Disabled u then [(''disabled'', JBool True)] else []) @
     (if u_ScanCount u = 0 then [] else [(''scan_count'', JNum (u_ScanCount u))]) @ [(''month_reset'', JTime (u_MonthReset u))])"

section \<open>Waiting for a job\<close>

text \<open>\<open>clock n\<close> is the time the loop's condition reads in round \<open>n\<close> and \<open>qs n\<close> the queue it looks at.\<close>

definition job_done :: "string \<Rightarrow> job_queue \<Rightarrow> bool" where
  "job_done i q = (case GetJob i q of Some a \<Rightarrow> finished (job_at q a) | None \<Rightarrow> False)"

partial_function (option) wait_loop :: "(nat \<Rightarrow> time) \<Rightarrow> (nat \<Rightarrow> job_queue) \<Rightarrow> string \<Rightarrow> time \<Rightarrow> nat \<Rightarrow> nat option" where
  "wait_loop clock qs i deadline n =
     (if clock n < deadline then
        if job_done i (qs n) then Some n else wait_loop clock qs i deadline (Suc n)
      else Some n)"

definition wait_seconds :: "int \<Rightarrow> int" where
  "wait_seconds maxSeconds =
     (let m = (if maxSeconds \<le> 0 then 60 else maxSeconds) in if m > 300 then 300 else m)"

definition waitForJob :: "time \<Rightarrow> (nat \<Rightarrow> time) \<Rightarrow> (nat \<Rightarrow> job_queue) \<Rightarrow> string \<Rightarrow> int \<Rightarrow> nat option" where
  "waitForJob start clock qs i maxSeconds = wait_loop clock qs i (start + wait_seconds maxSeconds * second) 0"

section \<open>Scans\<close>

text \<open>Publishing what \<open>Enqueue\<close> asks for.\<close>

fun publish_effects :: "time \<Rightarrow> effect list \<Rightarrow> hub \<Rightarrow> hub option" where
  "publish_effects now [] h = Some h"
| "publish_effects now (Pub jid ev # es) h = (case Publish now jid ev h of Some h' \<Rightarrow> publish_effects now es h' | None \<Rightarrow> None)"
| "publish_effects now (Metric m # es) h = publish_effects now es h"

definition with_scheme :: "string \<Rightarrow> string" where
  "with_scheme url = (if \<not> HasPrefix url ''http://'' \<and> \<not> HasPrefix url ''https://'' then ''https://'' @ url else url)"

text \<open>The quota check: a refusal, or the headers for the response, and the store afterwards. Only
  the two errors of \<open>quota_error\<close> exist, so the branch for other errors cannot be taken.\<close>

definition quota_gate :: "server_env \<Rightarrow> user option \<Rightarrow> auth \<Rightarrow> (response + (string, string) gomap) \<times> auth" where
  "quota_gate se usr a =
     (if Enabled (se_auth se) a then
        (case (usr, a_store a) of
           (Some u, Some st) \<Rightarrow>
             let ((info, err), st') = CheckAndIncrementQuota (se_off se) (se_now se) (u_Key u) st;
                 a' = a\<lparr>a_store := Some st'\<rparr> in
             (case (info, err) of
                (Some i, Some ErrQuotaExceeded) \<Rightarrow>
                  (Inl (writeJSON [] StatusTooManyRequests (JObj [(''error'', JStr ''monthly scan quota exceeded''), (''tier'', JStr (qi_Tier i)),
                     (''used'', JNum (qi_Used i)), (''limit'', JNum (qi_Limit i)), (''month_reset'', JTime (qi_MonthReset i))])), a')
              | (Some i, _) \<Rightarrow>
                  (Inr (gm_put ''X-Quota-Remaining'' (Itoa (qi_Remaining i)) (gm_put ''X-Quota-Limit'' (Itoa (qi_Limit i))
                     (gm_put ''X-Quota-Used'' (Itoa (qi_Used i)) []))), a')
              | (None, _) \<Rightarrow> (Inr [], a'))
         | _ \<Rightarrow> (Inr [], a))
      else (Inr [], a))"

definition accepted_json :: "job \<Rightarrow> json" where
  "accepted_json j = JObj [(''id'', JStr (j_ID j)), (''url'', JStr (j_URL j)), (''status'', JStr (status_string (j_Status j)))]"

definition enqueue_scan :: "server_env \<Rightarrow> (string, string) gomap \<Rightarrow> scan_body \<Rightarrow> string \<Rightarrow> server \<Rightarrow> outcome \<times> server" where
  "enqueue_scan se hs req url sv =
     (case Enqueue (se_now se) (se_now' se) (se_jid se) url (sv_queue sv) of
        (ErrQueueFull, _, q) \<Rightarrow> (Resp (writeJSON hs StatusServiceUnavailable (json_error ''queue is full'')), sv\<lparr>sv_queue := q\<rparr>)
      | (SendOnClosed, _, q) \<Rightarrow> (Panic, sv\<lparr>sv_queue := q\<rparr>)
      | (Enqueued a, effs, q) \<Rightarrow>
          (case publish_effects (se_now' se) effs (sv_hub sv) of
             None \<Rightarrow> (Panic, sv\<lparr>sv_queue := q\<rparr>)
           | Some h \<Rightarrow>
               let sv' = sv\<lparr>sv_queue := q, sv_hub := h\<rparr> in
               if sq_Wait req then
                 let q' = se_others se q; sv'' = sv'\<lparr>sv_queue := q'\<rparr> in
                 (case GetJob (j_ID (job_at q a)) q' of
                    None \<Rightarrow> (Panic, sv'')
                  | Some b \<Rightarrow> (Resp (writeJSON hs StatusAccepted (accepted_json (job_at q' b))), sv''))
               else (Resp (writeJSON hs StatusAccepted (accepted_json (job_at q a))), sv')))"

definition handleScan :: "server_env \<Rightarrow> request \<Rightarrow> user option \<Rightarrow> server \<Rightarrow> outcome \<times> server" where
  "handleScan se r usr sv =
     (if r_Method r \<noteq> ''POST'' then (Resp method_not_allowed, sv)
      else case se_scan se of
        Inl err \<Rightarrow> (Resp (bad_request ''Invalid JSON''), sv)
      | Inr req \<Rightarrow>
          let url = TrimSpace (sq_URL req) in
          if url = '''' then (Resp (bad_request ''URL is required''), sv)
          else
            let url' = with_scheme url in
            (case ValidateScanURL (ae_net (se_api se)) url' of
               Some e \<Rightarrow> (Resp (bad_request (''invalid url: '' @ ae_msg (se_api se) e)), sv)
             | None \<Rightarrow>
                 (case quota_gate se usr (sv_auth sv) of
                    (Inl resp, a') \<Rightarrow> (Resp resp, sv\<lparr>sv_auth := a'\<rparr>)
                  | (Inr hs, a') \<Rightarrow> enqueue_scan se hs req url' (sv\<lparr>sv_auth := a'\<rparr>))))"

section \<open>Results\<close>

record compact_result =
  cr_ID :: string
  cr_URL :: string
  cr_Status :: string
  cr_Duration :: string
  cr_Error :: string
  cr_Detected :: "string list"
  cr_Categories :: "string list"
  cr_Implied :: "string list"

definition cat_step :: "(string, bool) gomap \<times> string list \<Rightarrow> tech_result \<Rightarrow> (string, bool) gomap \<times> string list" where
  "cat_step st r =
     (let (catSet, cats) = st; c = t_Category (tr_Technology r) in
      if gm_get catSet c \<noteq> Some True then (gm_put c True catSet, cats @ [c]) else st)"

definition makeCompact :: "job \<Rightarrow> compact_result" where
  "makeCompact j =
     \<lparr>cr_ID = j_ID j, cr_URL = j_URL j, cr_Status = status_string (j_Status j), cr_Duration = j_Duration j, cr_Error = j_Error j,
      cr_Detected = (case j_Result j of Some res \<Rightarrow> map (\<lambda>r. t_Name (tr_Technology r)) (sr_Results res) | None \<Rightarrow> []),
      cr_Categories = (case j_Result j of Some res \<Rightarrow> snd (foldl cat_step ([], []) (sr_Results res)) | None \<Rightarrow> []),
      cr_Implied = (case j_Result j of Some res \<Rightarrow> GetImplied (sr_Results res) | None \<Rightarrow> [])\<rparr>"

definition omit_nil :: "string \<Rightarrow> string list \<Rightarrow> (string \<times> json) list" where
  "omit_nil k xs = (if xs = [] then [] else [(k, JArr (map JStr xs))])"

definition compact_json :: "compact_result \<Rightarrow> json" where
  "compact_json c = JObj (
     [(''id'', JStr (cr_ID c)), (''url'', JStr (cr_URL c)), (''status'', JStr (cr_Status c))] @
     omit_empty ''duration'' (cr_Duration c) @ omit_empty ''error'' (cr_Error c) @
     omit_nil ''detected'' (cr_Detected c) @ omit_nil ''categories'' (cr_Categories c) @ omit_nil ''implied'' (cr_Implied c))"

definition handleResults :: "server_env \<Rightarrow> request \<Rightarrow> server \<Rightarrow> outcome \<times> server" where
  "handleResults se r sv =
     (if r_Method r \<noteq> ''GET'' then (Resp method_not_allowed, sv)
      else
        let i = TrimPrefix (r_Path r) ''/api/results/'' in
        if i = '''' \<or> Contains i ''/'' then (Resp (bad_request ''Invalid ID''), sv)
        else case GetJob i (sv_queue sv) of
          None \<Rightarrow> (Resp (writeJSON [] StatusNotFound (json_error ''Job not found'')), sv)
        | Some a \<Rightarrow>
            let wait = query_Get r ''wait'' = ''true'' \<and> j_Status (job_at (sv_queue sv) a) = StatusPending;
                sv' = (if wait then sv\<lparr>sv_queue := se_others se (sv_queue sv)\<rparr> else sv);
                job = (if wait then GetJob i (sv_queue sv') else Some a) in
            if query_Get r ''compact'' = ''true'' \<or> query_Get r ''compact'' = ''1'' then
              (case job of
                 None \<Rightarrow> (Panic, sv')
               | Some b \<Rightarrow> (Resp (writeJSON [] StatusOK (compact_json (makeCompact (job_at (sv_queue sv') b)))), sv'))
            else (Resp (writeJSON [] StatusOK
                   (case job of None \<Rightarrow> JNull | Some b \<Rightarrow> job_json (se_result_json se) (job_at (sv_queue sv') b))), sv'))"

definition handleListJobs :: "server_env \<Rightarrow> request \<Rightarrow> server \<Rightarrow> response" where
  "handleListJobs se r sv =
     (if r_Method r \<noteq> ''GET'' then method_not_allowed
      else let jobs = ListJobs 50 (sv_queue sv)
           in writeJSON [] StatusOK (JObj [(''count'', JNum (int (length jobs))),
                (''jobs'', JArr (map (\<lambda>a. job_json (se_result_json se) (job_at (sv_queue sv) a)) jobs))]))"

definition handleStats :: "server_env \<Rightarrow> server \<Rightarrow> response" where
  "handleStats se sv =
     writeJSON [] StatusOK (JObj ([(''queue'', queue_stats_json (queue_Stats (sv_queue sv)))] @
       (case sv_cache sv of Some c \<Rightarrow> [(''cache'', cache_stats_json (cache_Stats (se_clock se) c))] | None \<Rightarrow> [])))"

definition handleHealth :: "server_env \<Rightarrow> response" where
  "handleHealth se = writeJSON [] StatusOK (JObj [(''status'', JStr ''ok''), (''time'', JStr (format_RFC3339 (se_now se)))])"

definition handleFingerprints :: "server \<Rightarrow> response" where
  "handleFingerprints sv =
     (let out = foldl (\<lambda>m t. gm_put (t_Slug t)
            (JObj ([(''name'', JStr (t_Name t))] @ omit_empty ''website'' (t_Website t) @ [(''category'', JStr (t_Category t))])) m)
          [] (db_Technologies (sv_fingerprints sv))
      in writeJSON (gm_put ''Cache-Control'' ''public, max-age=3600'' (gm_put ''Content-Type'' ''application/json'' [])) StatusOK (JObj out))"

section \<open>Cache and account endpoints\<close>

definition handleCacheStats :: "server_env \<Rightarrow> request \<Rightarrow> server \<Rightarrow> response" where
  "handleCacheStats se r sv =
     (if r_Method r \<noteq> ''GET'' then method_not_allowed
      else case sv_cache sv of
        None \<Rightarrow> writeJSON [] StatusOK (JObj [(''status'', JStr ''disabled'')])
      | Some c \<Rightarrow> writeJSON [] StatusOK (cache_stats_json (cache_Stats (se_clock se) c)))"

definition handleCacheClear :: "server_env \<Rightarrow> request \<Rightarrow> server \<Rightarrow> response \<times> server" where
  "handleCacheClear se r sv =
     (if r_Method r \<noteq> ''POST'' \<and> r_Method r \<noteq> ''DELETE'' then (method_not_allowed, sv)
      else case sv_cache sv of
        None \<Rightarrow> (writeJSON [] StatusOK (JObj [(''status'', JStr ''disabled'')]), sv)
      | Some c \<Rightarrow> (writeJSON [] StatusOK (JObj [(''status'', JStr ''cleared'')]),
                   sv\<lparr>sv_cache := Some (fst (Clear (se_codec se) (se_write se) (se_now se) c))\<rparr>))"

definition handleAuthStats :: "request \<Rightarrow> server \<Rightarrow> response" where
  "handleAuthStats r sv =
     (if r_Method r \<noteq> ''GET'' then method_not_allowed else writeJSON [] StatusOK (Auth_Middleware.Stats (sv_auth sv)))"

definition handleUsage :: "request \<Rightarrow> user option \<Rightarrow> server \<Rightarrow> outcome" where
  "handleUsage r usr sv =
     (if r_Method r \<noteq> ''GET'' then Resp method_not_allowed
      else case usr of
        None \<Rightarrow> Resp (http_Error [] ''{\"error\":\"no user in context\"}'' StatusUnauthorized)
      | Some u \<Rightarrow>
          if HasPrefix (u_Key u) ''jwt:'' then
            Resp (writeJSON [] StatusOK (JObj [(''id'', JStr (u_ID u)), (''name'', JStr (u_Name u)), (''tier'', JStr (u_Tier u)),
              (''rate_limit'', JNum (u_RateLimit u)), (''request_count'', JNum (- 1)), (''auth_type'', JStr ''jwt''),
              (''key_preview'', JStr (''jwt:'' @ u_Name u))]))
          else (case a_store (sv_auth sv) of
             None \<Rightarrow> Panic
           | Some st \<Rightarrow> (case Usage (u_Key u) st of
               None \<Rightarrow> Resp (http_Error [] ''{\"error\":\"user not found\"}'' StatusNotFound)
             | Some j \<Rightarrow> Resp (writeJSON [] StatusOK j))))"

definition IsAdmin :: "user option \<Rightarrow> bool" where
  "IsAdmin usr = (case usr of Some u \<Rightarrow> u_Tier u = ''admin'' | None \<Rightarrow> False)"

definition handleUsersList :: "request \<Rightarrow> user option \<Rightarrow> server \<Rightarrow> outcome" where
  "handleUsersList r usr sv =
     (if r_Method r \<noteq> ''GET'' then Resp method_not_allowed
      else if \<not> IsAdmin usr then Resp (http_Error [] ''{\"error\":\"admin only\"}'' StatusForbidden)
      else case a_store (sv_auth sv) of
        None \<Rightarrow> Panic
      | Some st \<Rightarrow> Resp (writeJSON [] StatusOK (JObj [(''users'', JArr (map user_json (AllUsers st)))])))"

definition handleQuota :: "server_env \<Rightarrow> request \<Rightarrow> user option \<Rightarrow> server \<Rightarrow> outcome \<times> server" where
  "handleQuota se r usr sv =
     (if r_Method r \<noteq> ''GET'' then (Resp method_not_allowed, sv)
      else if \<not> Enabled (se_auth se) (sv_auth sv) then
        (Resp (writeJSON [] StatusNotFound (json_error ''quota tracking requires auth to be enabled'')), sv)
      else case usr of
        None \<Rightarrow> (Resp (writeJSON [] StatusNotFound (json_error ''no authenticated user'')), sv)
      | Some u \<Rightarrow> (case a_store (sv_auth sv) of
          None \<Rightarrow> (Panic, sv)
        | Some st \<Rightarrow>
            let (info, st') = Quota (se_off se) (se_now se) (u_Key u) st; sv' = sv\<lparr>sv_auth := (sv_auth sv)\<lparr>a_store := Some st'\<rparr>\<rparr> in
            (case info of
               None \<Rightarrow> (Resp (writeJSON [] StatusNotFound (json_error ''user not found'')), sv')
             | Some i \<Rightarrow> (Resp (writeJSON [] StatusOK (quota_json i)), sv'))))"

section \<open>Reports\<close>

definition serverBaseURL :: "request \<Rightarrow> string" where
  "serverBaseURL r =
     (let proto = header_Get r ''X-Forwarded-Proto'';
          scheme = (if proto \<noteq> '''' then proto else if r_TLS r then ''https'' else ''http'');
          host = (if r_Host r = '''' then ''stackly.local'' else r_Host r)
      in scheme @ ''://'' @ host @ ''/'')"

definition serveReportHTML :: "server_env \<Rightarrow> report_data \<Rightarrow> response" where
  "serveReportHTML se d =
     \<lparr>rs_Status = StatusOK,
      rs_Header = gm_put ''Content-Disposition'' (''inline; filename=\"stackly-'' @ rd_JobID d @ ''.html\"'')
        (gm_put ''Content-Type'' ''text/html; charset=utf-8'' []),
      rs_Body = Text (Render (se_now se) (se_now' se) d)\<rparr>"

definition serveReportPDF :: "server_env \<Rightarrow> report_data \<Rightarrow> response" where
  "serveReportPDF se d =
     (case RenderPDF (se_Print se) (Render (se_now se) (se_now' se) d) of
        Inl err \<Rightarrow> writeJSON [] StatusInternalServerError (json_error (''pdf render failed: '' @ err))
      | Inr pdf \<Rightarrow>
          \<lparr>rs_Status = StatusOK,
           rs_Header = gm_put ''Content-Length'' (Itoa (int (length pdf)))
             (gm_put ''Content-Disposition'' (''attachment; filename=\"stackly-'' @ rd_JobID d @ ''.pdf\"'')
               (gm_put ''Content-Type'' ''application/pdf'' [])),
           rs_Body = Text pdf\<rparr>)"

definition handleReports :: "server_env \<Rightarrow> request \<Rightarrow> server \<Rightarrow> response" where
  "handleReports se r sv =
     (let trimmed = TrimPrefix (r_Path r) ''/api/report/'' in
      if trimmed = '''' \<or> Contains trimmed ''/'' then http_NotFound
      else
        let isPDF = HasSuffix trimmed ''.pdf'';
            i = (if isPDF then TrimSuffix trimmed ''.pdf'' else trimmed) in
        case GetJob i (sv_queue sv) of
          None \<Rightarrow> writeJSON [] StatusNotFound (json_error ''job not found'')
        | Some a \<Rightarrow>
            let j = job_at (sv_queue sv) a in
            if j_Status j \<noteq> StatusCompleted then
              writeJSON [] StatusConflict (JObj [(''error'', JStr ''scan not complete''), (''status'', JStr (status_string (j_Status j)))])
            else if j_Result j = None then
              writeJSON [] StatusUnprocessableEntity (json_error ''scan completed but no result captured'')
            else
              let d = \<lparr>rd_Result = j_Result j, rd_JobID = i, rd_Generated = se_now se, rd_ServerURL = serverBaseURL r\<rparr>
              in if isPDF then serveReportPDF se d else serveReportHTML se d)"

section \<open>Files\<close>

text \<open>\<^verbatim>\<open>filepath.Join\<close>: the parts that are not empty, joined and cleaned lexically.\<close>

fun clean_parts :: "bool \<Rightarrow> string list \<Rightarrow> string list \<Rightarrow> string list" where
  "clean_parts rooted st [] = rev st"
| "clean_parts rooted st (p # ps) =
     (if p = '''' \<or> p = ''.'' then clean_parts rooted st ps
      else if p = ''..'' then
        (case st of
           [] \<Rightarrow> clean_parts rooted (if rooted then [] else [''..'']) ps
         | q # st' \<Rightarrow> if q = ''..'' then clean_parts rooted (''..'' # st) ps else clean_parts rooted st' ps)
      else clean_parts rooted (p # st) ps)"

definition filepath_Clean :: "string \<Rightarrow> string" where
  "filepath_Clean s =
     (let rooted = HasPrefix s ''/''; body = Join (clean_parts rooted [] (Split s (CHR ''/''))) ''/'' in
      if rooted then ''/'' @ body else if body = '''' then ''.'' else body)"

definition filepath_Join :: "string list \<Rightarrow> string" where
  "filepath_Join ps = (case filter (\<lambda>p. p \<noteq> '''') ps of [] \<Rightarrow> '''' | qs \<Rightarrow> filepath_Clean (Join qs ''/''))"

definition ServeFile :: "(string, string) gomap \<Rightarrow> string \<Rightarrow> response" where
  "ServeFile hs path = \<lparr>rs_Status = StatusOK, rs_Header = hs, rs_Body = File path\<rparr>"

definition handleRoot :: "request \<Rightarrow> server \<Rightarrow> response" where
  "handleRoot r sv = (if r_Path r \<noteq> ''/'' then http_NotFound else ServeFile [] (filepath_Join [sv_webDir sv, ''index.html'']))"

definition handleStatic :: "request \<Rightarrow> server \<Rightarrow> response" where
  "handleStatic r sv = ServeFile [] (filepath_Join [sv_webDir sv, ''static'', TrimPrefix (r_Path r) ''/static/''])"

definition handleExtension :: "request \<Rightarrow> server \<Rightarrow> response" where
  "handleExtension r sv =
     (let path = TrimPrefix (r_Path r) ''/extension/''; fullPath = filepath_Join [sv_webDir sv, ''extension'', path] in
      if path = '''' \<or> Contains path ''..'' then http_NotFound
      else ServeFile [(''Cache-Control'', ''public, max-age=3600'')] fullPath)"

definition openAPIPath :: string where
  "openAPIPath = ''docs/openapi.yaml''"

definition handleOpenAPI :: response where
  "handleOpenAPI = ServeFile (gm_put ''Access-Control-Allow-Origin'' ''*'' (gm_put ''Content-Type'' ''application/yaml'' [])) openAPIPath"

definition swaggerUIHTML :: string where
  "swaggerUIHTML = concat (map (\<lambda>l. l @ [CHR 0x0A])
     [''<!DOCTYPE html>'',
      ''<html lang=\"en\">'',
      ''<head>'',
      ''<meta charset=\"UTF-8\" />'',
      ''<title>Stackly API Docs</title>'',
      ''<link rel=\"stylesheet\" href=\"https://unpkg.com/swagger-ui-dist@5/swagger-ui.css\" />'',
      ''</head>'',
      ''<body>'',
      ''<div id=\"swagger-ui\"></div>'',
      ''<script src=\"https://unpkg.com/swagger-ui-dist@5/swagger-ui-bundle.js\"></script>'',
      ''<script>'',
      ''  window.onload = () => {'',
      ''    window.ui = SwaggerUIBundle({'',
      ''      url: \"/api/docs\",'',
      ''      dom_id: \"#swagger-ui\",'',
      ''      deepLinking: true,'',
      ''      presets: [SwaggerUIBundle.presets.apis],'',
      ''    });'',
      ''  };'',
      ''</script>'',
      ''</body>'',
      ''</html>''])"

definition handleSwaggerUI :: response where
  "handleSwaggerUI = \<lparr>rs_Status = StatusOK, rs_Header = [(''Content-Type'', ''text/html; charset=utf-8'')], rs_Body = Text swaggerUIHTML\<rparr>"

text \<open>The scrape handler is the Prometheus library's.\<close>

definition handleMetrics :: response where
  "handleMetrics = \<lparr>rs_Status = StatusOK, rs_Header = [(''Content-Type'', ''text/plain; version=0.0.4; charset=utf-8'')], rs_Body = NoBody\<rparr>"

section \<open>WebSocket\<close>

definition ws_authenticator :: "auth_env \<Rightarrow> auth \<Rightarrow> (string \<Rightarrow> bool) option" where
  "ws_authenticator ev a =
     (if Enabled ev a then
        (case a_store a of
           None \<Rightarrow> None
         | Some st \<Rightarrow> Some (\<lambda>token. if AuthenticateAPIKey token st \<noteq> None then True else VerifyToken ev a token))
      else None)"

text \<open>A successful upgrade takes the connection over: there is no HTTP response any more.\<close>

definition handleScanWS :: "server_env \<Rightarrow> request \<Rightarrow> server \<Rightarrow> ws_result \<times> server" where
  "handleScanWS se r sv =
     (let (res, h) = HandleScanWS (ws_authenticator (se_auth se) (sv_auth sv)) (se_upgrade se) r (sv_hub sv) in (res, sv\<lparr>sv_hub := h\<rparr>))"

section \<open>Routing\<close>

definition handleAPI :: "server_env \<Rightarrow> request \<Rightarrow> user option \<Rightarrow> server \<Rightarrow> outcome \<times> server" where
  "handleAPI se r usr sv =
     (let path = r_Path r; pure = (\<lambda>resp. (Resp resp, sv)) in
      if path = ''/api/scan'' then handleScan se r usr sv
      else if path = ''/api/stats'' then pure (handleStats se sv)
      else if path = ''/api/health'' then pure (handleHealth se)
      else if path = ''/api/jobs'' then pure (handleListJobs se r sv)
      else if path = ''/api/cache/stats'' then pure (handleCacheStats se r sv)
      else if path = ''/api/cache/clear'' then (let (resp, sv') = handleCacheClear se r sv in (Resp resp, sv'))
      else if path = ''/api/auth/stats'' then pure (handleAuthStats r sv)
      else if path = ''/api/auth/usage'' then (handleUsage r usr sv, sv)
      else if path = ''/api/auth/users'' then (handleUsersList r usr sv, sv)
      else if path = ''/api/auth/quota'' then handleQuota se r usr sv
      else if path = ''/api/docs'' then pure handleOpenAPI
      else if path = ''/api/docs/ui'' then pure handleSwaggerUI
      else if path = ''/api/fingerprints'' then pure (handleFingerprints sv)
      else if path = ''/api/schedules'' then
        (let (resp, st) = handleSchedules (se_api se) (se_create se) r usr (sv_sched sv) in (Resp resp, sv\<lparr>sv_sched := st\<rparr>))
      else if HasPrefix path ''/api/results/'' then handleResults se r sv
      else if HasPrefix path ''/api/report/'' then pure (handleReports se r sv)
      else if HasPrefix path ''/api/schedules/'' then
        (let (resp, st) = handleScheduleSubpath (se_api se) (se_patch se) r usr (sv_sched sv) in (Resp resp, sv\<lparr>sv_sched := st\<rparr>))
      else if HasPrefix path ''/api/webhooks/'' then
        pure (fst (handleWebhookSubpath (se_api se) (se_hook se) (se_test se) r usr (sv_sched sv)))
      else pure http_NotFound)"

text \<open>The multiplexer picks the longest registered pattern.\<close>

datatype reply = Http outcome | Ws ws_result

definition mux :: "server_env \<Rightarrow> request \<Rightarrow> user option \<Rightarrow> server \<Rightarrow> reply \<times> server" where
  "mux se r usr sv =
     (let path = r_Path r; page = (\<lambda>resp. (Http (Resp resp), sv)) in
      if HasPrefix path ''/api/ws/scan/'' then (let (w, sv') = handleScanWS se r sv in (Ws w, sv'))
      else if HasPrefix path ''/api/'' then (let (out, sv') = handleAPI se r usr sv in (Http out, sv'))
      else if HasPrefix path ''/static/'' then page (handleStatic r sv)
      else if HasPrefix path ''/extension/'' then page (handleExtension r sv)
      else if path = ''/metrics'' then page handleMetrics
      else page (handleRoot r sv))"

definition cors_headers :: "(string, string) gomap" where
  "cors_headers =
     [(''Access-Control-Allow-Origin'', ''*''), (''Access-Control-Allow-Methods'', ''GET, POST, OPTIONS''),
      (''Access-Control-Allow-Headers'', ''Content-Type, X-API-Key, Authorization'')]"

text \<open>The headers that are set before the handler runs; those of the handler win.\<close>

definition under_headers :: "(string, string) gomap \<Rightarrow> response \<Rightarrow> response" where
  "under_headers hs resp = resp\<lparr>rs_Header := foldl (\<lambda>m (k, v). gm_put k v m) hs (rs_Header resp)\<rparr>"

fun under_reply :: "(string, string) gomap \<Rightarrow> reply \<Rightarrow> reply" where
  "under_reply hs (Http (Resp resp)) = Http (Resp (under_headers hs resp))"
| "under_reply hs (Http Panic) = Http Panic"
| "under_reply hs (Ws w) = Ws w"

definition corsMiddleware :: "(server \<Rightarrow> reply \<times> metric_op list \<times> server) \<Rightarrow> request \<Rightarrow> server \<Rightarrow> reply \<times> metric_op list \<times> server" where
  "corsMiddleware next_handler r sv =
     (if r_Method r = ''OPTIONS'' then (Http (Resp \<lparr>rs_Status = StatusOK, rs_Header = cors_headers, rs_Body = NoBody\<rparr>), [], sv)
      else let (rep, ms, sv') = next_handler sv in (under_reply cors_headers rep, ms, sv'))"

definition auth_then_mux :: "server_env \<Rightarrow> request \<Rightarrow> server \<Rightarrow> reply \<times> metric_op list \<times> server" where
  "auth_then_mux se r sv =
     (let (v, ms, a') = Middleware (se_auth se) (se_now se) (se_now' se) r (sv_auth sv); sv' = sv\<lparr>sv_auth := a'\<rparr> in
      case v of
        Public \<Rightarrow> (let (rep, sv'') = mux se r None sv' in (rep, ms, sv''))
      | Forward usr \<Rightarrow> (let (rep, sv'') = mux se r usr sv' in (rep, ms, sv''))
      | Reject resp \<Rightarrow> (Http (Resp resp), ms, sv'))"

definition routePattern :: "request \<Rightarrow> string" where
  "routePattern r =
     (let p = r_Path r in
      if p \<in> {''/metrics'', ''/api/health'', ''/api/scan'', ''/api/stats'', ''/api/jobs'', ''/api/cache/stats'', ''/api/cache/clear'',
              ''/api/auth/stats'', ''/api/auth/usage'', ''/api/auth/users'', ''/api/docs'', ''/api/docs/ui''} then p
      else if HasPrefix p ''/api/results/'' then ''/api/results/:id''
      else if HasPrefix p ''/static/'' then ''/static/*''
      else if HasPrefix p ''/extension/'' then ''/extension/*''
      else ''/'')"

definition isWebSocketUpgrade :: "request \<Rightarrow> bool" where
  "isWebSocketUpgrade r \<longleftrightarrow>
     ToLower (header_Get r ''Upgrade'') = ''websocket'' \<and> Contains (ToLower (header_Get r ''Connection'')) ''upgrade''"

text \<open>The recorder starts with status 200, which stays when the handler takes the connection over.
  A panic leaves the middleware before it records anything but the gauge.\<close>

fun reply_status :: "reply \<Rightarrow> int" where
  "reply_status (Http (Resp resp)) = rs_Status resp"
| "reply_status (Ws (WsReject resp)) = rs_Status resp"
| "reply_status _ = 200"

definition HTTPMiddleware ::
  "(request \<Rightarrow> string) \<Rightarrow> (server \<Rightarrow> reply \<times> metric_op list \<times> server) \<Rightarrow> duration \<Rightarrow> request \<Rightarrow> server \<Rightarrow> reply \<times> metric_op list \<times> server"
where
  "HTTPMiddleware pathFn next_handler elapsed r sv =
     (if isWebSocketUpgrade r then next_handler sv
      else
        let (rep, ms, sv') = next_handler sv in
        (rep, [MInc ''HTTPInFlight'' []] @ ms @
          (if rep = Http Panic then []
           else [MDec ''HTTPInFlight'' [], MObserve ''HTTPDuration'' [r_Method r, pathFn r] elapsed,
                 MInc ''HTTPRequests'' [r_Method r, pathFn r, Itoa (reply_status rep)]]), sv'))"

definition Handler :: "server_env \<Rightarrow> request \<Rightarrow> server \<Rightarrow> reply \<times> metric_op list \<times> server" where
  "Handler se r sv = HTTPMiddleware routePattern (corsMiddleware (auth_then_mux se r) r) (se_now' se - se_now se) r sv"


section \<open>The chain\<close>

lemma under_headers_sel [simp]: "rs_Status (under_headers hs resp) = rs_Status resp" "rs_Body (under_headers hs resp) = rs_Body resp"
  by (simp_all add: under_headers_def)

text \<open>What reaches the multiplexer, and with which user.\<close>

lemma Handler_inner:
  assumes "Handler se r sv = (rep, ms, sv')" "r_Method r \<noteq> ''OPTIONS''"
  obtains rep' ms' where "auth_then_mux se r sv = (rep', ms', sv')" "rep = under_reply cors_headers rep'"
proof -
  obtain rep' ms' sv'' where a: "auth_then_mux se r sv = (rep', ms', sv'')" by (cases "auth_then_mux se r sv") auto
  have "rep = under_reply cors_headers rep' \<and> sv' = sv''"
    using assms a by (auto simp: Handler_def HTTPMiddleware_def corsMiddleware_def Let_def split: if_splits)
  then show thesis using a that by blast
qed

lemma Handler_resp:
  assumes "Handler se r sv = (Http (Resp resp), ms, sv')" "r_Method r \<noteq> ''OPTIONS''"
  obtains resp' ms' where "auth_then_mux se r sv = (Http (Resp resp'), ms', sv')" "rs_Status resp' = rs_Status resp" "rs_Body resp' = rs_Body resp"
proof -
  obtain rep' ms' where a: "auth_then_mux se r sv = (rep', ms', sv')" "Http (Resp resp) = under_reply cors_headers rep'"
    by (rule Handler_inner [OF assms]) blast
  then obtain resp' where "rep' = Http (Resp resp')" "resp = under_headers cors_headers resp'"
    by (cases "(cors_headers, rep')" rule: under_reply.cases) auto
  then show thesis using a that by simp
qed

lemma auth_then_mux_forwarded:
  assumes "auth_then_mux se r sv = (Http (Resp resp), ms, sv')" "rs_Status resp \<noteq> 401" "rs_Status resp \<noteq> 429"
    and "\<not> is_public (r_Path r)" "Enabled (se_auth se) (sv_auth sv)"
  obtains u a' where "fst (Middleware (se_auth se) (se_now se) (se_now' se) r (sv_auth sv)) = Forward (Some u)"
    "a' = snd (snd (Middleware (se_auth se) (se_now se) (se_now' se) r (sv_auth sv)))"
    "mux se r (Some u) (sv\<lparr>sv_auth := a'\<rparr>) = (Http (Resp resp), sv')"
    "store_user (se_auth se) (sv_auth sv) r u \<or> jwt_user (se_auth se) (sv_auth sv) r u"
proof -
  obtain v m a' where mw: "Middleware (se_auth se) (se_now se) (se_now' se) r (sv_auth sv) = (v, m, a')"
    by (cases "Middleware (se_auth se) (se_now se) (se_now' se) r (sv_auth sv)") auto
  have v: "(\<exists>u. v = Forward (Some u) \<and> (store_user (se_auth se) (sv_auth sv) r u \<or> jwt_user (se_auth se) (sv_auth sv) r u)) \<or>
      (\<exists>q. v = Reject q \<and> (rs_Status q = 401 \<or> rs_Status q = 429))"
    using Middleware_guards [OF assms(5,4), of "se_now se" "se_now' se"] mw by auto
  have "\<not> (\<exists>q. v = Reject q \<and> (rs_Status q = 401 \<or> rs_Status q = 429))"
    using assms(1-3) mw by (auto simp: auth_then_mux_def)
  then obtain u where u: "v = Forward (Some u)" "store_user (se_auth se) (sv_auth sv) r u \<or> jwt_user (se_auth se) (sv_auth sv) r u" using v by blast
  have m: "mux se r (Some u) (sv\<lparr>sv_auth := a'\<rparr>) = (Http (Resp resp), sv')"
    using assms(1) mw u(1) by (simp add: auth_then_mux_def split: prod.splits)
  have f: "fst (Middleware (se_auth se) (se_now se) (se_now' se) r (sv_auth sv)) = Forward (Some u)"
    "a' = snd (snd (Middleware (se_auth se) (se_now se) (se_now' se) r (sv_auth sv)))"
    unfolding mw u(1) by simp_all
  show thesis by (rule that [OF f m u(2)])
qed

lemma Handler_OPTIONS:
  assumes "Handler se r sv = (Http (Resp resp), ms, sv')" "r_Method r = ''OPTIONS''"
  shows "rs_Status resp = 200 \<and> sv' = sv"
  using assms by (auto simp: Handler_def HTTPMiddleware_def corsMiddleware_def StatusOK_def Let_def split: if_splits)

lemma Handler_passes:
  "auth_then_mux se r sv = (Http (Resp resp), ms, sv') \<Longrightarrow> r_Method r \<noteq> ''OPTIONS'' \<Longrightarrow>
    \<exists>ms'. Handler se r sv = (Http (Resp (under_headers cors_headers resp)), ms', sv')"
  by (auto simp: Handler_def HTTPMiddleware_def corsMiddleware_def Let_def)


text \<open>Recording usage does not add or remove users, so authentication stays enabled.\<close>

lemma RecordUsage_users: "length (as_users (RecordUsage now key st)) = length (as_users st)"
proof (cases "gm_get (as_users st) key")
  case (Some u)
  have "gm_len (gm_put key v (as_users st)) = gm_len (as_users st)" for v using Some by (simp add: gm_len_update)
  then show ?thesis using Some by (simp add: RecordUsage_def gm_len_def)
qed (simp add: RecordUsage_def)

lemma RecordUsage_Nil [simp]: "as_users (RecordUsage now key st) = [] \<longleftrightarrow> as_users st = []"
  using RecordUsage_users [of now key st] by (metis length_0_conv)

lemma Middleware_keeps:
  "a_enabled (snd (snd (Middleware ev now now' r a))) = a_enabled a \<and> a_jwtSecret (snd (snd (Middleware ev now now' r a))) = a_jwtSecret a"
  unfolding Middleware_def by (simp add: Let_def split: prod.splits option.splits)

lemma Enabled_after:
  assumes "Enabled ev a"
  shows "Enabled ev (snd (snd (Middleware ev now now' r a)))"
  using assms Middleware_store [of ev now now' r a] Middleware_keeps [of ev now now' r a]
  by (auto simp: Enabled_def AllUsers_def split: verdict.splits option.splits if_splits)


text \<open>A refusal of the quota never has status 202, and only a job that is enqueued is accepted.\<close>

lemma quota_gate_refusal:
  assumes "quota_gate se usr a = (Inl resp, a')"
  shows "rs_Status resp = 429"
proof -
  obtain u st where u: "usr = Some u" "a_store a = Some st" using assms by (auto simp: quota_gate_def split: if_splits option.splits)
  obtain i e st' where c: "CheckAndIncrementQuota (se_off se) (se_now se) (u_Key u) st = ((i, e), st')"
    by (cases "CheckAndIncrementQuota (se_off se) (se_now se) (u_Key u) st") auto
  show ?thesis using assms u c
    by (cases i; cases e; cases "the e") (auto simp: quota_gate_def StatusTooManyRequests_def split: if_splits)
qed

lemma quota_gate_passed:
  assumes "quota_gate se (Some u) a = (Inr hs, a')" "Enabled (se_auth se) a"
  obtains st where "a_store a = Some st" "a' = a\<lparr>a_store := Some (snd (CheckAndIncrementQuota (se_off se) (se_now se) (u_Key u) st))\<rparr>"
    "snd (fst (CheckAndIncrementQuota (se_off se) (se_now se) (u_Key u) st)) \<noteq> Some ErrQuotaExceeded"
proof -
  obtain st where st: "a_store a = Some st" using assms(2) by (auto simp: Enabled_def split: if_splits option.splits)
  obtain i e st' where c: "CheckAndIncrementQuota (se_off se) (se_now se) (u_Key u) st = ((i, e), st')"
    by (cases "CheckAndIncrementQuota (se_off se) (se_now se) (u_Key u) st") auto
  have ie: "i = None \<Longrightarrow> e = Some ErrUserNotFound" using c by (auto simp: CheckAndIncrementQuota_def Let_def split: option.splits prod.splits if_splits)
  have "e \<noteq> Some ErrQuotaExceeded \<and> a' = a\<lparr>a_store := Some st'\<rparr>"
  proof (cases i)
    case None
    then show ?thesis using assms st c ie by (simp add: quota_gate_def)
  next
    case (Some x)
    then show ?thesis using assms st c by (cases e; cases "the e") (auto simp: quota_gate_def)
  qed
  then show thesis using that st c by simp
qed

lemma handleScan_accepted:
  assumes "handleScan se r usr sv = (Resp resp, sv')" "rs_Status resp = 202"
  obtains req hs a' where "r_Method r = ''POST''" "se_scan se = Inr req" "TrimSpace (sq_URL req) \<noteq> ''''"
    "ValidateScanURL (ae_net (se_api se)) (with_scheme (TrimSpace (sq_URL req))) = None" "quota_gate se usr (sv_auth sv) = (Inr hs, a')"
    "enqueue_scan se hs req (with_scheme (TrimSpace (sq_URL req))) (sv\<lparr>sv_auth := a'\<rparr>) = (Resp resp, sv')"
  using assms
  by (auto simp: handleScan_def method_not_allowed_def bad_request_def StatusMethodNotAllowed_def StatusBadRequest_def Let_def
      split: if_splits sum.splits option.splits prod.splits dest: quota_gate_refusal)

lemma enqueue_scan_auth: "enqueue_scan se hs req url sv = (out, sv') \<Longrightarrow> sv_auth sv' = sv_auth sv"
  by (auto simp: enqueue_scan_def Let_def split: enqueue_result.splits option.splits prod.splits if_splits)

lemma mux_scan: "r_Path r = ''/api/scan'' \<Longrightarrow> mux se r usr sv = (let (out, sv') = handleScan se r usr sv in (Http out, sv'))"
  by (simp add: mux_def handleAPI_def HasPrefix_def)

lemma scan_not_public: "r_Path r = ''/api/scan'' \<Longrightarrow> \<not> is_public (r_Path r)"
  by (simp add: is_public_def HasPrefix_def)

lemma users_not_public: "r_Path r = ''/api/auth/users'' \<Longrightarrow> \<not> is_public (r_Path r)"
  by (simp add: is_public_def HasPrefix_def)

lemma mux_users: "r_Path r = ''/api/auth/users'' \<Longrightarrow> mux se r usr sv = (Http (handleUsersList r usr sv), sv)"
  by (simp add: mux_def handleAPI_def HasPrefix_def)

section \<open>Waiting\<close>

lemma wait_loop_ends:
  assumes "deadline - clock n \<le> int k * (500 * millisecond)" "\<And>m. clock m + 500 * millisecond \<le> clock (Suc m)"
  shows "\<exists>m \<ge> n. m \<le> n + k \<and> wait_loop clock qs i deadline n = Some m \<and> (job_done i (qs m) \<or> deadline \<le> clock m) \<and>
    (\<forall>l. n \<le> l \<and> l < m \<longrightarrow> \<not> job_done i (qs l))"
  using assms(1)
proof (induction k arbitrary: n)
  case 0
  then show ?case by (intro exI [of _ n]) (auto simp: wait_loop.simps)
next
  case (Suc k)
  show ?case
  proof (cases "clock n < deadline \<and> \<not> job_done i (qs n)")
    case True
    have "deadline - clock (Suc n) \<le> int k * (500 * millisecond)" using Suc.prems assms(2) [of n] by (simp add: algebra_simps)
    from Suc.IH [OF this] obtain m where m: "m \<ge> Suc n" "m \<le> Suc n + k" "wait_loop clock qs i deadline (Suc n) = Some m"
      "job_done i (qs m) \<or> deadline \<le> clock m" "\<forall>l. Suc n \<le> l \<and> l < m \<longrightarrow> \<not> job_done i (qs l)" by blast
    have "\<not> job_done i (qs l)" if "n \<le> l" "l < m" for l using m(5) that True by (cases "l = n") auto
    then show ?thesis using m True by (intro exI [of _ m]) (auto simp: wait_loop.simps [of clock qs i deadline n])
  next
    case False
    then show ?thesis by (intro exI [of _ n]) (auto simp: wait_loop.simps)
  qed
qed

lemma wait_seconds_range: "1 \<le> wait_seconds n \<and> wait_seconds n \<le> 300"
  by (simp add: wait_seconds_def Let_def)

section \<open>Properties\<close>

text \<open>C35: Waiting for a job ends. When every round of the polling loop takes at least its half second
  of sleep, \<open>waitForJob\<close> returns after at most two rounds per second of its limit, which is
  between 1 and 300 seconds whatever the request says; it returns in the first round that sees
  the job finished, or at the deadline.\<close>

theorem waiting_ends:
  assumes "\<And>m. clock m + 500 * millisecond \<le> clock (Suc m)" "start \<le> clock 0"
  shows "\<exists>m. waitForJob start clock qs i maxSeconds = Some m \<and> m \<le> 2 * nat (wait_seconds maxSeconds) \<and>
     wait_seconds maxSeconds \<in> {1..300} \<and> (job_done i (qs m) \<or> start + wait_seconds maxSeconds * second \<le> clock m) \<and>
     (\<forall>l < m. \<not> job_done i (qs l))"
proof -
  let ?k = "2 * nat (wait_seconds maxSeconds)"
  have "start + wait_seconds maxSeconds * second - clock 0 \<le> int ?k * (500 * millisecond)"
    using assms(2) wait_seconds_range [of maxSeconds] by (simp add: second_def millisecond_def)
  from wait_loop_ends [where qs = qs and i = i, OF this assms(1)] show ?thesis
    using wait_seconds_range [of maxSeconds] unfolding waitForJob_def by auto
qed

theorem waiting_ends_witness:
  "\<exists>m. waitForJob 0 (\<lambda>n. int n * second) (\<lambda>n. NewJobQueue 2) ''x'' 3 = Some m \<and> m \<le> 6"
proof -
  have "int m * second + 500 * millisecond \<le> int (Suc m) * second" for m by (simp add: second_def millisecond_def algebra_simps)
  from waiting_ends [where clock = "\<lambda>n. int n * second" and start = 0 and qs = "\<lambda>n. NewJobQueue 2" and i = "''x''" and maxSeconds = 3, OF this]
  show ?thesis by (auto simp: wait_seconds_def)
qed

text \<open>A report is served exactly for completed jobs. \<open>handleReports\<close> answers 200 with the page
  of the job's result exactly when the path names, without or with the suffix .pdf, a job of the
  queue that is completed and has a result (and, for a PDF, the renderer succeeds).\<close>

theorem report_served_iff:
  "rs_Status (handleReports se r sv) = 200 \<longleftrightarrow>
     (\<exists>t a res. t = TrimPrefix (r_Path r) ''/api/report/'' \<and> t \<noteq> '''' \<and> \<not> Contains t ''/'' \<and>
        GetJob (if HasSuffix t ''.pdf'' then TrimSuffix t ''.pdf'' else t) (sv_queue sv) = Some a \<and>
        j_Status (job_at (sv_queue sv) a) = StatusCompleted \<and> j_Result (job_at (sv_queue sv) a) = Some res \<and>
        (if HasSuffix t ''.pdf'' then \<exists>pdf. RenderPDF (se_Print se) (Render (se_now se) (se_now' se)
             \<lparr>rd_Result = Some res, rd_JobID = TrimSuffix t ''.pdf'', rd_Generated = se_now se, rd_ServerURL = serverBaseURL r\<rparr>) = Inr pdf
         else rs_Body (handleReports se r sv) = Text (Render (se_now se) (se_now' se)
             \<lparr>rd_Result = Some res, rd_JobID = t, rd_Generated = se_now se, rd_ServerURL = serverBaseURL r\<rparr>)))"
  by (auto simp: handleReports_def serveReportHTML_def serveReportPDF_def Let_def status_defs split: option.splits sum.splits)

end
