(* ===== verification/Merge_Race.thy ===== *)
theory Merge_Race
  imports Detect
begin

text \<open>
  The list of addresses that two goroutines fill at the same time, \<^verbatim>\<open>mergeUnique\<close> of
  \<^verbatim>\<open>internal/scanner/scanner.go\<close> as the two searches of a contact page call it: both read and write
  \<^verbatim>\<open>result.Emails\<close> and nothing is locked. A slice is a header (an array and a length) in a shared variable;
  the arrays are on a heap and an array's capacity is its size. Each goroutine has a program
  point inside \<^verbatim>\<open>mergeUnique\<close> and the addresses it still has to add, and a schedule says who
  takes the next step. One step is one access: the load of the header, the comparison with
  one element, the test of the length, the write of the element (in place, or into a grown
  copy), the store of the header. Accesses are sequentially consistent and a header is
  read and written whole: the memory model of the language promises less, so the executions
  here are some of those that the program has, and theorems that hold for every schedule are
  only stated for the case in which one goroutine has nothing to add and no race happens.
\<close>

section \<open>Memory and program points\<close>

record slice_mem =
  sm_heap :: "string list list"
  sm_hdr :: "nat \<times> nat"

definition slice_of :: "slice_mem \<Rightarrow> string list" where
  "slice_of m = take (snd (sm_hdr m)) (sm_heap m ! fst (sm_hdr m))"

datatype merge_pc =
    Idle
  | Scanning nat nat nat
  | Scanned
  | Fits
  | Appending nat nat
  | Storing nat nat

type_synonym merge_thread = "merge_pc \<times> string list"

text \<open>\<^verbatim>\<open>append\<close> on a full array: the capacity is doubled, from 0 to 1 first.\<close>

definition grown :: "nat \<Rightarrow> string list \<Rightarrow> string \<Rightarrow> string list" where
  "grown n arr e = take n arr @ e # replicate (max 1 (2 * n) - Suc n) ''''"

fun merge_step :: "slice_mem \<Rightarrow> merge_thread \<Rightarrow> slice_mem \<times> merge_thread" where
  "merge_step m (pc, []) = (m, (pc, []))"
| "merge_step m (Idle, e # es) =
     (if e = '''' then (m, (Idle, es)) else (m, (Scanning (fst (sm_hdr m)) (snd (sm_hdr m)) 0, e # es)))"
| "merge_step m (Scanning a n i, e # es) =
     (if n \<le> i then (m, (Scanned, e # es))
      else if sm_heap m ! a ! i = e then (m, (Idle, es))
      else (m, (Scanning a n (Suc i), e # es)))"
| "merge_step m (Scanned, e # es) = (if 20 \<le> snd (sm_hdr m) then (m, (Idle, es)) else (m, (Fits, e # es)))"
| "merge_step m (Fits, e # es) = (m, (Appending (fst (sm_hdr m)) (snd (sm_hdr m)), e # es))"
| "merge_step m (Appending a n, e # es) =
     (if n < length (sm_heap m ! a)
      then (m\<lparr>sm_heap := (sm_heap m)[a := (sm_heap m ! a)[n := e]]\<rparr>, (Storing a (Suc n), e # es))
      else (m\<lparr>sm_heap := sm_heap m @ [grown n (sm_heap m ! a) e]\<rparr>, (Storing (length (sm_heap m)) (Suc n), e # es)))"
| "merge_step m (Storing a n, e # es) = (m\<lparr>sm_hdr := (a, n)\<rparr>, (Idle, es))"

text \<open>The two goroutines under a schedule: whether the first one takes the next step.\<close>

fun race_steps :: "bool list \<Rightarrow> slice_mem \<times> merge_thread \<times> merge_thread \<Rightarrow> slice_mem \<times> merge_thread \<times> merge_thread" where
  "race_steps [] c = c"
| "race_steps (b # bs) (m, t, u) =
     (if b then let (m', t') = merge_step m t in race_steps bs (m', t', u)
      else let (m', u') = merge_step m u in race_steps bs (m', t, u'))"

text \<open>A goroutine that runs alone to its end: one address fewer, or the same address at a later
  point, at each step.\<close>

fun pc_rank :: "merge_pc \<Rightarrow> nat" where
  "pc_rank Idle = 5"
| "pc_rank (Scanning a n i) = 4"
| "pc_rank Scanned = 3"
| "pc_rank Fits = 2"
| "pc_rank (Appending a n) = 1"
| "pc_rank (Storing a n) = 0"

fun pc_left :: "merge_pc \<Rightarrow> nat" where
  "pc_left (Scanning a n i) = n - i"
| "pc_left _ = 0"

function drain :: "slice_mem \<Rightarrow> merge_thread \<Rightarrow> slice_mem" where
  "drain m (pc, []) = m"
| "drain m (pc, e # es) = (let (m', t') = merge_step m (pc, e # es) in drain m' t')"
  by pat_completeness auto

lemma merge_step_progress:
  assumes "merge_step m (pc, e # es) = (m', (pc', es'))"
  shows "es' = es \<or> es' = e # es \<and> (pc_rank pc' < pc_rank pc \<or> pc_rank pc' = pc_rank pc \<and> pc_left pc' < pc_left pc)"
  using assms by (cases pc) (auto split: if_splits)

termination drain
proof (relation "measures [\<lambda>(m, t). length (snd t), \<lambda>(m, t). pc_rank (fst t), \<lambda>(m, t). pc_left (fst t)]")
  fix m pc e es x m' t'
  assume x: "x = merge_step m (pc, e # es)" "(m', t') = x"
  obtain pc' es' where t: "t' = (pc', es')" by fastforce
  have "merge_step m (pc, e # es) = (m', (pc', es'))" using x t by simp
  from merge_step_progress [OF this]
  show "((m', t'), (m, (pc, e # es))) \<in> measures [\<lambda>(m, t). length (snd t), \<lambda>(m, t). pc_rank (fst t), \<lambda>(m, t). pc_left (fst t)]"
    unfolding t by auto
qed simp

text \<open>\<^verbatim>\<open>wg.Wait\<close>: after the schedule both goroutines run to their ends. Every complete
  interleaving is such a run.\<close>

definition merge_race :: "bool list \<Rightarrow> string list \<Rightarrow> string list \<Rightarrow> string list \<Rightarrow> string list" where
  "merge_race sch dst xs ys =
     (let (m, t, u) = race_steps sch (\<lparr>sm_heap = [dst], sm_hdr = (0, length dst)\<rparr>, (Idle, xs), (Idle, ys))
      in slice_of (drain (drain m t) u))"

section \<open>One goroutine alone\<close>

text \<open>What a goroutine knows at each point while nobody else touches the slice.\<close>

fun solo :: "slice_mem \<Rightarrow> merge_thread \<Rightarrow> bool" where
  "solo m (pc, []) = True"
| "solo m (Idle, e # es) = True"
| "solo m (Scanning a n i, e # es) \<longleftrightarrow> e \<noteq> '''' \<and> sm_hdr m = (a, n) \<and> i \<le> n \<and> e \<notin> set (take i (slice_of m))"
| "solo m (Scanned, e # es) \<longleftrightarrow> e \<noteq> '''' \<and> e \<notin> set (slice_of m)"
| "solo m (Fits, e # es) \<longleftrightarrow> e \<noteq> '''' \<and> e \<notin> set (slice_of m) \<and> length (slice_of m) < 20"
| "solo m (Appending a n, e # es) \<longleftrightarrow> sm_hdr m = (a, n) \<and> e \<noteq> '''' \<and> e \<notin> set (slice_of m) \<and> length (slice_of m) < 20"
| "solo m (Storing a n, e # es) \<longleftrightarrow> a < length (sm_heap m) \<and> n \<le> length (sm_heap m ! a) \<and>
     take n (sm_heap m ! a) = slice_of m @ [e] \<and> e \<noteq> '''' \<and> e \<notin> set (slice_of m) \<and> length (slice_of m) < 20"

definition slice_wf :: "slice_mem \<Rightarrow> bool" where
  "slice_wf m \<longleftrightarrow> fst (sm_hdr m) < length (sm_heap m) \<and> snd (sm_hdr m) \<le> length (sm_heap m ! fst (sm_hdr m))"

lemma slice_length: "slice_wf m \<Longrightarrow> length (slice_of m) = snd (sm_hdr m)"
  by (simp add: slice_wf_def slice_of_def)

lemma slice_nth: "slice_wf m \<Longrightarrow> sm_hdr m = (a, n) \<Longrightarrow> i < n \<Longrightarrow> sm_heap m ! a ! i = slice_of m ! i"
  by (simp add: slice_of_def)

lemma append_in_place:
  "n < length arr \<Longrightarrow> take (Suc n) (arr[n := e]) = take n arr @ [e]" "n < length arr \<Longrightarrow> take n (arr[n := e]) = take n arr"
  by (simp_all add: take_Suc_conv_app_nth)

lemma solo_step:
  assumes "slice_wf m" "solo m t" "merge_step m t = (m', t')"
  shows "slice_wf m' \<and> solo m' t' \<and> foldl mergeUnique (slice_of m') (snd t') = foldl mergeUnique (slice_of m) (snd t)"
  using assms
proof (induction m t rule: merge_step.induct)
  case (2 m e es)
  then show ?case by (cases es) (auto simp: mergeUnique_def slice_of_def slice_wf_def split: if_splits)
next
  case (3 m a n i e es)
  note len = slice_length [OF 3(1)] and nth = slice_nth [OF 3(1), of a n i]
  have h: "sm_hdr m = (a, n)" using 3(2) by simp
  show ?case
  proof (cases "i < n")
    case True
    then have s: "take (Suc i) (slice_of m) = take i (slice_of m) @ [slice_of m ! i]" "slice_of m ! i \<in> set (slice_of m)"
      using len h by (auto simp: take_Suc_conv_app_nth)
    show ?thesis using 3 True h nth s by (cases es) (auto simp: mergeUnique_def split: if_splits)
  next
    case False
    then show ?thesis using 3 h len by auto
  qed
next
  case (4 m e es)
  then show ?case using slice_length [OF 4(1)] by (cases es) (auto simp: mergeUnique_def split: if_splits)
next
  case (6 m a n e es)
  have h: "sm_hdr m = (a, n)" "a < length (sm_heap m)" "n \<le> length (sm_heap m ! a)" "slice_of m = take n (sm_heap m ! a)"
    using 6 by (auto simp: slice_wf_def slice_of_def)
  show ?case
  proof (cases "n < length (sm_heap m ! a)")
    case True
    then show ?thesis using 6 h by (auto simp: slice_wf_def slice_of_def append_in_place)
  next
    case False
    then show ?thesis using 6 h by (auto simp: slice_wf_def slice_of_def grown_def nth_append)
  qed
next
  case (7 m a n e es)
  then have "slice_of m' = slice_of m @ [e]" "slice_wf m'" "t' = (Idle, es)" by (auto simp: slice_of_def slice_wf_def)
  then show ?case using 7 by (cases es) (auto simp: mergeUnique_def)
qed auto

lemma drain_solo: "slice_wf m \<Longrightarrow> solo m t \<Longrightarrow> slice_wf (drain m t) \<and> slice_of (drain m t) = foldl mergeUnique (slice_of m) (snd t)"
proof (induction m t rule: drain.induct)
  case (2 m pc e es)
  obtain m' t' where s: "merge_step m (pc, e # es) = (m', t')" by (rule prod.exhaust)
  show ?case using 2(1) [OF s [symmetric] refl] solo_step [OF 2(2,3) s] s by simp
qed simp

lemma race_solo:
  assumes "slice_wf m" "solo m t" "race_steps sch (m, t, (pc, [])) = (m', t', u')"
  shows "slice_wf m' \<and> solo m' t' \<and> foldl mergeUnique (slice_of m') (snd t') = foldl mergeUnique (slice_of m) (snd t) \<and> u' = (pc, [])"
  using assms
proof (induction sch arbitrary: m t)
  case (Cons b sch)
  obtain m1 t1 where s: "merge_step m t = (m1, t1)" by (rule prod.exhaust)
  note k = solo_step [OF Cons.prems(1,2) s]
  show ?case using Cons.IH [of m1 t1] Cons.IH [of m t] Cons.prems k s by (cases b) auto
qed auto

lemma race_swap: "race_steps sch (m, t, u) = (m', t', u') \<Longrightarrow> race_steps (map Not sch) (m, u, t) = (m', u', t')"
  by (induction sch arbitrary: m t u) (auto split: prod.splits)

text \<open>Without a second goroutine the steps are \<open>mergeUnique\<close>, one address after the other.\<close>

lemma merge_race_first: "merge_race sch dst xs [] = foldl mergeUnique dst xs"
proof -
  let ?m = "\<lparr>sm_heap = [dst], sm_hdr = (0, length dst)\<rparr>"
  obtain m t u where r: "race_steps sch (?m, (Idle, xs), (Idle, [])) = (m, t, u)" by (metis prod_cases3)
  have i: "slice_wf ?m" "solo ?m (Idle, xs)" "slice_of ?m = dst" by (simp_all add: slice_wf_def slice_of_def, cases xs) simp_all
  show ?thesis using race_solo [OF i(1,2) r] drain_solo [of m t] r i(3) by (simp add: merge_race_def)
qed

lemma merge_race_second: "merge_race sch dst [] ys = foldl mergeUnique dst ys"
proof -
  let ?m = "\<lparr>sm_heap = [dst], sm_hdr = (0, length dst)\<rparr>"
  obtain m t u where r: "race_steps sch (?m, (Idle, []), (Idle, ys)) = (m, t, u)" by (metis prod_cases3)
  have i: "slice_wf ?m" "solo ?m (Idle, ys)" "slice_of ?m = dst" by (simp_all add: slice_wf_def slice_of_def, cases ys) simp_all
  show ?thesis using race_solo [OF i(1,2) race_swap [OF r]] drain_solo [of m u] r i(3) by (auto simp: merge_race_def)
qed

lemma foldl_mergeUnique_distinct:
  assumes "distinct (acc @ xs)" "length (acc @ xs) \<le> 20" "'''' \<notin> set xs"
  shows "foldl mergeUnique acc xs = acc @ xs"
  using assms by (induction xs arbitrary: acc) (auto simp: mergeUnique_def)

section \<open>The race\<close>

text \<open>C37: The race on the list of addresses. When both searches of a contact page find the same address, there
  is an interleaving after which the result lists it twice; when they find different ones,
  there is an interleaving after which the first one is lost.\<close>

theorem contact_race_duplicates:
  assumes "e \<noteq> ''''" "f \<noteq> ''''"
  shows "(\<exists>sch. merge_race sch [] [e] [e] = [e, e]) \<and> (\<exists>sch. merge_race sch [] [e] [f] = [f])"
proof
  have "merge_race [True, False, True, False] [] [e] [e] = [e, e]"
    using assms by (simp add: merge_race_def slice_of_def grown_def Let_def)
  then show "\<exists>sch. merge_race sch [] [e] [e] = [e, e]" by blast
  have "merge_race [True, True, True, True, False, False, False, False] [] [e] [f] = [f]"
    using assms by (simp add: merge_race_def slice_of_def grown_def Let_def)
  then show "\<exists>sch. merge_race sch [] [e] [f] = [f]" by blast
qed

theorem contact_race_duplicates_witness:
  "(\<exists>sch. merge_race sch [] [''a@b.com''] [''a@b.com''] = [''a@b.com'', ''a@b.com'']) \<and> (\<exists>sch. merge_race sch [] [''a@b.com''] [''c@d.com''] = [''c@d.com''])"
  using contact_race_duplicates [of "''a@b.com''" "''c@d.com''"] by simp

end
