(* ===== verification/Go_Regexp.thy ===== *)
theory Go_Regexp
  imports Go_Strings
begin

text \<open>
  What the program uses of Go's \<^verbatim>\<open>regexp\<close> package. An expression is a value of type \<open>regexp\<close>; the
  patterns of the source are written out with the constructors below. Go finds the leftmost
  match and, among the matches that start there, the one a backtracking search would find
  first (\<^verbatim>\<open>regexp.MustCompile\<close> without \<^verbatim>\<open>Longest\<close>). \<open>rx_run\<close> is that search: the list of all ways to
  match at a position, in the order of preference. \<open>FindAll\<close> repeats the first of them along
  the text. The expressions of the program never match the empty string, and the bodies of
  their repetitions neither; an iteration that consumes nothing is therefore left out.

  The search works on bytes. The patterns are ASCII and a negated class or a dot is always
  repeated up to an ASCII byte, so working on bytes or on the runes of UTF-8 makes no
  difference. Case folding is that of Unicode: under \<^verbatim>\<open>(?i)\<close> the letters \<^verbatim>\<open>s\<close> and \<^verbatim>\<open>k\<close> also match the
  long s (U+017F) and the Kelvin sign (U+212A), which are sequences of two and three bytes.
\<close>

section \<open>Expressions and the search\<close>

datatype regexp =
    REps
  | RChar "char \<Rightarrow> bool"
  | RSeq regexp regexp
  | RAlt regexp regexp
  | RStar bool regexp
  | RCap nat regexp
  | RWordB

text \<open>A position: the byte before it, the text that follows it, and the groups captured so far,
  the newest first.\<close>

type_synonym cursor = "char option \<times> string \<times> (nat \<times> string) list"

abbreviation cur_rest :: "cursor \<Rightarrow> string" where
  "cur_rest c \<equiv> fst (snd c)"

definition is_word :: "char \<Rightarrow> bool" where
  "is_word c \<longleftrightarrow> c \<in> set ''abcdefghijklmnopqrstuvwxyzABCDEFGHIJKLMNOPQRSTUVWXYZ0123456789_''"

definition at_boundary :: "cursor \<Rightarrow> bool" where
  "at_boundary c \<longleftrightarrow>
     (case fst c of None \<Rightarrow> False | Some p \<Rightarrow> is_word p) \<noteq> (case cur_rest c of [] \<Rightarrow> False | n # _ \<Rightarrow> is_word n)"

text \<open>The text between two positions, the second further on.\<close>

definition between :: "cursor \<Rightarrow> cursor \<Rightarrow> string" where
  "between c d = take (length (cur_rest c) - length (cur_rest d)) (cur_rest c)"

definition capture :: "nat \<Rightarrow> cursor \<Rightarrow> cursor \<Rightarrow> cursor" where
  "capture n c d = (fst d, cur_rest d, (n, between c d) # snd (snd d))"

function (sequential) rx_run :: "regexp \<Rightarrow> cursor \<Rightarrow> cursor list" where
  "rx_run REps c = [c]"
| "rx_run (RChar P) (p, s, g) = (case s of [] \<Rightarrow> [] | x # t \<Rightarrow> if P x then [(Some x, t, g)] else [])"
| "rx_run (RSeq r q) c = concat (map (rx_run q) (rx_run r c))"
| "rx_run (RAlt r q) c = rx_run r c @ rx_run q c"
| "rx_run (RStar greedy r) c =
     (let more = concat (map (\<lambda>d. if length (cur_rest d) < length (cur_rest c) then rx_run (RStar greedy r) d else []) (rx_run r c))
      in if greedy then more @ [c] else c # more)"
| "rx_run (RCap n r) c = map (capture n c) (rx_run r c)"
| "rx_run RWordB c = (if at_boundary c then [c] else [])"
  by pat_completeness auto
termination
  by (relation "measures [\<lambda>(r, c). size r, \<lambda>(r, c). length (cur_rest c)]") auto

declare rx_run.simps(5) [simp del]

text \<open>\<^verbatim>\<open>FindAllStringSubmatch\<close>: the text of each match and its groups.\<close>

function FindAll :: "regexp \<Rightarrow> char option \<Rightarrow> string \<Rightarrow> (string \<times> (nat \<times> string) list) list" where
  "FindAll r p s =
     (case rx_run r (p, s, []) of
        d # _ \<Rightarrow> if length (cur_rest d) < length s
                 then (between (p, s, []) d, snd (snd d)) # FindAll r (fst d) (cur_rest d)
                 else (case s of [] \<Rightarrow> [] | x # t \<Rightarrow> FindAll r (Some x) t)
      | [] \<Rightarrow> (case s of [] \<Rightarrow> [] | x # t \<Rightarrow> FindAll r (Some x) t))"
  by pat_completeness auto
termination
  by (relation "measure (\<lambda>(r, p, s). length s)") auto

declare FindAll.simps [simp del]

definition FindAllStringSubmatch :: "regexp \<Rightarrow> string \<Rightarrow> (string \<times> (nat \<times> string) list) list" where
  "FindAllStringSubmatch r s = FindAll r None s"

text \<open>\<^verbatim>\<open>m[n]\<close>\<close>

definition submatch :: "(string \<times> (nat \<times> string) list) \<Rightarrow> nat \<Rightarrow> string" where
  "submatch m n = (case map_of (snd m) n of None \<Rightarrow> '''' | Some t \<Rightarrow> t)"

text \<open>\<^verbatim>\<open>ReplaceAllString\<close> with a replacement without \<^verbatim>\<open>$\<close>.\<close>

function ReplaceAll :: "regexp \<Rightarrow> string \<Rightarrow> char option \<Rightarrow> string \<Rightarrow> string" where
  "ReplaceAll r t p s =
     (case s of
        [] \<Rightarrow> []
      | x # u \<Rightarrow> (case rx_run r (p, s, []) of
            d # _ \<Rightarrow> if length (cur_rest d) < length s then t @ ReplaceAll r t (fst d) (cur_rest d) else x # ReplaceAll r t (Some x) u
          | [] \<Rightarrow> x # ReplaceAll r t (Some x) u))"
  by pat_completeness auto
termination
  by (relation "measure (\<lambda>(r, t, p, s). length s)") auto

declare ReplaceAll.simps [simp del]

section \<open>Building expressions\<close>

definition one_of :: "string \<Rightarrow> regexp" where
  "one_of cs = RChar (\<lambda>c. c \<in> set cs)"

definition none_of :: "string \<Rightarrow> regexp" where
  "none_of cs = RChar (\<lambda>c. c \<notin> set cs)"

definition any_char :: regexp where
  "any_char = RChar (\<lambda>c. True)"

fun rx_seq :: "regexp list \<Rightarrow> regexp" where
  "rx_seq [] = REps"
| "rx_seq [r] = r"
| "rx_seq (r # q # rs) = RSeq r (rx_seq (q # rs))"

fun alts :: "regexp \<Rightarrow> regexp list \<Rightarrow> regexp" where
  "alts r [] = r"
| "alts r (q # rs) = RAlt r (alts q rs)"

definition lit :: "string \<Rightarrow> regexp" where
  "lit s = rx_seq (map (\<lambda>c. RChar (\<lambda>x. x = c)) s)"

definition rx_star :: "regexp \<Rightarrow> regexp" where
  "rx_star = RStar True"

definition lazy_star :: "regexp \<Rightarrow> regexp" where
  "lazy_star = RStar False"

definition rx_plus :: "regexp \<Rightarrow> regexp" where
  "rx_plus r = RSeq r (rx_star r)"

definition rx_opt :: "regexp \<Rightarrow> regexp" where
  "rx_opt r = RAlt r REps"

definition spaces :: string where
  "spaces = [CHR 0x09, CHR 0x0A, CHR 0x0C, CHR 0x0D, CHR '' '']"

definition quotes :: string where
  "quotes = [CHR 0x22, CHR 0x27]"

definition long_s :: regexp where
  "long_s = lit [CHR 0xC5, CHR 0xBF]"

definition kelvin :: regexp where
  "kelvin = lit [CHR 0xE2, CHR 0x84, CHR 0xAA]"

text \<open>A letter, a literal and a class that contains all letters under \<^verbatim>\<open>(?i)\<close>.\<close>

definition ci_char :: "char \<Rightarrow> regexp" where
  "ci_char c =
     (let r = RChar (\<lambda>x. to_lower_char x = to_lower_char c) in
      if to_lower_char c = CHR ''s'' then RAlt r long_s else if to_lower_char c = CHR ''k'' then RAlt r kelvin else r)"

definition ci :: "string \<Rightarrow> regexp" where
  "ci s = rx_seq (map ci_char s)"

definition ci_one_of :: "string \<Rightarrow> regexp" where
  "ci_one_of cs = RAlt (one_of cs) (RAlt long_s kelvin)"

section \<open>The matches of an expression\<close>

text \<open>The reference: which positions an expression can lead to, without an order.\<close>

inductive reaches :: "regexp \<Rightarrow> cursor \<Rightarrow> cursor \<Rightarrow> bool" where
  "reaches REps c c"
| "P x \<Longrightarrow> reaches (RChar P) (p, x # t, g) (Some x, t, g)"
| "reaches r c d \<Longrightarrow> reaches q d e \<Longrightarrow> reaches (RSeq r q) c e"
| "reaches r c d \<Longrightarrow> reaches (RAlt r q) c d"
| "reaches q c d \<Longrightarrow> reaches (RAlt r q) c d"
| "reaches (RStar greedy r) c c"
| "reaches r c d \<Longrightarrow> length (cur_rest d) < length (cur_rest c) \<Longrightarrow> reaches (RStar greedy r) d e \<Longrightarrow> reaches (RStar greedy r) c e"
| "reaches r c d \<Longrightarrow> reaches (RCap n r) c (capture n c d)"
| "at_boundary c \<Longrightarrow> reaches RWordB c c"

inductive_simps reaches_simps [simp]:
  "reaches REps c d" "reaches (RChar P) c d" "reaches (RSeq r q) c d" "reaches (RAlt r q) c d"
  "reaches (RCap n r) c d" "reaches RWordB c d"

inductive_simps reaches_star: "reaches (RStar greedy r) c d"

lemma rx_run_exact: "set (rx_run r c) = {d. reaches r c d}"
proof (induction r c rule: rx_run.induct)
  case (5 greedy r c)
  let ?more = "\<lambda>d. if length (cur_rest d) < length (cur_rest c) then rx_run (RStar greedy r) d else []"
  have step: "set (?more d) = {e. length (cur_rest d) < length (cur_rest c) \<and> reaches (RStar greedy r) d e}" if "reaches r c d" for d
    using 5(2) [of d] 5(1) that by (cases "length (cur_rest d) < length (cur_rest c)") simp_all
  have "set (rx_run (RStar greedy r) c) = insert c (\<Union>d \<in> set (rx_run r c). set (?more d))"
    by (subst rx_run.simps(5)) (auto simp: Let_def)
  also have "\<dots> = insert c (\<Union>d \<in> {d. reaches r c d}. {e. length (cur_rest d) < length (cur_rest c) \<and> reaches (RStar greedy r) d e})"
    using 5(1) step by (intro arg_cong [of _ _ "insert c"] SUP_cong) auto
  finally have run: "set (rx_run (RStar greedy r) c) = \<dots>" .
  show ?case unfolding run by (subst reaches_star) auto
qed (auto split: list.splits)

lemma reaches_suffix: "reaches r c d \<Longrightarrow> suffix (cur_rest d) (cur_rest c)"
  by (induction rule: reaches.induct) (auto simp: capture_def suffix_def)

lemma between_append: "suffix (cur_rest d) (cur_rest c) \<Longrightarrow> cur_rest c = between c d @ cur_rest d"
  by (auto simp: between_def suffix_def)

text \<open>The words between two positions.\<close>

definition reads :: "regexp \<Rightarrow> string \<Rightarrow> bool" where
  "reads r w \<longleftrightarrow> (\<exists>p t g p' g'. reaches r (p, w @ t, g) (p', t, g'))"

lemma between_reads: "reaches r c d \<Longrightarrow> reads r (between c d)"
  using reaches_suffix [of r c d] between_append [of d c]
  unfolding reads_def by (metis prod.collapse)

lemma FindAll_reads: "m \<in> set (FindAll r p s) \<Longrightarrow> reads r (fst m) \<and> sublist (fst m) s"
proof (induction r p s rule: FindAll.induct)
  case (1 r p s)
  show ?case
  proof (cases "rx_run r (p, s, [])")
    case Nil
    then show ?thesis using 1(4) 1(1) [OF Nil] by (auto simp: FindAll.simps [of r p s] sublist_Cons_right split: list.splits)
  next
    case (Cons d ds)
    then have d: "reaches r (p, s, []) d" using rx_run_exact [of r "(p, s, [])"] by auto
    have s: "s = between (p, s, []) d @ cur_rest d" using between_append [OF reaches_suffix [OF d]] by simp
    show ?thesis
    proof (cases "length (cur_rest d) < length s")
      case True
      then have "m = (between (p, s, []) d, snd (snd d)) \<or> m \<in> set (FindAll r (fst d) (cur_rest d))"
        using 1(4) Cons by (simp add: FindAll.simps [of r p s])
      then show ?thesis
      proof
        assume m: "m = (between (p, s, []) d, snd (snd d))"
        have "sublist (between (p, s, []) d) s" by (subst (2) s) (rule sublist_append_rightI)
        then show ?thesis using m between_reads [OF d] by simp
      next
        assume "m \<in> set (FindAll r (fst d) (cur_rest d))"
        then have m: "reads r (fst m)" "sublist (fst m) (cur_rest d)" using 1(2) [OF Cons True] by auto
        have "sublist (cur_rest d) s" by (subst s) (rule sublist_append_leftI)
        then show ?thesis using m sublist_order.order_trans by blast
      qed
    next
      case False
      then show ?thesis using 1(4) 1(3) [OF Cons False] Cons by (auto simp: FindAll.simps [of r p s] sublist_Cons_right split: list.splits)
    qed
  qed
qed

text \<open>Nothing is missed: when there is no match at all, no word of the expression is in the text,
  provided that the expression reads words independently of what stands around them.\<close>

definition context_free :: "regexp \<Rightarrow> bool" where
  "context_free r \<longleftrightarrow> (\<forall>w p t g. reads r w \<longrightarrow> (\<exists>p' g'. reaches r (p, w @ t, g) (p', t, g')))"

lemma FindAll_complete: "context_free r \<Longrightarrow> reads r w \<Longrightarrow> w \<noteq> [] \<Longrightarrow> sublist w s \<Longrightarrow> \<not> reads r [] \<Longrightarrow> FindAll r p s \<noteq> []"
proof (induction r p s rule: FindAll.induct)
  case (1 r p s)
  have first: "length (cur_rest d) < length s" if "rx_run r (p, s, []) = d # ds" for d ds
  proof -
    have d: "reaches r (p, s, []) d" using rx_run_exact [of r "(p, s, [])"] that by auto
    then have "between (p, s, []) d \<noteq> []" using between_reads 1(8) by metis
    then show ?thesis by (auto simp: between_def)
  qed
  show ?case
  proof (cases "rx_run r (p, s, [])")
    case Nil
    obtain x t where s: "s = x # t" using 1(6,7) by (cases s) auto
    have "\<not> prefix w s"
    proof
      assume "prefix w s"
      then obtain u where "s = w @ u" by (auto simp: prefix_def)
      then obtain p' g' where "reaches r (p, s, []) (p', u, g')" using 1(4,5) unfolding context_free_def by blast
      then show False using rx_run_exact [of r "(p, s, [])"] Nil by auto
    qed
    then have "sublist w t" using 1(7) s by (auto simp: sublist_Cons_right)
    then show ?thesis using 1(1) [OF Nil s 1(4,5,6)] 1(8) Nil s by (simp add: FindAll.simps [of r p])
  next
    case (Cons d ds)
    then show ?thesis using first by (simp add: FindAll.simps [of r p s])
  qed
qed

section \<open>The language of an expression without boundaries\<close>

inductive_set iterate :: "string set \<Rightarrow> string set" for A where
  "[] \<in> iterate A"
| "v \<in> A \<Longrightarrow> v \<noteq> [] \<Longrightarrow> w \<in> iterate A \<Longrightarrow> v @ w \<in> iterate A"

primrec words :: "regexp \<Rightarrow> string set" where
  "words REps = {[]}"
| "words (RChar P) = {[c] |c. P c}"
| "words (RSeq r q) = {v @ w |v w. v \<in> words r \<and> w \<in> words q}"
| "words (RAlt r q) = words r \<union> words q"
| "words (RStar greedy r) = iterate (words r)"
| "words (RCap n r) = words r"
| "words RWordB = {}"

primrec no_boundary :: "regexp \<Rightarrow> bool" where
  "no_boundary REps = True"
| "no_boundary (RChar P) = True"
| "no_boundary (RSeq r q) = (no_boundary r \<and> no_boundary q)"
| "no_boundary (RAlt r q) = (no_boundary r \<and> no_boundary q)"
| "no_boundary (RStar greedy r) = no_boundary r"
| "no_boundary (RCap n r) = no_boundary r"
| "no_boundary RWordB = False"

lemma reaches_words: "reaches r c d \<Longrightarrow> no_boundary r \<Longrightarrow> \<exists>w \<in> words r. cur_rest c = w @ cur_rest d"
proof (induction rule: reaches.induct)
  case (3 r c d q e)
  then obtain v w where vw: "v \<in> words r" "cur_rest c = v @ cur_rest d" "w \<in> words q" "cur_rest d = w @ cur_rest e" by auto
  then show ?case by (intro bexI [of _ "v @ w"]) auto
next
  case (7 r c d greedy e)
  then obtain v w where vw: "v \<in> words r" "cur_rest c = v @ cur_rest d" "w \<in> words (RStar greedy r)" "cur_rest d = w @ cur_rest e" by auto
  then have "v @ w \<in> words (RStar greedy r)" using 7(2) by (auto intro: iterate.intros)
  then show ?case using vw by (intro bexI [of _ "v @ w"]) auto
qed (auto simp: capture_def intro: iterate.intros)

lemma words_reaches: "w \<in> words r \<Longrightarrow> \<exists>p' g'. reaches r (p, w @ t, g) (p', t, g')"
proof (induction r arbitrary: w p t g)
  case (RChar P)
  then show ?case by auto
next
  case (RSeq r q)
  then obtain u v where w: "w = u @ v" "u \<in> words r" "v \<in> words q" by auto
  obtain p1 g1 where "reaches r (p, u @ v @ t, g) (p1, v @ t, g1)" using RSeq.IH(1) [OF w(2)] by blast
  moreover obtain p2 g2 where "reaches q (p1, v @ t, g1) (p2, t, g2)" using RSeq.IH(2) [OF w(3)] by blast
  ultimately have "reaches (RSeq r q) (p, u @ v @ t, g) (p2, t, g2)" by (rule reaches.intros(3))
  then show ?case using w by (auto simp del: reaches_simps)
next
  case (RAlt r q)
  then show ?case by simp blast
next
  case (RStar greedy r)
  have "w \<in> iterate (words r)" using RStar.prems by simp
  then show ?case
  proof (induction arbitrary: p g)
    case 1
    then show ?case by (auto intro: reaches.intros)
  next
    case (2 v w)
    obtain p1 g1 where "reaches r (p, v @ w @ t, g) (p1, w @ t, g1)" using RStar.IH [OF 2(1)] by blast
    moreover obtain p2 g2 where "reaches (RStar greedy r) (p1, w @ t, g1) (p2, t, g2)" using 2(4) by blast
    ultimately have "reaches (RStar greedy r) (p, v @ w @ t, g) (p2, t, g2)"
      using 2(2) reaches.intros(7) [of r "(p, v @ w @ t, g)" "(p1, w @ t, g1)"] by simp
    then show ?case by auto
  qed
next
  case (RCap n r)
  obtain p' g' where "reaches r (p, w @ t, g) (p', t, g')" using RCap.IH [of w p t g] RCap.prems by auto
  then have "reaches (RCap n r) (p, w @ t, g) (capture n (p, w @ t, g) (p', t, g'))" by (rule reaches.intros(8))
  then show ?case by (auto simp: capture_def simp del: reaches_simps)
qed auto

lemma reads_words: "no_boundary r \<Longrightarrow> reads r w \<longleftrightarrow> w \<in> words r"
  using reaches_words words_reaches unfolding reads_def by fastforce

lemma no_boundary_context_free: "no_boundary r \<Longrightarrow> context_free r"
  unfolding context_free_def using words_reaches by (simp add: reads_words)

lemma iterate_chars: "w \<in> iterate {[c] |c. P c} \<longleftrightarrow> (\<forall>c \<in> set w. P c)"
proof
  show "w \<in> iterate {[c] |c. P c} \<Longrightarrow> \<forall>c \<in> set w. P c" by (induction rule: iterate.induct) auto
  show "\<forall>c \<in> set w. P c \<Longrightarrow> w \<in> iterate {[c] |c. P c}"
  proof (induction w)
    case (Cons c w)
    then have "[c] @ w \<in> iterate {[c] |c. P c}" by (intro iterate.intros) auto
    then show ?case by simp
  qed (simp add: iterate.intros)
qed

lemma words_plus_chars: "words (rx_plus (RChar P)) = {w. w \<noteq> [] \<and> (\<forall>c \<in> set w. P c)}"
proof -
  have "w \<in> words (rx_plus (RChar P)) \<longleftrightarrow> w \<noteq> [] \<and> (\<forall>c \<in> set w. P c)" for w
  proof
    show "w \<in> words (rx_plus (RChar P)) \<Longrightarrow> w \<noteq> [] \<and> (\<forall>c \<in> set w. P c)" by (auto simp: rx_plus_def rx_star_def iterate_chars)
    assume "w \<noteq> [] \<and> (\<forall>c \<in> set w. P c)"
    then obtain c v where "w = [c] @ v" "P c" "\<forall>x \<in> set v. P x" by (cases w) auto
    then show "w \<in> words (rx_plus (RChar P))" unfolding rx_plus_def rx_star_def words.simps iterate_chars by blast
  qed
  then show ?thesis by blast
qed

lemma in_words_char_seq: "w \<in> words (RSeq (RChar P) q) \<longleftrightarrow> (\<exists>c v. w = c # v \<and> P c \<and> v \<in> words q)"
proof
  assume "\<exists>c v. w = c # v \<and> P c \<and> v \<in> words q"
  then obtain c v where "w = [c] @ v" "P c" "v \<in> words q" by auto
  then show "w \<in> words (RSeq (RChar P) q)" unfolding words.simps by blast
qed auto

lemma in_words_lit_seq: "w \<in> words (RSeq (RChar (\<lambda>x. x = c)) q) \<longleftrightarrow> (\<exists>v. w = c # v \<and> v \<in> words q)"
  by (simp only: in_words_char_seq) simp

lemma in_words_plus_seq:
  "w \<in> words (RSeq (rx_plus (RChar P)) q) \<longleftrightarrow> (\<exists>u v. w = u @ v \<and> (u \<noteq> [] \<and> (\<forall>c \<in> set u. P c)) \<and> v \<in> words q)"
  unfolding words.simps(3) words_plus_chars by auto

end
