(* ===== verification/Email.thy ===== *)
theory Email
  imports Go_Regexp Go_Map "HOL-Library.Char_ord" "HOL-Library.List_Lexorder"
begin

text \<open>
  Extraction of contact addresses, \<^verbatim>\<open>internal/scanner/email.go\<close>: the five extractors, the walk over
  decoded JSON, the filter, and \<^verbatim>\<open>ExtractEmails\<close>. The JSON decoder \<open>dec\<close> (\<^verbatim>\<open>json.Unmarshal\<close> into an
  \<^verbatim>\<open>interface{}\<close>, \<open>None\<close> on an error) is a parameter. \<^verbatim>\<open>sort.Strings\<close> orders byte strings
  lexicographically, which is the order of \<^verbatim>\<open>List_Lexorder\<close> on characters.
\<close>

section \<open>The patterns\<close>

definition letters :: string where
  "letters = ''abcdefghijklmnopqrstuvwxyzABCDEFGHIJKLMNOPQRSTUVWXYZ''"

definition local_chars :: string where
  "local_chars = letters @ ''0123456789._%+-''"

definition domain_chars :: string where
  "domain_chars = letters @ ''0123456789.-''"

text \<open>\<open>cls\<close> is the way a class is read: with or without case folding.\<close>

definition address_re :: "(string \<Rightarrow> regexp) \<Rightarrow> regexp" where
  "address_re cls =
     rx_seq [rx_plus (cls local_chars), lit ''@'', rx_plus (cls domain_chars), lit ''.'', cls letters, cls letters, rx_star (cls letters)]"

definition mailtoRe :: regexp where
  "mailtoRe = rx_seq [ci ''mailto:'', rx_star (one_of spaces), RCap 1 (address_re ci_one_of)]"

definition plaintextEmailRe :: regexp where
  "plaintextEmailRe = RCap 1 (address_re one_of)"

definition dashed :: "string \<Rightarrow> regexp" where
  "dashed s = rx_seq [ci s, rx_opt (one_of ''-_''), ci ''email'']"

definition dataAttrEmailRe :: regexp where
  "dataAttrEmailRe =
     rx_seq [ci ''data-'', alts (ci ''email'') [ci ''mail'', ci ''contact'', dashed ''user'', dashed ''company'', dashed ''support'',
            dashed ''sales'', dashed ''admin'', dashed ''info''],
          rx_star (one_of spaces), lit ''='', rx_star (one_of spaces), one_of quotes, RCap 1 (rx_plus (none_of quotes)), one_of quotes]"

definition jsonLDRe :: regexp where
  "jsonLDRe =
     rx_seq [lit ''<script'', rx_star (none_of ''>''), lit ''type='', one_of quotes, lit ''application/ld+json'', one_of quotes,
          rx_star (none_of ''>''), lit ''>'', RCap 1 (lazy_star any_char), lit ''</script>'']"

definition ssrScriptRe :: regexp where
  "ssrScriptRe =
     rx_seq [lit ''<script'', rx_star (none_of ''>''), RWordB, lit ''id='', one_of quotes,
          alts (lit ''__NEXT_DATA__'') [lit ''__NUXT__'', lit ''__INITIAL_STATE__'', lit ''__APOLLO_STATE__'', lit ''__REDUX_STATE__''],
          one_of quotes, rx_star (none_of ''>''), lit ''>'', RCap 1 (lazy_star any_char), lit ''</script>'']"

section \<open>The extractors\<close>

definition extractMailtoEmails :: "string \<Rightarrow> string list" where
  "extractMailtoEmails html = map (\<lambda>m. submatch m 1) (FindAllStringSubmatch mailtoRe html)"

definition extractPlaintextEmails :: "string \<Rightarrow> string list" where
  "extractPlaintextEmails html = map fst (FindAllStringSubmatch plaintextEmailRe html)"

definition extractDataAttrEmails :: "string \<Rightarrow> string list" where
  "extractDataAttrEmails html =
     concat (map (\<lambda>m. let val = TrimPrefix (TrimPrefix (TrimSpace (submatch m 1)) ''mailto:'') ''MAILTO:'' in
                      if Contains val ''@'' then [val] else [])
       (FindAllStringSubmatch dataAttrEmailRe html))"

definition email_field :: "json \<Rightarrow> string list" where
  "email_field val =
     (case val of
        JStr e \<Rightarrow> if Contains e ''@'' then [e] else []
      | JArr items \<Rightarrow> concat (map (\<lambda>item. case item of JStr s \<Rightarrow> if Contains s ''@'' then [s] else [] | _ \<Rightarrow> []) items)
      | _ \<Rightarrow> [])"

fun walkJSONLDForEmails :: "json \<Rightarrow> string list" where
  "walkJSONLDForEmails (JObj x) =
     concat (map (\<lambda>kv. if ToLower (fst kv) = ''email'' then email_field (snd kv) else walkJSONLDForEmails (snd kv)) x)"
| "walkJSONLDForEmails (JArr x) = concat (map walkJSONLDForEmails x)"
| "walkJSONLDForEmails v = []"

definition extractJSONLDEmails :: "(string \<Rightarrow> json option) \<Rightarrow> string \<Rightarrow> string list" where
  "extractJSONLDEmails dec html =
     concat (map (\<lambda>b. let raw = TrimSpace (submatch b 1) in
                      if raw = '''' then [] else case dec raw of None \<Rightarrow> [] | Some data \<Rightarrow> walkJSONLDForEmails data)
       (FindAllStringSubmatch jsonLDRe html))"

definition stripJSAssignment :: "string \<Rightarrow> string" where
  "stripJSAssignment s0 =
     (let s = TrimSpace s0;
          s1 = (case Index s ''='' of Some i \<Rightarrow> if i < 60 then TrimSpace (drop (i + 1) s) else s | None \<Rightarrow> s)
      in TrimSuffix s1 '';'')"

definition extractSSRDataEmails :: "(string \<Rightarrow> json option) \<Rightarrow> string \<Rightarrow> string list" where
  "extractSSRDataEmails dec html =
     concat (map (\<lambda>b. let raw = TrimSpace (submatch b 1) in
                      if raw = '''' then []
                      else case dec raw of
                          Some data \<Rightarrow> walkJSONLDForEmails data
                        | None \<Rightarrow> (case dec (stripJSAssignment raw) of None \<Rightarrow> [] | Some data \<Rightarrow> walkJSONLDForEmails data))
       (FindAllStringSubmatch ssrScriptRe html))"

section \<open>The filter\<close>

definition isValidEmail :: "string \<Rightarrow> bool" where
  "isValidEmail e =
     (if length e < 5 \<or> length e > 254 then False
      else case Index e ''@'' of
        None \<Rightarrow> False
      | Some i \<Rightarrow> if i = 0 \<or> i = length e - 1 then False else Contains (drop (i + 1) e) ''.'')"

text \<open>\<^verbatim>\<open>e[atIdx(e)+1:]\<close>: an index of \<open>-1\<close> leaves the whole string.\<close>

definition atIdx :: "string \<Rightarrow> int" where
  "atIdx s = (case Index s ''@'' of None \<Rightarrow> -1 | Some i \<Rightarrow> int i)"

definition noise :: "string list" where
  "noise =
    [''@2x.png'', ''@3x.png'', ''@1x.png'', ''@1x.jpg'', ''@2x.jpg'', ''@3x.jpg'', ''@1x.webp'', ''@2x.webp'', ''@1x.gif'', ''@2x.gif'',
     ''example.com'', ''example.org'', ''example.net'', ''yourdomain.com'', ''domain.com'', ''company.com'', ''email.com'',
     ''wixpress.com'', ''sentry.io'', ''cloudflare.com'', ''schema.org'']"

definition isEmailNoise :: "string \<Rightarrow> bool" where
  "isEmailNoise e =
     (if list_ex (Contains (ToLower e)) noise then True
      else list_ex (Contains (drop (nat (atIdx e + 1)) e)) [''.png'', ''.jpg'', ''.gif'', ''.webp'', ''.svg''])"

definition add_email :: "(string, bool) gomap \<Rightarrow> string \<Rightarrow> (string, bool) gomap" where
  "add_email seen e0 =
     (let e = ToLower (TrimSpace e0) in if isValidEmail e \<and> \<not> isEmailNoise e then gm_put e True seen else seen)"

definition ExtractEmails :: "(string \<Rightarrow> json option) \<Rightarrow> string \<Rightarrow> string list" where
  "ExtractEmails dec html =
     (let s1 = foldl add_email [] (extractMailtoEmails html);
          s2 = foldl add_email s1 (extractPlaintextEmails html);
          s3 = foldl add_email s2 (extractDataAttrEmails html);
          s4 = foldl add_email s3 (extractJSONLDEmails dec html);
          s5 = foldl add_email s4 (extractSSRDataEmails dec html);
          out = sort (map fst s5)
      in if length out > 20 then take 20 out else out)"

section \<open>What is extracted\<close>

lemma add_email_fold:
  "gm_wf m \<Longrightarrow> gm_wf (foldl add_email m es) \<and>
   fst ` set (foldl add_email m es) =
     fst ` set m \<union> {e \<in> (\<lambda>x. ToLower (TrimSpace x)) ` set es. isValidEmail e \<and> \<not> isEmailNoise e}"
proof (induction es arbitrary: m)
  case (Cons x es)
  have "gm_wf (add_email m x)" using Cons.prems by (simp add: add_email_def Let_def gm.wf_put)
  moreover have "fst ` set (add_email m x) = fst ` set m \<union> (let e = ToLower (TrimSpace x) in if isValidEmail e \<and> \<not> isEmailNoise e then {e} else {})"
    by (auto simp: add_email_def Let_def gm_put_def dom_map_of_conv_image_fst [symmetric] update_conv)
  ultimately show ?case using Cons.IH [of "add_email m x"] by (auto simp: Let_def split: if_splits)
qed simp

lemma sort_distinct: "distinct xs \<Longrightarrow> sort xs = sorted_list_of_set (set xs)"
  by (metis distinct_remdups_id sorted_list_of_set_sort_remdups)

lemma ExtractEmails_sorted:
  "ExtractEmails dec html =
     take 20 (sorted_list_of_set {e \<in> (\<lambda>x. ToLower (TrimSpace x)) ` (set (extractMailtoEmails html) \<union> set (extractPlaintextEmails html) \<union>
        set (extractDataAttrEmails html) \<union> set (extractJSONLDEmails dec html) \<union> set (extractSSRDataEmails dec html)).
        isValidEmail e \<and> \<not> isEmailNoise e})"
proof -
  let ?es = "extractMailtoEmails html @ extractPlaintextEmails html @ extractDataAttrEmails html @ extractJSONLDEmails dec html @ extractSSRDataEmails dec html"
  let ?m = "foldl add_email [] ?es"
  have m: "distinct (map fst ?m)" "set (map fst ?m) = {e \<in> (\<lambda>x. ToLower (TrimSpace x)) ` set ?es. isValidEmail e \<and> \<not> isEmailNoise e}"
    using add_email_fold [of "[]" ?es] by (simp_all add: gm_wf_def)
  have "ExtractEmails dec html = take 20 (sort (map fst ?m))" by (simp add: ExtractEmails_def Let_def)
  moreover have "sort (map fst ?m) = sorted_list_of_set (set (map fst ?m))"
    by (rule sort_distinct [OF m(1)])
  ultimately show ?thesis unfolding m(2) by (simp add: Un_assoc)
qed

text \<open>C24: What \<open>ExtractEmails\<close> returns. The addresses are the first twenty, in lexicographic order and
  without repetition, of the trimmed lower-case forms of what the five extractors find, after
  invalid addresses and noise are dropped.\<close>

theorem emails_exact:
  "ExtractEmails dec html =
     take 20 (sorted_list_of_set {e \<in> (\<lambda>x. ToLower (TrimSpace x)) ` (set (extractMailtoEmails html) \<union> set (extractPlaintextEmails html) \<union>
        set (extractDataAttrEmails html) \<union> set (extractJSONLDEmails dec html) \<union> set (extractSSRDataEmails dec html)).
        isValidEmail e \<and> \<not> isEmailNoise e})"
  by (rule ExtractEmails_sorted)

text \<open>The addresses a result may hold.\<close>

definition emails_ok :: "string list \<Rightarrow> bool" where
  "emails_ok es \<longleftrightarrow> distinct es \<and> length es \<le> 20 \<and> set es \<subseteq> {e. isValidEmail e \<and> \<not> isEmailNoise e \<and> ToLower e = e}"

lemma ExtractEmails_ok: "emails_ok (ExtractEmails dec html)"
proof -
  let ?A = "{e \<in> (\<lambda>x. ToLower (TrimSpace x)) ` (set (extractMailtoEmails html) \<union> set (extractPlaintextEmails html) \<union>
        set (extractDataAttrEmails html) \<union> set (extractJSONLDEmails dec html) \<union> set (extractSSRDataEmails dec html)).
        isValidEmail e \<and> \<not> isEmailNoise e}"
  have "set (take 20 (sorted_list_of_set ?A)) \<subseteq> ?A" using set_take_subset [of 20 "sorted_list_of_set ?A"] by simp
  then show ?thesis unfolding emails_ok_def ExtractEmails_sorted [of dec html] by auto
qed

text \<open>An address in the text: a local part, an at sign, and a domain that ends in a dot and at
  least two letters.\<close>

definition is_address :: "string \<Rightarrow> bool" where
  "is_address w \<longleftrightarrow> (\<exists>l d t. w = l @ ''@'' @ d @ ''.'' @ t \<and> l \<noteq> [] \<and> set l \<subseteq> set local_chars \<and> d \<noteq> [] \<and> set d \<subseteq> set domain_chars \<and>
     2 \<le> length t \<and> set t \<subseteq> set letters)"

lemma two_or_more: "(\<exists>a v. t = a # v \<and> P a \<and> (\<exists>b u. v = b # u \<and> P b \<and> (\<forall>c \<in> set u. P c))) \<longleftrightarrow> 2 \<le> length t \<and> (\<forall>c \<in> set t. P c)"
  by (cases t; cases "tl t") auto

lemma five_parts:
  "(\<exists>l v. w = l @ v \<and> A l \<and> (\<exists>v'. v = x # v' \<and> (\<exists>d v. v' = d @ v \<and> B d \<and> (\<exists>t. v = y # t \<and> C t)))) \<longleftrightarrow>
   (\<exists>l d t. w = l @ x # d @ y # t \<and> A l \<and> B d \<and> C t)"
  by blast

lemma words_address: "w \<in> words plaintextEmailRe \<longleftrightarrow> is_address w"
  unfolding plaintextEmailRe_def address_re_def one_of_def lit_def rx_star_def rx_seq.simps list.map words.simps(6)
    in_words_plus_seq in_words_lit_seq is_address_def append_Cons append_Nil
  by (simp only: in_words_char_seq words.simps(5) words.simps(2) iterate_chars two_or_more five_parts) (simp only: subset_iff Ball_def conj_assoc)

lemma plaintextEmailRe_context: "no_boundary plaintextEmailRe"
  by (simp add: plaintextEmailRe_def address_re_def one_of_def lit_def rx_star_def rx_plus_def)

text \<open>C22: Addresses in the text. Everything \<open>extractPlaintextEmails\<close> returns is an address that occurs in
  the page, and it returns nothing only when no address occurs in it.\<close>

theorem plaintext_emails_found:
  "set (extractPlaintextEmails html) \<subseteq> {w. is_address w \<and> sublist w html} \<and>
   (extractPlaintextEmails html = [] \<longleftrightarrow> \<not> (\<exists>w. is_address w \<and> sublist w html))"
proof -
  have words: "reads plaintextEmailRe w \<longleftrightarrow> is_address w" for w
    using reads_words [OF plaintextEmailRe_context] words_address by blast
  have found: "is_address w \<and> sublist w html" if w: "w \<in> set (extractPlaintextEmails html)" for w
  proof -
    obtain m where "m \<in> set (FindAll plaintextEmailRe None html)" "w = fst m"
      using w by (auto simp: extractPlaintextEmails_def FindAllStringSubmatch_def)
    then show ?thesis using FindAll_reads [of m plaintextEmailRe None html] words by auto
  qed
  moreover have "extractPlaintextEmails html \<noteq> []" if "is_address w" "sublist w html" for w
  proof -
    have "w \<noteq> []" "\<not> is_address []" using that(1) by (auto simp: is_address_def)
    then have "FindAll plaintextEmailRe None html \<noteq> []"
      using FindAll_complete [OF no_boundary_context_free [OF plaintextEmailRe_context], of w html None] that words by blast
    then show ?thesis by (simp add: extractPlaintextEmails_def FindAllStringSubmatch_def)
  qed
  ultimately show ?thesis by (metis (no_types, lifting) list.set_intros(1) mem_Collect_eq neq_Nil_conv subsetI)
qed

text \<open>The strings with an at sign under a key \<^verbatim>\<open>email\<close> of a decoded value, at any depth: the value
  of the key itself or an element of it when it is an array. What stands below such a key is
  not searched any further.\<close>

inductive email_in :: "string \<Rightarrow> json \<Rightarrow> bool" where
  email_text: "(k, JStr e) \<in> set x \<Longrightarrow> ToLower k = ''email'' \<Longrightarrow> Contains e ''@'' \<Longrightarrow> email_in e (JObj x)"
| email_list: "(k, JArr items) \<in> set x \<Longrightarrow> ToLower k = ''email'' \<Longrightarrow> JStr e \<in> set items \<Longrightarrow> Contains e ''@'' \<Longrightarrow> email_in e (JObj x)"
| email_below: "(k, v) \<in> set x \<Longrightarrow> ToLower k \<noteq> ''email'' \<Longrightarrow> email_in e v \<Longrightarrow> email_in e (JObj x)"
| email_item: "v \<in> set x \<Longrightarrow> email_in e v \<Longrightarrow> email_in e (JArr x)"

lemma email_field_iff:
  "e \<in> set (email_field v) \<longleftrightarrow> (v = JStr e \<or> (\<exists>items. v = JArr items \<and> JStr e \<in> set items)) \<and> Contains e ''@''"
  by (cases v) (auto simp: email_field_def split: json.splits if_splits)

text \<open>C26: The walk over structured data finds exactly the addresses under a key \<^verbatim>\<open>email\<close>, in any
  spelling of its case and at any depth.\<close>

theorem walk_exact: "set (walkJSONLDForEmails v) = {e. email_in e v}"
proof (intro set_eqI iffI)
  show "e \<in> {e. email_in e v}" if "e \<in> set (walkJSONLDForEmails v)" for e
    using that
  proof (induction v rule: walkJSONLDForEmails.induct)
    case (1 x)
    then obtain k v where kv: "(k, v) \<in> set x" "e \<in> set (if ToLower k = ''email'' then email_field v else walkJSONLDForEmails v)" by auto
    show ?case
    proof (cases "ToLower k = ''email''")
      case True
      then show ?thesis using kv email_text email_list by (auto simp: email_field_iff)
    next
      case False
      then show ?thesis using kv 1(1) [of "(k, v)"] by (auto intro: email_below)
    qed
  qed (auto intro: email_item)
  show "e \<in> set (walkJSONLDForEmails v)" if "e \<in> {e. email_in e v}" for e
    using that unfolding mem_Collect_eq
    by (induction rule: email_in.induct) (force simp: email_field_iff)+
qed

end
