(* ===== verification/Contact.thy ===== *)
theory Contact
  imports Go_Regexp Go_Map Exchange_Sort
begin

text \<open>
  Contact pages, \<^verbatim>\<open>internal/scanner/contact.go\<close>: the search for links that look like contact pages
  and the plain HTTP fetch of one page. The URL type \<open>'u\<close> with its parser, the resolution of a
  reference, the host and the printer belong to \<^verbatim>\<open>net/url\<close> and are a parameter; so is the HTTP
  client, which is given the rule for redirects. Time-outs are part of the client's answer.
\<close>

section \<open>Links\<close>

definition MaxContactPages :: nat where
  "MaxContactPages = 2"

definition contactKeywords :: "string list" where
  "contactKeywords =
    [''contact'', ''kontak'', ''hubungi'', ''tentang'', ''about'', ''team'', ''staff'', ''author'', ''profil'', ''profile'',
     ''get in touch'', ''reach us'', ''write to us'', ''customer service'', ''support'', ''help'', ''redaksi'', ''kotak pos'', ''kotakpos'']"

definition contactHrefFragments :: "string list" where
  "contactHrefFragments =
    [''/contact'', ''/kontak'', ''/hubungi'', ''/tentang'', ''/about'', ''/team'', ''/staff'', ''/author'', ''/profile'',
     ''/customer-service'', ''/support'', ''/help'', ''contact-us'', ''contact.php'', ''contact.html'', ''kontak-kami'',
     ''hubungi-kami'', ''tentang-kami'', ''/redaksi'', ''/kotak-pos'', ''/kotakpos'', ''/karir'']"

definition tagRe :: regexp where
  "tagRe = rx_seq [lit ''<'', rx_star (none_of ''>''), lit ''>'']"

definition stripTags :: "string \<Rightarrow> string" where
  "stripTags s = Join (Fields (ReplaceAll tagRe '' '' None s)) '' ''"

definition linkRe :: regexp where
  "linkRe =
     rx_seq [ci ''<a'', rx_plus (one_of spaces), lazy_star (none_of ''>''), ci ''href'', rx_star (one_of spaces), lit ''='', rx_star (one_of spaces),
          one_of quotes, RCap 1 (rx_plus (none_of quotes)), one_of quotes, rx_star (none_of ''>''), lit ''>'',
          RCap 2 (lazy_star any_char), ci ''</a>'']"

record 'u url_lib =
  ul_Parse :: "string \<Rightarrow> 'u option"
  ul_ParseRef :: "'u \<Rightarrow> string \<Rightarrow> 'u option"
  ul_Host :: "'u \<Rightarrow> string"
  ul_StringNoFragment :: "'u \<Rightarrow> string"

record candidate =
  cd_href :: string
  cd_score :: int

definition is_page_link :: "string \<Rightarrow> bool" where
  "is_page_link href \<longleftrightarrow> HasPrefix href ''http://'' \<or> HasPrefix href ''https://'' \<or> HasPrefix href ''/'' \<or> HasPrefix href ''./'' \<or> HasPrefix href ''../''"

definition link_score :: "string \<Rightarrow> string \<Rightarrow> int" where
  "link_score text hrefLower =
     (if list_ex (Contains text) contactKeywords then 2 else 0) + (if list_ex (Contains hrefLower) contactHrefFragments then 5 else 0)"

definition link_step ::
  "'u url_lib \<Rightarrow> 'u \<Rightarrow> (string, bool) gomap \<times> candidate list \<Rightarrow> string \<times> (nat \<times> string) list \<Rightarrow> (string, bool) gomap \<times> candidate list"
where
  "link_step ul base st m =
     (let (seen, candidates) = st;
          rawHref = TrimSpace (submatch m 1);
          text = stripTags (ToLower (submatch m 2));
          hrefLower = ToLower rawHref in
      if \<not> is_page_link rawHref then st
      else let score = link_score text hrefLower in
        if score = 0 then st
        else case ul_ParseRef ul base rawHref of
            None \<Rightarrow> st
          | Some u \<Rightarrow>
              if ul_Host ul u \<noteq> ul_Host ul base then st
              else let key = ul_StringNoFragment ul u in
                if gm_get seen key = Some True then st
                else (gm_put key True seen, candidates @ [\<lparr>cd_href = key, cd_score = score\<rparr>]))"

definition contact_candidates :: "'u url_lib \<Rightarrow> 'u \<Rightarrow> string \<Rightarrow> candidate list" where
  "contact_candidates ul base html = snd (foldl (link_step ul base) ([], []) (FindAllStringSubmatch linkRe html))"

definition FindContactPages :: "'u url_lib \<Rightarrow> string \<Rightarrow> string \<Rightarrow> string list" where
  "FindContactPages ul html baseURL =
     (case ul_Parse ul baseURL of
        None \<Rightarrow> []
      | Some base \<Rightarrow>
          let candidates = xsort (\<lambda>a b. cd_score b > cd_score a) (contact_candidates ul base html);
              top = (if length candidates > MaxContactPages then take MaxContactPages candidates else candidates)
          in map cd_href top)"

section \<open>Fetching a page\<close>

datatype fetch_error = RequestError string | ClientError string | contactFetchError string int | BodyError string

text \<open>\<open>hc_Do\<close> is the client, given the rule for the number of redirects made so far, the URL and the
  headers; a response is its status and the body: the bytes that can be read and the error,
  if any, that follows them.\<close>

record http_client =
  hc_NewRequest :: "string \<Rightarrow> string option"
  hc_Do :: "(nat \<Rightarrow> bool) \<Rightarrow> string \<Rightarrow> (string, string) gomap \<Rightarrow> string + (int \<times> string \<times> string option)"

definition default_agent :: string where
  "default_agent = ''Mozilla/5.0 (Windows NT 10.0; Win64; x64) AppleWebKit/537.36 (KHTML, like Gecko) Chrome/125.0.0.0 Safari/537.36''"

definition contact_headers :: "string \<Rightarrow> (string, string) gomap" where
  "contact_headers ua =
     gm_put ''Accept-Language'' ''en-US,en;q=0.9,id;q=0.8''
       (gm_put ''Accept'' ''text/html,application/xhtml+xml,application/xml;q=0.9,*/*;q=0.8''
         (gm_put ''User-Agent'' (if ua = '''' then default_agent else ua) []))"

definition body_cap :: nat where
  "body_cap = 2 * 1024 * 1024"

text \<open>\<^verbatim>\<open>io.ReadAll(io.LimitReader(body, cap))\<close>: an error beyond the limit is not seen.\<close>

definition read_limited :: "string \<times> string option \<Rightarrow> string + string" where
  "read_limited b =
     (case b of (data, err) \<Rightarrow>
        if length data < body_cap then (case err of Some e \<Rightarrow> Inl e | None \<Rightarrow> Inr data) else Inr (take body_cap data))"

definition FetchContactPage :: "http_client \<Rightarrow> string \<Rightarrow> string \<Rightarrow> fetch_error + string" where
  "FetchContactPage hc pageURL userAgent =
     (if pageURL = '''' then Inr ''''
      else case hc_NewRequest hc pageURL of
          Some err \<Rightarrow> Inl (RequestError err)
        | None \<Rightarrow>
            (case hc_Do hc (\<lambda>via. via < 3) pageURL (contact_headers userAgent) of
               Inl err \<Rightarrow> Inl (ClientError err)
             | Inr (status, body) \<Rightarrow>
                 if status < 200 \<or> status \<ge> 300 then Inl (contactFetchError pageURL status)
                 else (case read_limited body of Inl err \<Rightarrow> Inl (BodyError err) | Inr s \<Rightarrow> Inr s)))"

lemma FetchContactPage_bounded: "FetchContactPage hc url ua = Inr s \<Longrightarrow> length s \<le> body_cap"
  by (auto simp: FetchContactPage_def read_limited_def split: if_splits option.splits sum.splits prod.splits)

section \<open>The pages that are chosen\<close>

interpretation link_rank: rank_order cd_score "\<lambda>a b. cd_score b > cd_score a"
  by unfold_locales simp

text \<open>The links that can become candidates, as they stand in the page.\<close>

definition contact_link :: "'u url_lib \<Rightarrow> 'u \<Rightarrow> (string \<times> (nat \<times> string) list) \<Rightarrow> string \<Rightarrow> int \<Rightarrow> bool" where
  "contact_link ul base m href score \<longleftrightarrow>
     is_page_link (TrimSpace (submatch m 1)) \<and>
     score = link_score (stripTags (ToLower (submatch m 2))) (ToLower (TrimSpace (submatch m 1))) \<and> score \<noteq> 0 \<and>
     (\<exists>u. ul_ParseRef ul base (TrimSpace (submatch m 1)) = Some u \<and> ul_Host ul u = ul_Host ul base \<and> ul_StringNoFragment ul u = href)"

lemma link_step_cases:
  "link_step ul base (seen, cs) m = (seen, cs) \<and> (\<forall>h s. contact_link ul base m h s \<longrightarrow> gm_get seen h = Some True) \<or>
   (\<exists>h s. contact_link ul base m h s \<and> gm_get seen h \<noteq> Some True \<and>
      link_step ul base (seen, cs) m = (gm_put h True seen, cs @ [\<lparr>cd_href = h, cd_score = s\<rparr>]) \<and> (\<forall>h' s'. contact_link ul base m h' s' \<longrightarrow> h' = h))"
  by (auto simp: link_step_def contact_link_def Let_def split: option.splits)

text \<open>The first of the links that lead to a page, and its score.\<close>

definition first_link :: "'u url_lib \<Rightarrow> 'u \<Rightarrow> (string \<times> (nat \<times> string) list) list \<Rightarrow> string \<Rightarrow> int \<Rightarrow> bool" where
  "first_link ul base ms h s \<longleftrightarrow>
     (\<exists>i < length ms. contact_link ul base (ms ! i) h s \<and> (\<forall>k < i. \<forall>s'. \<not> contact_link ul base (ms ! k) h s'))"

lemma first_link_snoc: "first_link ul base ms h s \<Longrightarrow> first_link ul base (ms @ [m]) h s"
  unfolding first_link_def by (auto simp: nth_append less_Suc_eq)

lemma first_link_new:
  "contact_link ul base m h s \<Longrightarrow> (\<And>m' s'. m' \<in> set ms \<Longrightarrow> \<not> contact_link ul base m' h s') \<Longrightarrow> first_link ul base (ms @ [m]) h s"
  unfolding first_link_def by (rule exI [of _ "length ms"]) (auto simp: nth_append)

definition links_ok :: "'u url_lib \<Rightarrow> 'u \<Rightarrow> (string \<times> (nat \<times> string) list) list \<Rightarrow> (string, bool) gomap \<times> candidate list \<Rightarrow> bool" where
  "links_ok ul base ms st \<longleftrightarrow>
     (\<forall>h. gm_get (fst st) h = Some True \<longleftrightarrow> h \<in> cd_href ` set (snd st)) \<and> distinct (map cd_href (snd st)) \<and>
     (\<forall>c \<in> set (snd st). first_link ul base ms (cd_href c) (cd_score c)) \<and>
     (\<forall>m \<in> set ms. \<forall>h s. contact_link ul base m h s \<longrightarrow> h \<in> cd_href ` set (snd st))"

lemma links_ok_step:
  assumes "links_ok ul base ms (seen, cs)"
  shows "links_ok ul base (ms @ [m]) (link_step ul base (seen, cs) m)"
proof -
  have seen: "gm_get seen h = Some True \<longleftrightarrow> h \<in> cd_href ` set cs" for h using assms by (simp add: links_ok_def)
  have ok: "distinct (map cd_href cs)" "\<And>c. c \<in> set cs \<Longrightarrow> first_link ul base ms (cd_href c) (cd_score c)"
    "\<And>m h s. m \<in> set ms \<Longrightarrow> contact_link ul base m h s \<Longrightarrow> h \<in> cd_href ` set cs"
    using assms unfolding links_ok_def fst_conv snd_conv by blast+
  consider (old) "link_step ul base (seen, cs) m = (seen, cs)" "\<And>h s. contact_link ul base m h s \<Longrightarrow> h \<in> cd_href ` set cs"
    | (new) h s where "contact_link ul base m h s" "h \<notin> cd_href ` set cs"
        "link_step ul base (seen, cs) m = (gm_put h True seen, cs @ [\<lparr>cd_href = h, cd_score = s\<rparr>])" "\<And>h' s'. contact_link ul base m h' s' \<Longrightarrow> h' = h"
    using link_step_cases [of ul base seen cs m] unfolding seen by blast
  then show ?thesis
  proof cases
    case old
    then show ?thesis using seen ok first_link_snoc [of ul base ms] unfolding links_ok_def by auto
  next
    case new
    have "gm_get (gm_put h True seen) h' = Some True \<longleftrightarrow> h' \<in> insert h (cd_href ` set cs)" for h'
      using seen by (simp add: gm.get_put)
    moreover have "first_link ul base (ms @ [m]) h s" by (rule first_link_new [OF new(1)]) (use ok(3) new(2) in blast)
    then have "first_link ul base (ms @ [m]) (cd_href c) (cd_score c)" if "c \<in> set (cs @ [\<lparr>cd_href = h, cd_score = s\<rparr>])" for c
      using that ok(2) [of c, THEN first_link_snoc, of m] by (cases "c \<in> set cs") simp_all
    moreover have "h' \<in> insert h (cd_href ` set cs)" if "m' \<in> set (ms @ [m])" "contact_link ul base m' h' s'" for m' h' s'
      using that ok(3) [of m' h' s'] new(4) [of h' s'] by auto
    moreover have "distinct (map cd_href (cs @ [\<lparr>cd_href = h, cd_score = s\<rparr>]))" using ok(1) new(2) by simp
    ultimately show ?thesis unfolding new(3) links_ok_def by simp
  qed
qed

lemma links_ok_fold: "links_ok ul base A st \<Longrightarrow> links_ok ul base (A @ ms) (foldl (link_step ul base) st ms)"
proof (induction ms arbitrary: A st)
  case (Cons m ms)
  have "links_ok ul base (A @ [m]) (link_step ul base st m)" using links_ok_step [of ul base A "fst st" "snd st" m] Cons.prems by simp
  then show ?case using Cons.IH by fastforce
qed simp

lemma candidates_ok:
  "links_ok ul base (FindAllStringSubmatch linkRe html) (foldl (link_step ul base) ([], []) (FindAllStringSubmatch linkRe html))"
proof -
  have "links_ok ul base [] ([], [])" by (simp add: links_ok_def gm.get_empty)
  then show ?thesis using links_ok_fold [of ul base "[]" "([], [])" "FindAllStringSubmatch linkRe html"] by simp
qed

lemma candidate_facts:
  "distinct (map cd_href (contact_candidates ul base html))"
  "c \<in> set (contact_candidates ul base html) \<Longrightarrow> first_link ul base (FindAllStringSubmatch linkRe html) (cd_href c) (cd_score c)"
  "m \<in> set (FindAllStringSubmatch linkRe html) \<Longrightarrow> contact_link ul base m h s \<Longrightarrow> h \<in> cd_href ` set (contact_candidates ul base html)"
  using candidates_ok [of ul base html] unfolding links_ok_def contact_candidates_def by blast+

text \<open>C25: The contact pages. Each link of the page that leads to the same host and looks like a
  contact page (2 for a keyword in its text, 5 for a fragment in its address) makes the page it
  leads to a candidate, once, with the score of the first link that leads there: a later
  link to the same page does not raise it. The chosen pages are the best two candidates, or
  all of them when there are fewer: none that is left out has a higher score.\<close>

theorem contact_pages_best:
  assumes "ul_Parse ul baseURL = Some base"
  shows "\<exists>(top :: candidate list) (rest :: candidate list). FindContactPages ul html baseURL = map cd_href top \<and>
     (length top = 2 \<or> length top < 2 \<and> rest = []) \<and> distinct (map cd_href (top @ rest)) \<and>
     (\<forall>c \<in> set top. \<forall>d \<in> set rest. cd_score d \<le> cd_score c) \<and>
     (\<forall>c \<in> set (top @ rest). first_link ul base (FindAllStringSubmatch linkRe html) (cd_href c) (cd_score c)) \<and>
     (\<forall>m \<in> set (FindAllStringSubmatch linkRe html). \<forall>h s. contact_link ul base m h s \<longrightarrow> h \<in> cd_href ` set (top @ rest))"
proof -
  let ?cs = "contact_candidates ul base html"
  let ?s = "xsort (\<lambda>a b. cd_score b > cd_score a) ?cs"
  let ?top = "take 2 ?s" and ?rest = "drop 2 ?s"
  have e: "set (?top @ ?rest) = set ?cs" by simp
  have sorted: "sorted_wrt (\<lambda>x y. cd_score y \<le> cd_score x) (?top @ ?rest)" using link_rank.xsort_descending [of ?cs] by simp
  show ?thesis
  proof (rule exI [of _ ?top], rule exI [of _ ?rest], intro conjI)
    show "FindContactPages ul html baseURL = map cd_href ?top" using assms by (simp add: FindContactPages_def MaxContactPages_def Let_def)
    show "length ?top = 2 \<or> length ?top < 2 \<and> ?rest = []" by auto
    show "distinct (map cd_href (?top @ ?rest))"
      using candidate_facts(1) [of ul base html] mset_xsort by (metis append_take_drop_id mset_map mset_eq_imp_distinct_iff)
    show "\<forall>c \<in> set ?top. \<forall>d \<in> set ?rest. cd_score d \<le> cd_score c" using sorted unfolding sorted_wrt_append by blast
    show "\<forall>c \<in> set (?top @ ?rest). first_link ul base (FindAllStringSubmatch linkRe html) (cd_href c) (cd_score c)"
      unfolding e using candidate_facts(2) [of _ ul base html] by simp
    show "\<forall>m \<in> set (FindAllStringSubmatch linkRe html). \<forall>h s. contact_link ul base m h s \<longrightarrow> h \<in> cd_href ` set (?top @ ?rest)"
      unfolding e using candidate_facts(3) [of _ html ul base] by blast
  qed
qed

text \<open>A page with a link; a URL is its path, on one host.\<close>

definition demo_urls :: "string url_lib" where
  "demo_urls = \<lparr>ul_Parse = Some, ul_ParseRef = (\<lambda>b s. Some s), ul_Host = (\<lambda>u. ''h''), ul_StringNoFragment = (\<lambda>u. u)\<rparr>"

definition demo_page :: string where
  "demo_page = ''<a href='' @ [CHR 0x22] @ ''/help'' @ [CHR 0x22] @ ''>x</a>''"

lemma demo_links: "map (\<lambda>m. (submatch m 1, submatch m 2)) (FindAllStringSubmatch linkRe demo_page) = [(''/help'', ''x'')]"
  by code_simp

lemma demo_score: "link_score (stripTags (ToLower ''x'')) (ToLower (TrimSpace ''/help'')) = 5" "is_page_link (TrimSpace ''/help'')" "TrimSpace ''/help'' = ''/help''"
  by code_simp+

theorem contact_pages_best_witness:
  "ul_Parse demo_urls ''/'' = Some ''/'' \<and> FindContactPages demo_urls demo_page ''/'' = [''/help'']"
proof -
  have p: "ul_Parse demo_urls ''/'' = Some ''/''" by (simp add: demo_urls_def)
  obtain m where m: "FindAllStringSubmatch linkRe demo_page = [m]" "submatch m 1 = ''/help''" "submatch m 2 = ''x''" using demo_links by auto
  have l: "contact_link demo_urls ''/'' m h s \<longleftrightarrow> h = ''/help'' \<and> s = 5" for h s
    using demo_score unfolding contact_link_def m by (auto simp: demo_urls_def)
  have f: "first_link demo_urls ''/'' [m] h s \<longleftrightarrow> h = ''/help'' \<and> s = 5" for h s by (auto simp: first_link_def l)
  obtain top rest :: "candidate list" where t: "FindContactPages demo_urls demo_page ''/'' = map cd_href top" "length top = 2 \<or> length top < 2 \<and> rest = []"
      "distinct (map cd_href (top @ rest))" "\<forall>c \<in> set (top @ rest). cd_href c = ''/help'' \<and> cd_score c = 5"
      "\<forall>m' \<in> set [m]. \<forall>h s. contact_link demo_urls ''/'' m' h s \<longrightarrow> h \<in> cd_href ` set (top @ rest)"
    using contact_pages_best [OF p, of demo_page] unfolding m(1) f by blast
  have t5: "''/help'' \<in> cd_href ` set (top @ rest)" using t(5) l by auto
  have "set (map cd_href (top @ rest)) = {''/help''}" using t(4) t5 by auto
  then have "length (map cd_href (top @ rest)) = 1" using distinct_card [OF t(3)] by simp
  then have "length top = 1" "rest = []" using t(2) by auto
  then show ?thesis using t(1,4) p by (cases top) auto
qed

end
