(* ===== verification/Enrich.thy ===== *)
theory Enrich
  imports Scan_Types
begin

text \<open>
  The enrichment look-ups, \<^verbatim>\<open>internal/scanner/enrich.go\<close>: DNS over HTTPS, registration data over RDAP,
  the certificate of a fresh TLS connection, and the page metrics. What the network answers,
  the JSON decoder, the parser of dates and the TLS library are parameters; everything the
  program does with the answers is defined here. The five DNS queries run in parallel: the
  order in which their results arrive is an argument. \<^verbatim>\<open>sort.Slice\<close> is a stable sort here (Go
  leaves the order of equal preferences open), and days are computed with exact division
  where the code divides floating-point hours.
\<close>

section \<open>DNS over HTTPS\<close>

definition dohEndpoints :: "string list" where
  "dohEndpoints = [''https://cloudflare-dns.com/dns-query'', ''https://dns.google/resolve'']"

record dohAnswer =
  da_Name :: string
  da_Type :: int
  da_TTL :: int
  da_Data :: string

record dohResponse =
  dh_Status :: int
  dh_Answer :: "dohAnswer list"

text \<open>\<open>do_Get\<close> is the request and the reading of its body: \<open>None\<close> when either the request cannot be
  made or the client fails, otherwise the status and what could be read.\<close>

record doh_env =
  do_Get :: "string \<Rightarrow> (int \<times> string) option"
  do_Unmarshal :: "string \<Rightarrow> dohResponse option"
  do_QueryEscape :: "string \<Rightarrow> string"

fun try_endpoints :: "doh_env \<Rightarrow> string \<Rightarrow> string list \<Rightarrow> dohAnswer list option" where
  "try_endpoints de query [] = None"
| "try_endpoints de query (endpoint # es) =
     (case do_Get de (endpoint @ query) of
        None \<Rightarrow> try_endpoints de query es
      | Some (status, body) \<Rightarrow>
          if status \<noteq> 200 then try_endpoints de query es
          else case do_Unmarshal de body of
              None \<Rightarrow> try_endpoints de query es
            | Some parsed \<Rightarrow> Some (dh_Answer parsed))"

text \<open>\<open>None\<close> is the error \<^verbatim>\<open>all DoH endpoints failed\<close>.\<close>

definition dohQuery :: "doh_env \<Rightarrow> string \<Rightarrow> string \<Rightarrow> dohAnswer list option" where
  "dohQuery de domain recordType = try_endpoints de (''?name='' @ do_QueryEscape de domain @ ''&type='' @ recordType) dohEndpoints"

text \<open>\<^verbatim>\<open>fmt.Sscanf(s, "%d", &pref)\<close> into a 16-bit unsigned integer: the leading digits; without
  digits, or when the number does not fit, the variable keeps its value 0.\<close>

definition digit_val :: "char \<Rightarrow> int" where
  "digit_val c = of_char c - 48"

definition is_decimal :: "char \<Rightarrow> bool" where
  "is_decimal c \<longleftrightarrow> 48 \<le> (of_char c :: nat) \<and> (of_char c :: nat) \<le> 57"

definition scan_uint16 :: "string \<Rightarrow> int" where
  "scan_uint16 s =
     (let v = foldl (\<lambda>n c. 10 * n + digit_val c) 0 (takeWhile is_decimal s) in if v < 2 ^ 16 then v else 0)"

definition parseMXData :: "string \<Rightarrow> int \<times> string" where
  "parseMXData s =
     (let parts = Fields s in
      if length parts < 2 then (0, TrimSuffix s ''.'') else (scan_uint16 (parts ! 0), TrimSuffix (parts ! 1) ''.''))"

text \<open>The first case of a \<^verbatim>\<open>switch\<close> one of whose fragments occurs in the text.\<close>

fun first_match :: "(string list \<times> string) list \<Rightarrow> string \<Rightarrow> string option" where
  "first_match [] s = None"
| "first_match ((frags, name) # cases) s = (if list_ex (Contains s) frags then Some name else first_match cases s)"

definition email_providers :: "(string list \<times> string) list" where
  "email_providers =
    [([''google.com'', ''googlemail.com''], ''Google Workspace''),
     ([''outlook.com'', ''protection.outlook''], ''Microsoft 365''),
     ([''zoho.com''], ''Zoho Mail''),
     ([''protonmail'', ''proton.ch''], ''ProtonMail''),
     ([''fastmail.com'', ''messagingengine''], ''Fastmail''),
     ([''mailgun.org''], ''Mailgun''),
     ([''sendgrid.net''], ''SendGrid''),
     ([''amazonaws.com''], ''Amazon SES''),
     ([''mimecast'', ''mimecast-offshore''], ''Mimecast''),
     ([''icloud.com'', ''apple-dns''], ''iCloud Mail''),
     ([''yandex.net''], ''Yandex Mail''),
     ([''hover.com''], ''Hover''),
     ([''mxhero.com''], ''mxhero'')]"

fun spf_hint :: "string list \<Rightarrow> string" where
  "spf_hint [] = ''''"
| "spf_hint (t # ts) =
     (let lower = ToLower t in
      if HasPrefix lower ''v=spf1'' then
        if Contains lower ''include:_spf.google.com'' then ''Google Workspace''
        else if Contains lower ''include:spf.protection.outlook.com'' then ''Microsoft 365''
        else spf_hint ts
      else spf_hint ts)"

definition detectEmailProvider :: "dns_mx list \<Rightarrow> string list \<Rightarrow> string" where
  "detectEmailProvider mx txts =
     (if length mx = 0 then ''''
      else case first_match email_providers (ToLower (mx_Host (mx ! 0))) of
          Some name \<Rightarrow> name
        | None \<Rightarrow> spf_hint txts)"

definition dns_providers :: "(string list \<times> string) list" where
  "dns_providers =
    [([''cloudflare.com''], ''Cloudflare''),
     ([''awsdns''], ''Amazon Route 53''),
     ([''domaincontrol.com''], ''GoDaddy''),
     ([''googledomains'', ''google.com''], ''Google Cloud DNS''),
     ([''azure-dns'', ''azure.com''], ''Azure DNS''),
     ([''digitalocean.com''], ''DigitalOcean''),
     ([''hetzner.com''], ''Hetzner DNS''),
     ([''linode.com''], ''Linode DNS''),
     ([''namecheap.com''], ''Namecheap''),
     ([''verisign'', ''networksolutions''], ''Verisign''),
     ([''nsone.net''], ''NS1''),
     ([''dnsmadeeasy'', ''digicert''], ''DNS Made Easy''),
     ([''ultradns'', ''neustar''], ''UltraDNS''),
     ([''constellix'', ''cnsglobal''], ''Constellix''),
     ([''rage4.com''], ''Rage4''),
     ([''yandex.net''], ''Yandex DNS'')]"

definition detectDNSProvider :: "string list \<Rightarrow> string" where
  "detectDNSProvider ns =
     (if length ns = 0 then ''''
      else case first_match dns_providers (ToLower (Join ns '' '')) of Some name \<Rightarrow> name | None \<Rightarrow> '''')"

definition record_types :: "string list" where
  "record_types = [''A'', ''AAAA'', ''MX'', ''NS'', ''TXT'']"

definition empty_dns :: dns_info where
  "empty_dns = \<lparr>dns_A = [], dns_AAAA = [], dns_MX = [], dns_NS = [], dns_TXT = [], dns_CNAME = '''', dns_EmailProvider = '''', dns_DNSProvider = '''', dns_Error = ''''\<rparr>"

text \<open>The results and the errors by record type; they are received in the given order.\<close>

definition receive ::
  "doh_env \<Rightarrow> string \<Rightarrow> (string, dohAnswer list) gomap \<times> (string, unit) gomap \<Rightarrow> string \<Rightarrow> (string, dohAnswer list) gomap \<times> (string, unit) gomap"
where
  "receive de domain st typ =
     (case dohQuery de domain typ of
        None \<Rightarrow> (fst st, gm_put typ () (snd st))
      | Some ans \<Rightarrow> (gm_put typ ans (fst st), snd st))"

definition results_of :: "(string, dohAnswer list) gomap \<Rightarrow> string \<Rightarrow> dohAnswer list" where
  "results_of results typ = (case gm_get results typ of None \<Rightarrow> [] | Some ans \<Rightarrow> ans)"

text \<open>\<^verbatim>\<open>strings.Trim(s, "\"")\<close>\<close>

definition trim_quotes :: "string \<Rightarrow> string" where
  "trim_quotes s = TrimRightFunc (\<lambda>c. c = CHR 0x22) (dropWhile (\<lambda>c. c = CHR 0x22) s)"

definition QueryDNS :: "doh_env \<Rightarrow> string list \<Rightarrow> string \<Rightarrow> dns_info" where
  "QueryDNS de order domain =
     (if domain = '''' then empty_dns\<lparr>dns_Error := ''empty domain''\<rparr>
      else
        let (results, errs) = foldl (receive de domain) ([], []) order;
            a = map da_Data (results_of results ''A'');
            aaaa = map da_Data (results_of results ''AAAA'');
            mx = sort_key mx_Pref (map (\<lambda>r. let (pref, host) = parseMXData (da_Data r) in \<lparr>mx_Host = host, mx_Pref = pref\<rparr>) (results_of results ''MX''));
            ns = map (\<lambda>r. TrimSuffix (da_Data r) ''.'') (results_of results ''NS'');
            txts = filter (\<lambda>t. \<not> length t > 200) (map (\<lambda>r. trim_quotes (da_Data r)) (results_of results ''TXT''))
        in empty_dns\<lparr>dns_A := a, dns_AAAA := aaaa, dns_MX := mx, dns_NS := ns, dns_TXT := txts,
             dns_EmailProvider := detectEmailProvider mx txts, dns_DNSProvider := detectDNSProvider ns,
             dns_Error := (if gm_len errs = length record_types then ''all DNS queries failed'' else '''')\<rparr>)"

section \<open>Registration data over RDAP\<close>

definition max_duration :: duration where
  "max_duration = 2 ^ 63 - 1"

text \<open>\<^verbatim>\<open>t.Sub(u)\<close> saturates.\<close>

definition time_Sub :: "time \<Rightarrow> time \<Rightarrow> duration" where
  "time_Sub t u = (if t - u > max_duration then max_duration else if t - u < - max_duration - 1 then - max_duration - 1 else t - u)"

text \<open>\<^verbatim>\<open>int(d.Hours() / 24)\<close> rounds towards zero.\<close>

definition days_of :: "duration \<Rightarrow> int" where
  "days_of d = (if 0 \<le> d then d div (24 * hour) else - (- d div (24 * hour)))"

record rdap_entity =
  re_Roles :: "string list"
  re_VCard1 :: json

record rdap_answer =
  ra_Events :: "(string \<times> string) list"
  ra_Status :: "string list"
  ra_Entities :: "rdap_entity list"
  ra_Nameservers :: "string list"

text \<open>The request, its answer (status, host of the last request, decoded body) and the date parser.\<close>

record rdap_env =
  rp_NewRequest :: "string \<Rightarrow> string option"
  rp_Do :: "(nat \<Rightarrow> bool) \<Rightarrow> string \<Rightarrow> string + (int \<times> string \<times> (string + rdap_answer))"
  rp_ParseRFC3339 :: "string \<Rightarrow> time option"

definition empty_whois :: whois_info where
  "empty_whois = \<lparr>wh_Registrar = '''', wh_CreatedDate = '''', wh_ExpiryDate = '''', wh_UpdatedDate = '''', wh_Status = [], wh_NameServers = [],
     wh_DomainAgeDays = 0, wh_DaysToExpiry = 0, wh_RDAPEndpoint = '''', wh_Error = ''''\<rparr>"

definition event_step :: "whois_info \<Rightarrow> string \<times> string \<Rightarrow> whois_info" where
  "event_step info e =
     (let (action, date) = e in
      if action = ''registration'' then info\<lparr>wh_CreatedDate := date\<rparr>
      else if action = ''expiration'' then info\<lparr>wh_ExpiryDate := date\<rparr>
      else if action = ''last changed'' \<or> action = ''last update of RDAP database'' then
        (if wh_UpdatedDate info = '''' then info\<lparr>wh_UpdatedDate := date\<rparr> else info)
      else info)"

text \<open>The first formatted name of a card that is a string.\<close>

fun card_name :: "json list \<Rightarrow> string option" where
  "card_name [] = None"
| "card_name (f # fs) =
     (case f of
        JArr parts \<Rightarrow>
          if length parts < 4 then card_name fs
          else (case (parts ! 0, parts ! 3) of
                  (JStr name, JStr v) \<Rightarrow> if name = ''fn'' then Some v else card_name fs
                | _ \<Rightarrow> card_name fs)
      | _ \<Rightarrow> card_name fs)"

definition entity_step :: "whois_info \<Rightarrow> rdap_entity \<Rightarrow> whois_info" where
  "entity_step info ent =
     (if ''registrar'' \<notin> set (re_Roles ent) then info
      else case re_VCard1 ent of
          JArr inner \<Rightarrow> (case card_name inner of Some v \<Rightarrow> info\<lparr>wh_Registrar := v\<rparr> | None \<Rightarrow> info)
        | _ \<Rightarrow> info)"

definition whois_ages :: "(string \<Rightarrow> time option) \<Rightarrow> time \<Rightarrow> time \<Rightarrow> whois_info \<Rightarrow> whois_info" where
  "whois_ages prs now now' info =
     (let info1 = (case (if wh_CreatedDate info \<noteq> '''' then prs (wh_CreatedDate info) else None) of
            Some t \<Rightarrow> info\<lparr>wh_DomainAgeDays := days_of (time_Sub now t)\<rparr> | None \<Rightarrow> info)
      in (case (if wh_ExpiryDate info1 \<noteq> '''' then prs (wh_ExpiryDate info1) else None) of
            Some t \<Rightarrow> info1\<lparr>wh_DaysToExpiry := days_of (time_Sub t now')\<rparr> | None \<Rightarrow> info1))"

definition QueryWHOIS :: "rdap_env \<Rightarrow> time \<Rightarrow> time \<Rightarrow> string \<Rightarrow> whois_info" where
  "QueryWHOIS re now now' domain =
     (if domain = '''' then empty_whois\<lparr>wh_Error := ''empty domain''\<rparr>
      else case rp_NewRequest re (''https://rdap.org/domain/'' @ domain) of
          Some err \<Rightarrow> empty_whois\<lparr>wh_Error := err\<rparr>
        | None \<Rightarrow>
            (case rp_Do re (\<lambda>via. via < 5) (''https://rdap.org/domain/'' @ domain) of
               Inl err \<Rightarrow> empty_whois\<lparr>wh_Error := err\<rparr>
             | Inr (status, host, decoded) \<Rightarrow>
                 if status \<noteq> 200 then empty_whois\<lparr>wh_Error := ''RDAP status '' @ Itoa status\<rparr>
                 else case decoded of
                     Inl err \<Rightarrow> empty_whois\<lparr>wh_RDAPEndpoint := host, wh_Error := ''RDAP parse: '' @ err\<rparr>
                   | Inr rdap \<Rightarrow>
                       let info = empty_whois\<lparr>wh_RDAPEndpoint := host, wh_Status := ra_Status rdap,
                                    wh_NameServers := map (\<lambda>n. TrimSuffix n ''.'') (ra_Nameservers rdap)\<rparr>;
                           info1 = foldl event_step info (ra_Events rdap);
                           info2 = foldl entity_step info1 (ra_Entities rdap)
                       in whois_ages (rp_ParseRFC3339 re) now now' info2))"

section \<open>The certificate\<close>

record certificate =
  ct_IssuerCommonName :: string
  ct_IssuerOrganization :: "string list"
  ct_SubjectCommonName :: string
  ct_NotBefore :: time
  ct_NotAfter :: time
  ct_DNSNames :: "string list"
  ct_IPAddresses :: "string list"
  ct_RawIssuer :: string
  ct_RawSubject :: string

record connection_state =
  cs_PeerCertificates :: "certificate list"
  cs_Version :: nat
  cs_CipherSuite :: nat

definition empty_ssl :: ssl_info where
  "empty_ssl = \<lparr>ssl_Issuer = '''', ssl_Subject = '''', ssl_NotBefore = 0, ssl_NotAfter = 0, ssl_DaysUntilExpiry = 0, ssl_SANCount = 0,
     ssl_SelfSigned = False, ssl_TLSVersion = '''', ssl_CipherSuite = '''', ssl_Error = ''''\<rparr>"

definition hex_lower :: "nat \<Rightarrow> char" where
  "hex_lower d = (if d < 10 then char_of (48 + d) else char_of (87 + d))"

text \<open>\<^verbatim>\<open>%04x\<close> of a 16-bit number.\<close>

definition hex4 :: "nat \<Rightarrow> string" where
  "hex4 v = map (\<lambda>k. hex_lower (v div 16 ^ k mod 16)) [3, 2, 1, 0]"

definition tlsVersionString :: "nat \<Rightarrow> string" where
  "tlsVersionString v =
     (if v = 0x0301 then ''TLS 1.0'' else if v = 0x0302 then ''TLS 1.1'' else if v = 0x0303 then ''TLS 1.2''
      else if v = 0x0304 then ''TLS 1.3'' else ''unknown (0x'' @ hex4 v @ '')'')"

text \<open>\<open>dial\<close> is \<^verbatim>\<open>tls.DialWithDialer\<close> with its time limit and \<open>suite\<close> is \<^verbatim>\<open>tls.CipherSuiteName\<close>.\<close>

definition QuerySSL :: "(string \<Rightarrow> string + connection_state) \<Rightarrow> (nat \<Rightarrow> string) \<Rightarrow> time \<Rightarrow> string \<Rightarrow> ssl_info" where
  "QuerySSL dial suite now host0 =
     (if host0 = '''' then empty_ssl\<lparr>ssl_Error := ''empty host''\<rparr>
      else
        let host = (if Contains host0 '':'' then host0 else host0 @ '':443'') in
        case dial host of
          Inl err \<Rightarrow> empty_ssl\<lparr>ssl_Error := err\<rparr>
        | Inr state \<Rightarrow>
            (case cs_PeerCertificates state of
               [] \<Rightarrow> empty_ssl\<lparr>ssl_Error := ''no peer certs''\<rparr>
             | cert # _ \<Rightarrow>
                 let issuer = (if ct_IssuerCommonName cert = '''' \<and> length (ct_IssuerOrganization cert) > 0
                               then ct_IssuerOrganization cert ! 0 else ct_IssuerCommonName cert)
                 in \<lparr>ssl_Issuer = issuer, ssl_Subject = ct_SubjectCommonName cert, ssl_NotBefore = ct_NotBefore cert,
                     ssl_NotAfter = ct_NotAfter cert, ssl_DaysUntilExpiry = days_of (time_Sub (ct_NotAfter cert) now),
                     ssl_SANCount = int (length (ct_DNSNames cert) + length (ct_IPAddresses cert)),
                     ssl_SelfSigned = (ct_RawIssuer cert = ct_RawSubject cert), ssl_TLSVersion = tlsVersionString (cs_Version state),
                     ssl_CipherSuite = suite (cs_CipherSuite state), ssl_Error = ''''\<rparr>))"

section \<open>Page metrics\<close>

definition Milliseconds :: "duration \<Rightarrow> int" where
  "Milliseconds d = (if 0 \<le> d then d div millisecond else - (- d div millisecond))"

text \<open>The loop over script elements: \<open>start\<close> is \<^verbatim>\<open>inlineStart\<close>, the results are the inline and the
  external bytes.\<close>

function script_loop :: "string \<Rightarrow> nat \<Rightarrow> int \<Rightarrow> int \<Rightarrow> int \<times> int" where
  "script_loop lower start inl ext =
     (case Index (drop start lower) ''<script'' of
        None \<Rightarrow> (inl, ext)
      | Some i \<Rightarrow>
          (case Index (drop (start + i) lower) ''</script>'' of
             None \<Rightarrow> (inl, ext)
           | Some j \<Rightarrow>
               let block = take j (drop (start + i) lower) in
               if Contains block '' src='' then script_loop lower (start + (i + j + 9)) inl (ext + int j)
               else script_loop lower (start + (i + j + 9)) (inl + int j) ext))"
  by pat_completeness auto

lemma script_step_inside:
  assumes "Index (drop start lower) ''<script'' = Some i" "Index (drop (start + i) lower) ''</script>'' = Some j"
  shows "start + (i + j + 9) \<le> length lower"
proof -
  have "i + 7 \<le> length (drop start lower)" using Index_Some [OF assms(1)] by simp
  moreover have "j + 9 \<le> length (drop (start + i) lower)" using Index_Some [OF assms(2)] by simp
  ultimately show ?thesis by simp
qed

termination script_loop
proof (relation "measure (\<lambda>(lower, start, inl, ext). length lower - start)", goal_cases)
  case (2 lower start inl ext i j)
  then show ?case using script_step_inside [of start lower i j] by simp
next
  case (3 lower start inl ext i j)
  then show ?case using script_step_inside [of start lower i j] by simp
qed simp

declare script_loop.simps [simp del]

definition computePerfMetrics ::
  "string \<Rightarrow> string list \<Rightarrow> string list \<Rightarrow> int \<Rightarrow> duration \<Rightarrow> duration \<Rightarrow> (string, string) gomap \<Rightarrow> perf_metrics"
where
  "computePerfMetrics html scripts cssLinks htmlSize ttfb totalDuration metaTags =
     (let js = int (length html) div 20;
          css = int (length html) div 40;
          lower = ToLower html;
          (inl, ext) = script_loop lower 0 0 0
      in \<lparr>pf_TTFB = Milliseconds ttfb, pf_TotalDuration = Milliseconds totalDuration, pf_HTMLSizeBytes = htmlSize,
          pf_JSBundleSizeBytes = js, pf_CSSBundleSizeBytes = css, pf_ScriptCount = int (length scripts),
          pf_StylesheetCount = int (length cssLinks), pf_InlineScriptBytes = inl, pf_ExternalScriptBytes = ext,
          pf_TotalAssetBytes = htmlSize + js + css,
          pf_HeadingsCount = int (Count lower ''<h1'' + Count lower ''<h2'' + Count lower ''<h3''),
          pf_MetaTagsCount = int (gm_len metaTags),
          pf_LinksCount = int (Count lower ''<a '' + Count lower (''<a'' @ [CHR 0x09]) + Count lower ''<link ''),
          pf_ImagesCount = int (Count lower ''<img '' + Count lower (''<img'' @ [CHR 0x09]))\<rparr>)"

section \<open>What the look-ups return\<close>

lemma receive_results:
  "gm_get (fst (foldl (receive de domain) st order)) t =
     (if t \<in> set order \<and> dohQuery de domain t \<noteq> None then dohQuery de domain t else gm_get (fst st) t)"
  by (induction order arbitrary: st) (auto simp: receive_def gm.get_put split: option.splits)

lemma receive_errors:
  "gm_get (snd (foldl (receive de domain) st order)) t \<noteq> None \<longleftrightarrow> gm_get (snd st) t \<noteq> None \<or> t \<in> set order \<and> dohQuery de domain t = None"
  by (induction order arbitrary: st) (auto simp: receive_def gm.get_put split: option.splits)

lemma receive_wf: "gm_wf (snd st) \<Longrightarrow> gm_wf (snd (foldl (receive de domain) st order))"
  by (induction order arbitrary: st) (auto simp: receive_def gm.wf_put split: option.splits)

lemma receive_exact:
  assumes "mset order = mset record_types" "foldl (receive de domain) ([], []) order = (rs, es)"
  shows "t \<in> set record_types \<Longrightarrow> results_of rs t = (case dohQuery de domain t of None \<Rightarrow> [] | Some ans \<Rightarrow> ans)"
    and "gm_len es = length record_types \<longleftrightarrow> (\<forall>t \<in> set record_types. dohQuery de domain t = None)"
proof -
  have order: "set order = set record_types" using assms(1) by (rule mset_eq_setD)
  have "gm_get rs t = dohQuery de domain t" if "t \<in> set record_types" for t
    using receive_results [of de domain "([], [])" order t] assms(2) order that by (auto simp: gm.get_empty)
  then show "results_of rs t = (case dohQuery de domain t of None \<Rightarrow> [] | Some ans \<Rightarrow> ans)" if "t \<in> set record_types"
    using that by (simp add: results_of_def)
  have wf: "gm_wf es" using receive_wf [of "([], [])" de domain order] assms(2) by (simp add: gm.wf_empty)
  have "gm_get es t \<noteq> None \<longleftrightarrow> t \<in> set record_types \<and> dohQuery de domain t = None" for t
    using receive_errors [of de domain "([], [])" order t] assms(2) order by (simp add: gm.get_empty)
  then have keys: "set (map fst es) = {t \<in> set record_types. dohQuery de domain t = None}"
    by (auto simp: gm_get_def map_of_eq_None_iff)
  have "gm_len es = card {t \<in> set record_types. dohQuery de domain t = None}"
    using distinct_card [of "map fst es"] wf unfolding keys by (simp add: gm_len_def gm_wf_def)
  moreover have "length record_types = card (set record_types)" by (simp add: record_types_def)
  moreover have "card {t \<in> A. P t} = card A \<longleftrightarrow> (\<forall>t \<in> A. P t)" if "finite A" for A :: "string set" and P
  proof
    assume "card {t \<in> A. P t} = card A"
    then have "{t \<in> A. P t} = A" using that by (intro card_subset_eq) auto
    then show "\<forall>t \<in> A. P t" by blast
  next
    assume "\<forall>t \<in> A. P t"
    then have "{t \<in> A. P t} = A" by blast
    then show "card {t \<in> A. P t} = card A" by simp
  qed
  ultimately show "gm_len es = length record_types \<longleftrightarrow> (\<forall>t \<in> set record_types. dohQuery de domain t = None)" by simp
qed

text \<open>C27: DNS results do not depend on timing. In whatever order the five parallel queries answer,
  \<open>QueryDNS\<close> gives the same information: the addresses of the A and AAAA answers, the mail
  exchangers by ascending preference, the name servers, the TXT records of at most 200 bytes,
  and an error exactly when every query failed.\<close>

theorem dns_independent_of_timing:
  assumes "mset order = mset record_types" "domain \<noteq> ''''"
  shows "QueryDNS de order domain = QueryDNS de record_types domain \<and>
    (let info = QueryDNS de order domain; q = (\<lambda>t. case dohQuery de domain t of None \<Rightarrow> [] | Some ans \<Rightarrow> map da_Data ans) in
     dns_A info = q ''A'' \<and> dns_AAAA info = q ''AAAA'' \<and>
     sorted (map mx_Pref (dns_MX info)) \<and>
     mset (dns_MX info) = mset (map (\<lambda>d. \<lparr>mx_Host = snd (parseMXData d), mx_Pref = fst (parseMXData d)\<rparr>) (q ''MX'')) \<and>
     dns_NS info = map (\<lambda>d. TrimSuffix d ''.'') (q ''NS'') \<and> dns_TXT info = filter (\<lambda>d. length d \<le> 200) (map trim_quotes (q ''TXT'')) \<and>
     (dns_Error info \<noteq> '''' \<longleftrightarrow> (\<forall>t \<in> set record_types. dohQuery de domain t = None)))"
proof -
  obtain rs es where r: "foldl (receive de domain) ([], []) order = (rs, es)" by fastforce
  obtain rs' es' where r': "foldl (receive de domain) ([], []) record_types = (rs', es')" by fastforce
  note x = receive_exact [OF assms(1) r] and x' = receive_exact [OF refl r']
  have types: "''A'' \<in> set record_types" "''AAAA'' \<in> set record_types" "''MX'' \<in> set record_types" "''NS'' \<in> set record_types" "''TXT'' \<in> set record_types"
    by (simp_all add: record_types_def)
  have same: "QueryDNS de order domain = QueryDNS de record_types domain"
    using x(2) x'(2) types by (simp add: QueryDNS_def r r' x(1) x'(1))
  have q: "(case dohQuery de domain t of None \<Rightarrow> [] | Some ans \<Rightarrow> map da_Data ans) = map da_Data (case dohQuery de domain t of None \<Rightarrow> [] | Some ans \<Rightarrow> ans)" for t
    by (simp split: option.splits)
  show ?thesis
    using x(2) assms(2) unfolding Let_def q
    by (intro conjI same) (simp_all add: QueryDNS_def r x(1) types Let_def split_def not_less empty_dns_def comp_def)
qed

text \<open>A resolver that answers every query with one mail exchanger, without a page of its own.\<close>

definition demo_doh :: doh_env where
  "demo_doh = \<lparr>do_Get = (\<lambda>u. Some (200, u)),
     do_Unmarshal = (\<lambda>b. Some \<lparr>dh_Status = 0, dh_Answer = [\<lparr>da_Name = ''d'', da_Type = 15, da_TTL = 60, da_Data = ''10 m.''\<rparr>]\<rparr>),
     do_QueryEscape = (\<lambda>s. s)\<rparr>"

theorem dns_independent_of_timing_witness:
  "QueryDNS demo_doh [''TXT'', ''NS'', ''MX'', ''AAAA'', ''A''] ''d'' = QueryDNS demo_doh record_types ''d'' \<and>
   dns_A (QueryDNS demo_doh [''TXT'', ''NS'', ''MX'', ''AAAA'', ''A''] ''d'') = [''10 m.'']"
proof -
  have o: "mset [''TXT'', ''NS'', ''MX'', ''AAAA'', ''A''] = mset record_types" by (simp add: record_types_def)
  have "dohQuery demo_doh ''d'' ''A'' = Some [\<lparr>da_Name = ''d'', da_Type = 15, da_TTL = 60, da_Data = ''10 m.''\<rparr>]"
    by (simp add: dohQuery_def dohEndpoints_def demo_doh_def)
  then show ?thesis using dns_independent_of_timing [OF o, of "''d''" demo_doh] by (auto simp: Let_def)
qed

lemma script_loop_bound:
  "start \<le> length lower \<Longrightarrow> script_loop lower start inl ext = (inl', ext') \<Longrightarrow>
   inl \<le> inl' \<and> ext \<le> ext' \<and> inl' + ext' \<le> inl + ext + int (length lower - start)"
proof (induction lower start inl ext arbitrary: inl' ext' rule: script_loop.induct)
  case (1 lower start inl ext)
  show ?case
  proof (cases "Index (drop start lower) ''<script''")
    case None
    then show ?thesis using 1(4) by (simp add: script_loop.simps [of lower start])
  next
    case (Some i)
    note i = Some
    show ?thesis
    proof (cases "Index (drop (start + i) lower) ''</script>''")
      case None
      then show ?thesis using 1(4) i by (simp add: script_loop.simps [of lower start])
    next
      case (Some j)
      note inside = script_step_inside [OF i Some]
      show ?thesis
      proof (cases "Contains (take j (drop (start + i) lower)) '' src=''")
        case True
        then have "script_loop lower (start + (i + j + 9)) inl (ext + int j) = (inl', ext')"
          using 1(4) i Some by (simp add: script_loop.simps [of lower start])
        then show ?thesis using 1(1) [OF i Some refl True inside] inside by simp
      next
        case False
        then have "script_loop lower (start + (i + j + 9)) (inl + int j) ext = (inl', ext')"
          using 1(4) i Some by (simp add: script_loop.simps [of lower start])
        then show ?thesis using 1(2) [OF i Some refl False inside] inside by simp
      qed
    qed
  qed
qed

text \<open>The metrics of the page are within its size. The bytes of inline and of external script
  elements are not negative and together not more than the page, and the estimate of all
  assets lies between the size of the page and that size plus three fortieths of it.\<close>

theorem script_bytes_bounded:
  "let p = computePerfMetrics html scripts css (int (length html)) ttfb dur metas in
   0 \<le> pf_InlineScriptBytes p \<and> 0 \<le> pf_ExternalScriptBytes p \<and>
   pf_InlineScriptBytes p + pf_ExternalScriptBytes p \<le> pf_HTMLSizeBytes p \<and>
   pf_HTMLSizeBytes p \<le> pf_TotalAssetBytes p \<and> 40 * pf_TotalAssetBytes p \<le> 43 * pf_HTMLSizeBytes p"
proof -
  obtain inl ext where s: "script_loop (ToLower html) 0 0 0 = (inl, ext)" by fastforce
  then have "0 \<le> inl \<and> 0 \<le> ext \<and> inl + ext \<le> int (length html)" using script_loop_bound [OF _ s] by simp
  then show ?thesis by (simp add: computePerfMetrics_def s Let_def)
qed

end
