(* ===== verification/Useragent.thy ===== *)
theory Useragent
  imports Prelude
begin

text \<open>
  The pool of browser identifications, \<^verbatim>\<open>internal/scanner/useragent.go\<close>. A number drawn by
  \<^verbatim>\<open>rand.Intn\<close> is an argument. The lemma \<open>Next_round_robin\<close> says that repeated calls of \<open>Next\<close> go
  through the pool in order and start again, and \<open>pool_ok_Next\<close> that the index stays in range.
\<close>

definition userAgents :: "string list" where
  "userAgents =
    [''Mozilla/5.0 (Windows NT 10.0; Win64; x64) AppleWebKit/537.36 (KHTML, like Gecko) Chrome/125.0.0.0 Safari/537.36'',
     ''Mozilla/5.0 (Windows NT 10.0; Win64; x64) AppleWebKit/537.36 (KHTML, like Gecko) Chrome/124.0.0.0 Safari/537.36'',
     ''Mozilla/5.0 (Windows NT 11.0; Win64; x64) AppleWebKit/537.36 (KHTML, like Gecko) Chrome/125.0.0.0 Safari/537.36'',
     ''Mozilla/5.0 (Macintosh; Intel Mac OS X 10_15_7) AppleWebKit/537.36 (KHTML, like Gecko) Chrome/125.0.0.0 Safari/537.36'',
     ''Mozilla/5.0 (Macintosh; Intel Mac OS X 10_15_7) AppleWebKit/537.36 (KHTML, like Gecko) Chrome/124.0.0.0 Safari/537.36'',
     ''Mozilla/5.0 (X11; Linux x86_64) AppleWebKit/537.36 (KHTML, like Gecko) Chrome/125.0.0.0 Safari/537.36'',
     ''Mozilla/5.0 (X11; Linux x86_64) AppleWebKit/537.36 (KHTML, like Gecko) Chrome/124.0.0.0 Safari/537.36'',
     ''Mozilla/5.0 (Windows NT 10.0; Win64; x64; rv:126.0) Gecko/20100101 Firefox/126.0'',
     ''Mozilla/5.0 (Windows NT 10.0; Win64; x64; rv:125.0) Gecko/20100101 Firefox/125.0'',
     ''Mozilla/5.0 (Macintosh; Intel Mac OS X 10.15; rv:126.0) Gecko/20100101 Firefox/126.0'',
     ''Mozilla/5.0 (Macintosh; Intel Mac OS X 10_15_7) AppleWebKit/605.1.15 (KHTML, like Gecko) Version/17.5 Safari/605.1.15'',
     ''Mozilla/5.0 (Windows NT 10.0; Win64; x64) AppleWebKit/537.36 (KHTML, like Gecko) Chrome/125.0.0.0 Safari/537.36 Edg/125.0.0.0'']"

definition Intn :: "nat \<Rightarrow> nat \<Rightarrow> nat" where
  "Intn rnd n = rnd mod n"

definition RandomUserAgent :: "nat \<Rightarrow> string" where
  "RandomUserAgent rnd = userAgents ! Intn rnd (length userAgents)"

record user_agent_pool =
  up_agents :: "string list"
  up_index :: nat

definition NewUserAgentPool :: user_agent_pool where
  "NewUserAgentPool = \<lparr>up_agents = userAgents, up_index = 0\<rparr>"

definition Next :: "user_agent_pool \<Rightarrow> string \<times> user_agent_pool" where
  "Next p = (up_agents p ! up_index p, p\<lparr>up_index := (up_index p + 1) mod length (up_agents p)\<rparr>)"

definition pool_Random :: "nat \<Rightarrow> user_agent_pool \<Rightarrow> string" where
  "pool_Random rnd p = up_agents p ! Intn rnd (length (up_agents p))"

definition pool_ok :: "user_agent_pool \<Rightarrow> bool" where
  "pool_ok p \<longleftrightarrow> up_index p < length (up_agents p)"

fun take_agents :: "nat \<Rightarrow> user_agent_pool \<Rightarrow> string list" where
  "take_agents 0 p = []"
| "take_agents (Suc n) p = (let (ua, p') = Next p in ua # take_agents n p')"

lemma pool_ok_New: "pool_ok NewUserAgentPool"
  by (simp add: pool_ok_def NewUserAgentPool_def userAgents_def)

lemma pool_ok_Next: "pool_ok p \<Longrightarrow> pool_ok (snd (Next p))"
  unfolding pool_ok_def Next_def by (cases "length (up_agents p)") simp_all

lemma Next_round_robin:
  "pool_ok p \<Longrightarrow> take_agents n p = map (\<lambda>i. up_agents p ! ((up_index p + i) mod length (up_agents p))) [0..<n]"
proof (induction n arbitrary: p)
  case (Suc n)
  have eq: "(up_index (snd (Next p)) + i) mod length (up_agents p) = (up_index p + Suc i) mod length (up_agents p)" for i
    by (simp add: Next_def mod_simps)
  have "up_agents (snd (Next p)) = up_agents p" by (simp add: Next_def)
  then have "take_agents n (snd (Next p)) = map (\<lambda>i. up_agents p ! ((up_index p + Suc i) mod length (up_agents p))) [0..<n]"
    using Suc.IH [OF pool_ok_Next [OF Suc.prems]] by (simp only: eq)
  moreover have "fst (Next p) = up_agents p ! ((up_index p + 0) mod length (up_agents p))" using Suc.prems by (simp add: Next_def pool_ok_def)
  ultimately show ?case by (simp add: split_def upt_conv_Cons map_Suc_upt [symmetric] comp_def del: upt_Suc)
qed simp

lemma random_agent_in_pool: "RandomUserAgent rnd \<in> set userAgents"
  unfolding RandomUserAgent_def by (rule nth_mem) (simp add: Intn_def userAgents_def)

end
