(* ===== verification/Scanner.thy ===== *)
theory Scanner
  imports Merge_Race Email Contact Enrich Useragent
begin

text \<open>
  The scan of one page, \<^verbatim>\<open>internal/scanner/scanner.go\<close>: the scanner's settings, \<^verbatim>\<open>ScanURL\<close>, the search of
  contact pages and the enrichment, composed from the detection (Detect), the extraction of
  addresses (Email), the contact links (Contact) and the look-ups (Enrich). The headless browser
  is a parameter: what it collects from a page, or its error. The two goroutines that search a
  contact page add their addresses to the result without a lock, as modelled in Merge_Race:
  the interleaving of their accesses is an argument.
\<close>

section \<open>Settings\<close>

record scanner =
  sn_db :: "technology list"
  sn_userAgent :: string
  sn_uaPool :: user_agent_pool
  sn_timeout :: duration
  sn_rotateUA :: bool
  sn_lastUA :: string
  sn_proxyURL :: string
  sn_callback :: bool

definition NewScanner :: "technology list \<Rightarrow> scanner" where
  "NewScanner db =
     \<lparr>sn_db = db, sn_userAgent = ''Mozilla/5.0 (Windows NT 10.0; Win64; x64) AppleWebKit/537.36 (KHTML, like Gecko) Chrome/125.0.0.0 Safari/537.36'',
      sn_uaPool = NewUserAgentPool, sn_timeout = 30 * second, sn_rotateUA = False, sn_lastUA = '''', sn_proxyURL = '''', sn_callback = False\<rparr>"

definition SetUserAgent :: "string \<Rightarrow> scanner \<Rightarrow> scanner" where
  "SetUserAgent ua s = s\<lparr>sn_userAgent := ua, sn_rotateUA := False\<rparr>"

definition EnableUARotation :: "scanner \<Rightarrow> scanner" where
  "EnableUARotation s = s\<lparr>sn_rotateUA := True\<rparr>"

definition SetTimeout :: "duration \<Rightarrow> scanner \<Rightarrow> scanner" where
  "SetTimeout d s = s\<lparr>sn_timeout := d\<rparr>"

definition SetProxy :: "string \<Rightarrow> scanner \<Rightarrow> scanner" where
  "SetProxy url s = s\<lparr>sn_proxyURL := url\<rparr>"

definition GetLastUserAgent :: "scanner \<Rightarrow> string" where
  "GetLastUserAgent s = sn_lastUA s"

definition getUserAgent :: "nat \<Rightarrow> scanner \<Rightarrow> string \<times> scanner" where
  "getUserAgent rnd s =
     (let ua = (if sn_rotateUA s then pool_Random rnd (sn_uaPool s) else sn_userAgent s) in (ua, s\<lparr>sn_lastUA := ua\<rparr>))"

record progress =
  pr_JobID :: string
  pr_Phase :: string
  pr_Progress :: int
  pr_Message :: string
  pr_Partial :: "tech_result list"

definition emitProgress :: "scanner \<Rightarrow> string \<Rightarrow> string \<Rightarrow> int \<Rightarrow> string \<Rightarrow> tech_result list \<Rightarrow> progress list" where
  "emitProgress s jobID phase prog message partial =
     (if sn_callback s then [\<lparr>pr_JobID = jobID, pr_Phase = phase, pr_Progress = prog, pr_Message = message, pr_Partial = partial\<rparr>] else [])"

section \<open>What a scan meets\<close>

text \<open>What the browser collects: the received responses (their resource type and headers) and the
  values of the evaluated scripts.\<close>

record page =
  pg_events :: "(string \<times> (string \<times> json) list) list"
  pg_html :: string
  pg_scripts :: "string list"
  pg_cssLinks :: "string list"
  pg_metaTags :: "(string, string) gomap"
  pg_jsGlobals :: "string list"
  pg_cookies :: "string list"

text \<open>\<open>scn_Run\<close> is the first navigation, given the user agent, the time limit and the URL; \<open>scn_Nav\<close> a later
  navigation in the same browser. \<open>scn_sched url\<close> interleaves the accesses of the two goroutines
  for a contact page: at each step, whether the HTTP side goes next.\<close>

record 'u scan_env =
  scn_rx :: "string \<Rightarrow> string \<Rightarrow> bool"
  scn_dec :: "string \<Rightarrow> json option"
  scn_Run :: "string \<Rightarrow> duration \<Rightarrow> string \<Rightarrow> string + page"
  scn_Nav :: "string \<Rightarrow> string option"
  scn_urls :: "'u url_lib"
  scn_Hostname :: "'u \<Rightarrow> string"
  scn_client :: http_client
  scn_sched :: "string \<Rightarrow> bool list"
  scn_rnd :: nat
  scn_rnd_page :: "string \<Rightarrow> nat"
  scn_start :: time
  scn_end :: time
  scn_dns_order :: "string list"
  scn_doh :: doh_env
  scn_rdap :: rdap_env
  scn_dial :: "string \<Rightarrow> string + connection_state"
  scn_suite :: "nat \<Rightarrow> string"
  scn_now :: time

text \<open>\<^verbatim>\<open>headerMap\<close>: the string headers of the last document.\<close>

definition header_event :: "(string, string) gomap option \<Rightarrow> string \<times> (string \<times> json) list \<Rightarrow> (string, string) gomap option" where
  "header_event hm ev =
     (if fst ev = ''Document''
      then Some (foldl (\<lambda>m kv. case snd kv of JStr v \<Rightarrow> gm_put (fst kv) v m | _ \<Rightarrow> m) [] (snd ev))
      else hm)"

definition parse_headers :: "(string, string) gomap option \<Rightarrow> (string, string) gomap" where
  "parse_headers hm = (case hm of None \<Rightarrow> [] | Some m \<Rightarrow> foldl (\<lambda>hs kv. gm_put (CanonicalHeaderKey (fst kv)) (snd kv) hs) [] m)"

section \<open>Contact pages\<close>

definition http_emails :: "'u scan_env \<Rightarrow> string \<Rightarrow> string \<Rightarrow> string list" where
  "http_emails se ua url =
     (case FetchContactPage (scn_client se) url ua of
        Inl err \<Rightarrow> []
      | Inr body \<Rightarrow> if body = '''' then [] else ExtractEmails (scn_dec se) body)"

definition nav_emails :: "'u scan_env \<Rightarrow> string \<Rightarrow> string list" where
  "nav_emails se url =
     (case scn_Nav se url of
        None \<Rightarrow> []
      | Some newHTML \<Rightarrow> if newHTML = '''' then [] else ExtractEmails (scn_dec se) newHTML)"

text \<open>The loop over the candidates: whether it returned before the end of the list, the addresses,
  and the scanner.\<close>

fun crawl_loop :: "'u scan_env \<Rightarrow> string list \<Rightarrow> string list \<Rightarrow> scanner \<Rightarrow> bool \<times> string list \<times> scanner" where
  "crawl_loop se [] emails s = (False, emails, s)"
| "crawl_loop se (pageURL # rest) emails s =
     (if length emails > 0 then (True, emails, s)
      else let (ua, s') = getUserAgent (scn_rnd_page se pageURL) s in
        crawl_loop se rest
          (merge_race (scn_sched se pageURL) emails (http_emails se ua pageURL) (nav_emails se pageURL)) s')"

definition crawlForEmails :: "'u scan_env \<Rightarrow> string \<Rightarrow> scanner \<Rightarrow> scan_result \<Rightarrow> scan_result \<times> progress list \<times> scanner" where
  "crawlForEmails se jobID s result =
     (let candidates = FindContactPages (scn_urls se) (sr_HTML result) (sr_URL result) in
      if length candidates = 0 then (result, [], s)
      else
        let p1 = emitProgress s jobID ''detecting'' 95 ''Searching contact pages for emails'' [];
            (returned, emails, s') = crawl_loop se candidates (sr_Emails result) s;
            p2 = (if \<not> returned \<and> length emails > 0
                  then emitProgress s jobID ''detecting'' 96 (''Found '' @ Itoa (int (length emails)) @ '' email(s) via contact pages'') [] else [])
        in (result\<lparr>sr_Emails := emails\<rparr>, p1 @ p2, s'))"

section \<open>Enrichment\<close>

definition extractHost :: "'u scan_env \<Rightarrow> string \<Rightarrow> string" where
  "extractHost se rawURL = (case ul_Parse (scn_urls se) rawURL of None \<Rightarrow> '''' | Some u \<Rightarrow> scn_Hostname se u)"

definition enrichResult :: "'u scan_env \<Rightarrow> scan_result \<Rightarrow> scan_result" where
  "enrichResult se result =
     (let host = extractHost se (sr_URL result) in
      if host = '''' then result
      else
        let domain = rootDomain host;
            r1 = (if domain = '''' then result
                  else result\<lparr>sr_DNS := Some (QueryDNS (scn_doh se) (scn_dns_order se) domain),
                              sr_WHOIS := Some (QueryWHOIS (scn_rdap se) (scn_now se) (scn_now se) domain)\<rparr>);
            r2 = r1\<lparr>sr_SSL := Some (QuerySSL (scn_dial se) (scn_suite se) (scn_now se) host)\<rparr>
        in r2\<lparr>sr_Perf := Some (computePerfMetrics (sr_HTML r2) (sr_Scripts r2) (sr_CSSLinks r2) (int (length (sr_HTML r2)))
                (sr_ScanDuration r2) (sr_ScanDuration r2) (sr_MetaTags r2))\<rparr>)"

section \<open>The scan\<close>

definition collected :: "'u scan_env \<Rightarrow> string \<Rightarrow> page \<Rightarrow> scan_result" where
  "collected se url pg =
     (empty_scan url)\<lparr>sr_HTML := pg_html pg, sr_Headers := parse_headers (foldl header_event None (pg_events pg)),
        sr_Scripts := pg_scripts pg, sr_CSSLinks := pg_cssLinks pg, sr_MetaTags := pg_metaTags pg, sr_JSGlobals := pg_jsGlobals pg,
        sr_Cookies := pg_cookies pg, sr_ScanDuration := scn_end se - scn_start se\<rparr>"

definition ScanURL :: "'u scan_env \<Rightarrow> string \<Rightarrow> string \<Rightarrow> scanner \<Rightarrow> scan_result \<times> progress list \<times> scanner" where
  "ScanURL se jobID url s0 =
     (let (ua, s) = getUserAgent (scn_rnd se) s0;
          p1 = emitProgress s jobID ''fetching'' 20 ''Opening page in headless browser'' [] in
      case scn_Run se ua (sn_timeout s) url of
        Inl err \<Rightarrow> ((empty_scan url)\<lparr>sr_Error := Some err, sr_ScanDuration := scn_end se - scn_start se\<rparr>, p1, s)
      | Inr pg \<Rightarrow>
          let result = collected se url pg;
              p2 = emitProgress s jobID ''parsing'' 60 ''Parsing HTML, scripts, and JS globals'' [];
              result1 = result\<lparr>sr_Results := detect (scn_rx se) (sn_db s) result\<rparr>;
              p3 = emitProgress s jobID ''detecting'' 90 (''Matched '' @ Itoa (int (length (sr_Results result1))) @ '' technologies'') (sr_Results result1);
              result2 = result1\<lparr>sr_Emails := ExtractEmails (scn_dec se) (sr_HTML result1)\<rparr>;
              (result3, p4, s') =
                (if length (sr_Emails result2) > 0
                 then (result2, emitProgress s jobID ''detecting'' 95 (''Found '' @ Itoa (int (length (sr_Emails result2))) @ '' email(s)'') [], s)
                 else crawlForEmails se jobID s result2)
          in (enrichResult se result3, p1 @ p2 @ p3 @ p4, s'))"

section \<open>What a scan returns\<close>

lemma page_emails_ok: "emails_ok (http_emails se ua url)" "emails_ok (nav_emails se url)"
proof -
  have "emails_ok []" by (simp add: emails_ok_def)
  then show "emails_ok (http_emails se ua url)" "emails_ok (nav_emails se url)"
    unfolding http_emails_def nav_emails_def using ExtractEmails_ok by (auto split: sum.splits option.splits)
qed

text \<open>What the two searches of a contact page find. Without a race, because one of them found
  nothing, a page adds exactly that, and the crawl stops at the first page with an address.\<close>

definition page_emails :: "'u scan_env \<Rightarrow> scanner \<Rightarrow> string \<Rightarrow> string list" where
  "page_emails se s p = http_emails se (fst (getUserAgent (scn_rnd_page se p) s)) p @ nav_emails se p"

definition race_free :: "'u scan_env \<Rightarrow> scanner \<Rightarrow> string \<Rightarrow> bool" where
  "race_free se s p \<longleftrightarrow> http_emails se (fst (getUserAgent (scn_rnd_page se p) s)) p = [] \<or> nav_emails se p = []"

fun first_found :: "'a list list \<Rightarrow> 'a list" where
  "first_found [] = []"
| "first_found (xs # xss) = (if xs \<noteq> [] then xs else first_found xss)"

lemma isValidEmail_nonempty: "\<not> isValidEmail ''''"
  by (simp add: isValidEmail_def)

lemma merge_empty: "emails_ok es \<Longrightarrow> foldl mergeUnique [] es = es"
  using foldl_mergeUnique_distinct [of "[]" es] isValidEmail_nonempty by (auto simp: emails_ok_def)

lemma race_free_merge:
  "race_free se s p \<Longrightarrow> merge_race sch [] (http_emails se (fst (getUserAgent (scn_rnd_page se p) s)) p) (nav_emails se p) = page_emails se s p"
  using page_emails_ok [THEN merge_empty] by (auto simp: race_free_def page_emails_def merge_race_first merge_race_second)

lemma same_user_agent:
  "fst (getUserAgent r (snd (getUserAgent r' s))) = fst (getUserAgent r s)"
  "page_emails se (snd (getUserAgent r' s)) = page_emails se s" "race_free se (snd (getUserAgent r' s)) = race_free se s"
  by (auto simp: getUserAgent_def page_emails_def race_free_def Let_def fun_eq_iff)

lemma crawl_loop_done: "es \<noteq> [] \<Longrightarrow> fst (snd (crawl_loop se urls es s)) = es"
  by (cases urls) auto

lemma crawl_loop_exact:
  "(\<And>p. p \<in> set urls \<Longrightarrow> race_free se s p) \<Longrightarrow> fst (snd (crawl_loop se urls [] s)) = first_found (map (page_emails se s) urls)"
proof (induction urls arbitrary: s)
  case (Cons p urls)
  let ?s = "snd (getUserAgent (scn_rnd_page se p) s)"
  have l: "crawl_loop se (p # urls) [] s = crawl_loop se urls (page_emails se s p) ?s"
    using race_free_merge [OF Cons.prems [OF list.set_intros(1)]] by (simp add: split_def Let_def)
  show ?case
  proof (cases "page_emails se s p = []")
    case True
    then show ?thesis using Cons.IH [of ?s] Cons.prems l by (simp add: same_user_agent)
  next
    case False
    then show ?thesis using l crawl_loop_done by simp
  qed
qed simp

lemma crawlForEmails_exact:
  assumes "sr_Emails r = []" "\<And>p. p \<in> set (FindContactPages (scn_urls se) (sr_HTML r) (sr_URL r)) \<Longrightarrow> race_free se s p"
  shows "sr_Emails (fst (crawlForEmails se jobID s r)) = first_found (map (page_emails se s) (FindContactPages (scn_urls se) (sr_HTML r) (sr_URL r)))"
  using crawl_loop_exact [OF assms(2)] assms(1) by (simp add: crawlForEmails_def Let_def split_def)

lemma first_found_ok: "(\<And>xs. xs \<in> set xss \<Longrightarrow> emails_ok xs) \<Longrightarrow> emails_ok (first_found xss)"
  by (induction xss) (auto simp: emails_ok_def)

lemma race_free_ok: "race_free se s p \<Longrightarrow> emails_ok (page_emails se s p)"
  using page_emails_ok by (auto simp: race_free_def page_emails_def)

lemma enrich_keeps:
  "sr_Emails (enrichResult se r) = sr_Emails r \<and> sr_Results (enrichResult se r) = sr_Results r \<and> sr_Error (enrichResult se r) = sr_Error r \<and>
   sr_URL (enrichResult se r) = sr_URL r \<and> sr_HTML (enrichResult se r) = sr_HTML r"
  by (simp add: enrichResult_def Let_def)

lemma ScanURL_emails:
  assumes "scn_Run se (fst (getUserAgent (scn_rnd se) s)) (sn_timeout s) url = Inr pg"
  shows "ExtractEmails (scn_dec se) (pg_html pg) \<noteq> [] \<Longrightarrow> sr_Emails (fst (ScanURL se jobID url s)) = ExtractEmails (scn_dec se) (pg_html pg)"
    and "ExtractEmails (scn_dec se) (pg_html pg) = [] \<Longrightarrow> (\<And>p. p \<in> set (FindContactPages (scn_urls se) (pg_html pg) url) \<Longrightarrow> race_free se s p) \<Longrightarrow>
      sr_Emails (fst (ScanURL se jobID url s)) = first_found (map (page_emails se s) (FindContactPages (scn_urls se) (pg_html pg) url))"
proof -
  obtain ua s1 where ua: "getUserAgent (scn_rnd se) s = (ua, s1)" by (rule prod.exhaust)
  have s1: "sn_timeout s1 = sn_timeout s" "sn_db s1 = sn_db s" using ua by (auto simp: getUserAgent_def Let_def)
  let ?c = "collected se url pg"
  let ?r = "?c\<lparr>sr_Results := detect (scn_rx se) (sn_db s) ?c, sr_Emails := ExtractEmails (scn_dec se) (pg_html pg)\<rparr>"
  have c: "sr_HTML ?c = pg_html pg" "sr_URL ?c = url" by (simp_all add: collected_def empty_scan_def)
  note su = same_user_agent(2,3) [of se "scn_rnd se" s, unfolded ua snd_conv]
  show "sr_Emails (fst (ScanURL se jobID url s)) = ExtractEmails (scn_dec se) (pg_html pg)" if "ExtractEmails (scn_dec se) (pg_html pg) \<noteq> []"
    using assms that by (simp add: ScanURL_def Let_def ua s1 c enrich_keeps)
  assume e: "ExtractEmails (scn_dec se) (pg_html pg) = []" and rf: "\<And>p. p \<in> set (FindContactPages (scn_urls se) (pg_html pg) url) \<Longrightarrow> race_free se s p"
  have "sr_Emails (fst (ScanURL se jobID url s)) = sr_Emails (fst (crawlForEmails se jobID s1 ?r))"
    using assms e by (simp add: ScanURL_def Let_def ua s1 c enrich_keeps split_def)
  also have "\<dots> = first_found (map (page_emails se s1) (FindContactPages (scn_urls se) (sr_HTML ?r) (sr_URL ?r)))"
    by (rule crawlForEmails_exact) (use e rf c su in simp_all)
  finally show "sr_Emails (fst (ScanURL se jobID url s)) = first_found (map (page_emails se s) (FindContactPages (scn_urls se) (pg_html pg) url))"
    using c su by simp
qed

text \<open>C23: The addresses of a scan. When the browser loads the page and the page shows addresses, the
  result holds exactly those that the extraction finds in it. When it shows none and on every
  contact page at most one of the two searches finds something, the result holds what was
  found on the first contact page with an address, and nothing when there is none. In both
  cases they are at most twenty, all different, in lower case, valid and not noise. (When
  both searches find something on the same page they race for the list; nothing is claimed
  then.)\<close>

theorem scan_emails_wellformed:
  assumes "scn_Run se (fst (getUserAgent (scn_rnd se) s)) (sn_timeout s) url = Inr pg"
    and "ExtractEmails (scn_dec se) (pg_html pg) \<noteq> [] \<or> (\<forall>p \<in> set (FindContactPages (scn_urls se) (pg_html pg) url). race_free se s p)"
  shows "let es = sr_Emails (fst (ScanURL se jobID url s)); own = ExtractEmails (scn_dec se) (pg_html pg) in
     es = (if own \<noteq> [] then own else first_found (map (page_emails se s) (FindContactPages (scn_urls se) (pg_html pg) url))) \<and>
     distinct es \<and> length es \<le> 20 \<and> set es \<subseteq> {e. isValidEmail e \<and> \<not> isEmailNoise e \<and> ToLower e = e}"
proof -
  let ?ps = "FindContactPages (scn_urls se) (pg_html pg) url"
  have "emails_ok (first_found (map (page_emails se s) ?ps))" if "\<forall>p \<in> set ?ps. race_free se s p"
    by (rule first_found_ok) (use that race_free_ok in auto)
  then show ?thesis
    using ScanURL_emails [OF assms(1), of jobID] assms(2) ExtractEmails_ok [of "scn_dec se" "pg_html pg"]
    by (auto simp: emails_ok_def Let_def)
qed

text \<open>A browser that loads a blank page, and nothing else on the network.\<close>

definition blank_page :: page where
  "blank_page = \<lparr>pg_events = [], pg_html = ''<html></html>'', pg_scripts = [], pg_cssLinks = [], pg_metaTags = [], pg_jsGlobals = [], pg_cookies = []\<rparr>"

definition demo_scan_env :: "string scan_env" where
  "demo_scan_env =
     \<lparr>scn_rx = (\<lambda>p i. False), scn_dec = (\<lambda>d. None), scn_Run = (\<lambda>ua d u. Inr blank_page), scn_Nav = (\<lambda>u. None), scn_urls = demo_urls,
      scn_Hostname = (\<lambda>u. ''h''), scn_client = \<lparr>hc_NewRequest = (\<lambda>u. None), hc_Do = (\<lambda>red u h. Inl ''down'')\<rparr>,
      scn_sched = (\<lambda>u. []), scn_rnd = 0, scn_rnd_page = (\<lambda>u. 0), scn_start = 0, scn_end = 5, scn_dns_order = record_types, scn_doh = demo_doh,
      scn_rdap = \<lparr>rp_NewRequest = (\<lambda>u. None), rp_Do = (\<lambda>red u. Inl ''down''), rp_ParseRFC3339 = (\<lambda>s. None)\<rparr>,
      scn_dial = (\<lambda>h. Inl ''down''), scn_suite = (\<lambda>n. ''''), scn_now = 0\<rparr>"

lemma demo_contact_page: "FindContactPages demo_urls demo_page ''/'' = [''/help'']"
  by code_simp

lemma demo_no_address: "ExtractEmails (\<lambda>d. None) demo_page = []"
  by code_simp

lemma demo_address: "ExtractEmails (\<lambda>d. None) ''mail a@b.com now'' = [''a@b.com'']"
  by code_simp

text \<open>The witness: a page without an address and with a contact link, whose page shows one to the
  browser while the plain fetch fails.\<close>

theorem scan_emails_wellformed_witness:
  "sr_Emails (fst (ScanURL (demo_scan_env\<lparr>scn_Run := (\<lambda>ua d u. Inr (blank_page\<lparr>pg_html := demo_page\<rparr>)), scn_Nav := (\<lambda>u. Some ''mail a@b.com now'')\<rparr>) ''j'' ''/'' (NewScanner [])))
     = [''a@b.com'']"
proof -
  let ?pg = "blank_page\<lparr>pg_html := demo_page\<rparr>"
  let ?se = "demo_scan_env\<lparr>scn_Run := (\<lambda>ua d u. Inr ?pg), scn_Nav := (\<lambda>u. Some ''mail a@b.com now'')\<rparr>"
  have d: "scn_dec ?se = (\<lambda>d. None)" "scn_urls ?se = demo_urls" by (simp_all add: demo_scan_env_def)
  have h: "http_emails ?se ua p = []" for ua p by (simp add: http_emails_def FetchContactPage_def demo_scan_env_def)
  have n: "nav_emails ?se p = [''a@b.com'']" for p by (simp add: nav_emails_def d demo_address)
  have "let es = sr_Emails (fst (ScanURL ?se ''j'' ''/'' (NewScanner []))); own = ExtractEmails (scn_dec ?se) (pg_html ?pg) in
     es = (if own \<noteq> [] then own else first_found (map (page_emails ?se (NewScanner [])) (FindContactPages (scn_urls ?se) (pg_html ?pg) ''/''))) \<and>
     distinct es \<and> length es \<le> 20 \<and> set es \<subseteq> {e. isValidEmail e \<and> \<not> isEmailNoise e \<and> ToLower e = e}"
    by (rule scan_emails_wellformed) (simp_all add: race_free_def h)
  then show ?thesis by (simp add: Let_def d demo_no_address demo_contact_page page_emails_def h n)
qed

lemma crawl_keeps:
  "fst (crawlForEmails se jobID s r) = r\<lparr>sr_Emails := sr_Emails (fst (crawlForEmails se jobID s r))\<rparr>"
  by (simp add: crawlForEmails_def Let_def split_def)

lemma crawl_progress:
  "map pr_Progress (fst (snd (crawlForEmails se jobID s r))) \<in> {[], [95], [95, 96]} \<and> pr_JobID ` set (fst (snd (crawlForEmails se jobID s r))) \<subseteq> {jobID}"
  by (simp add: crawlForEmails_def emitProgress_def Let_def split_def)

lemma ScanURL_outcome:
  "let (r, ps, s') = ScanURL se jobID url s; ua = fst (getUserAgent (scn_rnd se) s) in
   sr_URL r = url \<and> sorted (map pr_Progress ps) \<and> set (map pr_Progress ps) \<subseteq> {20..96} \<and> set (map pr_JobID ps) \<subseteq> {jobID} \<and>
   (case scn_Run se ua (sn_timeout s) url of
      Inl err \<Rightarrow> r = (empty_scan url)\<lparr>sr_Error := Some err, sr_ScanDuration := scn_end se - scn_start se\<rparr>
    | Inr pg \<Rightarrow> sr_Error r = None \<and> sr_HTML r = pg_html pg \<and> sr_Results r = detect (scn_rx se) (sn_db s) (collected se url pg))"
proof -
  obtain ua s1 where ua: "getUserAgent (scn_rnd se) s = (ua, s1)" by fastforce
  have s1: "sn_timeout s1 = sn_timeout s" "sn_db s1 = sn_db s" using ua by (auto simp: getUserAgent_def Let_def)
  show ?thesis
  proof (cases "scn_Run se ua (sn_timeout s) url")
    case (Inl err)
    then show ?thesis by (simp add: ScanURL_def ua s1 Let_def empty_scan_def emitProgress_def)
  next
    case (Inr pg)
    let ?c = "collected se url pg"
    have h: "sr_HTML ?c = pg_html pg" "sr_URL ?c = url" "sr_Error ?c = None" by (simp_all add: collected_def empty_scan_def)
    let ?r = "?c\<lparr>sr_Results := detect (scn_rx se) (sn_db s) ?c\<rparr>"
    show ?thesis
    proof (cases "ExtractEmails (scn_dec se) (pg_html pg)")
      case Nil
      obtain r3 p4 s' where c: "crawlForEmails se jobID s1 (?r\<lparr>sr_Emails := []\<rparr>) = (r3, p4, s')" by (cases "crawlForEmails se jobID s1 (?r\<lparr>sr_Emails := []\<rparr>)") auto
      have r3: "r3 = ?r\<lparr>sr_Emails := sr_Emails r3\<rparr>" using crawl_keeps [of se jobID s1 "?r\<lparr>sr_Emails := []\<rparr>"] c by simp
      have f: "sr_URL r3 = url" "sr_Error r3 = None" "sr_HTML r3 = pg_html pg" "sr_Results r3 = detect (scn_rx se) (sn_db s) ?c"
        by (subst r3; simp add: h)+
      have p4: "map pr_Progress p4 \<in> {[], [95], [95, 96]}" "pr_JobID ` set p4 \<subseteq> {jobID}" using crawl_progress [of se jobID s1 "?r\<lparr>sr_Emails := []\<rparr>"] c by auto
      have "set (map pr_Progress p4) \<subseteq> {90..96} \<and> sorted (map pr_Progress p4)" using p4(1) by (elim insertE emptyE) (simp_all only:, simp_all)
      then have bounds: "set (map pr_Progress p4) \<subseteq> {20..96}" "\<forall>x \<in> set p4. 90 \<le> pr_Progress x" "sorted (map pr_Progress p4)" by auto
      show ?thesis
        using Inr Nil f p4(2) bounds by (auto simp: ScanURL_def Let_def ua s1 c h enrich_keeps emitProgress_def)
    next
      case (Cons e es)
      then show ?thesis using Inr by (simp add: ScanURL_def Let_def ua s1 h enrich_keeps emitProgress_def)
    qed
  qed
qed

text \<open>The outcome of a scan. When the browser fails, the result carries its error and nothing else;
  otherwise there is no error, the page is the one the browser loaded, and the technologies are
  those that the detection finds in it. Progress is reported for this job only, in ascending
  order, from 20 and never beyond 96.\<close>

theorem scan_outcome:
  "let (r, ps, s') = ScanURL se jobID url s; ua = fst (getUserAgent (scn_rnd se) s) in
   sr_URL r = url \<and> sorted (map pr_Progress ps) \<and> set (map pr_Progress ps) \<subseteq> {20..96} \<and> set (map pr_JobID ps) \<subseteq> {jobID} \<and>
   (case scn_Run se ua (sn_timeout s) url of
      Inl err \<Rightarrow> r = (empty_scan url)\<lparr>sr_Error := Some err, sr_ScanDuration := scn_end se - scn_start se\<rparr>
    | Inr pg \<Rightarrow> sr_Error r = None \<and> sr_HTML r = pg_html pg \<and> sr_Results r = detect (scn_rx se) (sn_db s) (collected se url pg))"
  by (rule ScanURL_outcome)

end
