(* ===== verification/Server_Main.thy ===== *)
theory Server_Main
  imports Api Scanner
begin

text \<open>
  The server program, \<^verbatim>\<open>cmd/server/main.go\<close>: how the components are created and connected, the
  bridge from the scanner's progress to the WebSocket hub, the refresh of the gauges, and the
  shutdown. The parsed flags are a record; what the files contain and what the environment
  holds are inputs. Printing and the socket itself are left out. The components are objects
  with addresses and hold the addresses of the objects they use; the views of the queue, of
  the API server and of the scheduler read the states that the other theories work on
  through these addresses.
\<close>

section \<open>Start\<close>

text \<open>The flags that the components depend on; the address, the time limits and the path of the browser
  go to the HTTP server and to the browser.\<close>

record server_flags =
  sf_webDir :: string
  sf_workers :: int
  sf_uaRotate :: bool
  sf_proxyURL :: string
  sf_cacheTTL :: duration
  sf_cachePath :: string
  sf_usersPath :: string
  sf_schedPath :: string

text \<open>\<open>be_auth\<close> is the environment of the authentication (with \<^verbatim>\<open>STACKLY_NO_AUTH\<close>), \<open>be_jwt\<close> the JWT secret,
  \<open>be_keys\<close> and \<open>be_basic\<close> the variables with users; the files are those of the flags' paths.\<close>

record boot_env =
  be_load :: "string + database"
  be_codec :: "scan_result cache_codec"
  be_cache_file :: "string option"
  be_now :: time
  be_sha :: "string \<Rightarrow> string"
  be_clock :: "nat \<Rightarrow> time"
  be_decode_users :: "string \<Rightarrow> user option list option"
  be_keys :: string
  be_basic :: string
  be_users_file :: "string option"
  be_jwt :: string
  be_sched_codec :: sched_codec
  be_sched_read :: file_read
  be_auth :: auth_env

text \<open>The objects that the program allocates. They refer to each other by pointers: an address is
  the position of an object among those of its type, and two components share an object when
  they hold the same address.\<close>

record queue_object =
  qo_queue :: job_queue
  qo_workers :: "worker list"
  qo_scanner :: addr
  qo_cache :: addr
  qo_hub :: addr

record auth_object =
  ao_auth :: auth
  ao_store :: addr

record server_object =
  so_queue :: addr
  so_cache :: addr
  so_auth :: addr
  so_userStore :: addr
  so_hub :: addr
  so_sched :: "addr option"
  so_webDir :: string
  so_db :: database

record sched_object =
  co_sched :: Scheduler.scheduler
  co_store :: addr
  co_scanner :: addr

record system =
  sy_scanners :: "scanner list"
  sy_callback :: "addr option"
  sy_caches :: "scan_result cache list"
  sy_hubs :: "hub list"
  sy_queues :: "queue_object list"
  sy_stores :: "auth_store list"
  sy_auths :: "auth_object list"
  sy_servers :: "server_object list"
  sy_schedStores :: "sched_store list"
  sy_scheds :: "sched_object list"
  sy_metrics :: "metric_op list"

text \<open>The local variables of \<^verbatim>\<open>main\<close> that hold them.\<close>

record main_vars =
  mv_s :: addr
  mv_c :: addr
  mv_hub :: addr
  mv_q :: addr
  mv_store :: addr
  mv_auth :: addr
  mv_server :: addr
  mv_schedStore :: addr
  mv_sched :: addr

definition no_objects :: system where
  "no_objects = \<lparr>sy_scanners = [], sy_callback = None, sy_caches = [], sy_hubs = [], sy_queues = [], sy_stores = [], sy_auths = [],
     sy_servers = [], sy_schedStores = [], sy_scheds = [], sy_metrics = []\<rparr>"

datatype fatal = LoadFingerprints string | LoadUsers store_error | LoadSchedules sched_error

definition configure_scanner :: "server_flags \<Rightarrow> database \<Rightarrow> scanner" where
  "configure_scanner fl db =
     (let s1 = SetTimeout (45 * second) (NewScanner (db_Technologies db));
          s2 = (if sf_uaRotate fl then EnableUARotation s1 else s1)
      in if sf_proxyURL fl \<noteq> '''' then SetProxy (sf_proxyURL fl) s2 else s2)"

text \<open>The scanner, the cache, the hub and the queue. The scanner gets its callback, which
  publishes to the hub, after the queue's workers are started, so the workers' first scans
  may run without it; the system after the start has it.\<close>

definition boot_scanning :: "boot_env \<Rightarrow> server_flags \<Rightarrow> database \<Rightarrow> system \<Rightarrow> (addr \<times> addr \<times> addr \<times> addr) \<times> system" where
  "boot_scanning be fl db sy =
     (let s = length (sy_scanners sy); c = length (sy_caches sy); hub = length (sy_hubs sy); q = length (sy_queues sy);
          w = queue_init (sf_workers fl) None;
          sy1 = sy\<lparr>sy_scanners := sy_scanners sy @ [configure_scanner fl db]\<rparr>;
          sy2 = sy1\<lparr>sy_caches := sy_caches sy1 @ [NewCache (be_codec be) (be_now be) (sf_cacheTTL fl) (sf_cachePath fl) (be_cache_file be)]\<rparr>;
          sy3 = sy2\<lparr>sy_hubs := sy_hubs sy2 @ [NewHub]\<rparr>;
          sy4 = sy3\<lparr>sy_queues := sy_queues sy3 @ [\<lparr>qo_queue = qw_q w, qo_workers = qw_workers w, qo_scanner = s, qo_cache = c, qo_hub = hub\<rparr>]\<rparr>;
          sy5 = sy4\<lparr>sy_scanners := (sy_scanners sy4)[s := (sy_scanners sy4 ! s)\<lparr>sn_callback := True\<rparr>], sy_callback := Some hub\<rparr>
      in ((s, c, hub, q), sy5))"

definition boot :: "boot_env \<Rightarrow> server_flags \<Rightarrow> fatal + (main_vars \<times> system)" where
  "boot be fl =
     (case be_load be of
        Inl err \<Rightarrow> Inl (LoadFingerprints err)
      | Inr db \<Rightarrow>
          let ((s, c, hub, q), sy1) = boot_scanning be fl db no_objects in
          (case NewStore (be_sha be) (be_clock be) (be_now be) (be_decode_users be) (be_keys be) (be_basic be) (sf_usersPath fl) (be_users_file be) of
             Inl err \<Rightarrow> Inl (LoadUsers err)
           | Inr users \<Rightarrow>
               let store = length (sy_stores sy1); a = length (sy_auths sy1); srv = length (sy_servers sy1);
                   sy2 = sy1\<lparr>sy_stores := sy_stores sy1 @ [users]\<rparr>;
                   sy3 = sy2\<lparr>sy_auths := sy_auths sy2 @ [\<lparr>ao_auth = auth_New users (be_jwt be), ao_store = store\<rparr>]\<rparr>;
                   sy4 = sy3\<lparr>sy_servers := sy_servers sy3 @ [\<lparr>so_queue = q, so_cache = c, so_auth = a, so_userStore = store, so_hub = hub,
                              so_sched = None, so_webDir = sf_webDir fl, so_db = db\<rparr>]\<rparr> in
               (case sched_NewStore (be_sched_codec be) (be_sched_read be) (sf_schedPath fl) of
                  Inl err \<Rightarrow> Inl (LoadSchedules err)
                | Inr scheds \<Rightarrow>
                    let schedStore = length (sy_schedStores sy4); sched = length (sy_scheds sy4);
                        sy5 = sy4\<lparr>sy_schedStores := sy_schedStores sy4 @ [scheds]\<rparr>;
                        sy6 = sy5\<lparr>sy_scheds := sy_scheds sy5 @ [\<lparr>co_sched = Scheduler.New scheds, co_store = schedStore, co_scanner = s\<rparr>]\<rparr>;
                        sy7 = sy6\<lparr>sy_servers := (sy_servers sy6)[srv := (sy_servers sy6 ! srv)\<lparr>so_sched := Some schedStore\<rparr>]\<rparr>;
                        enabled = Enabled (be_auth be) (auth_New users (be_jwt be))
                    in Inr (\<lparr>mv_s = s, mv_c = c, mv_hub = hub, mv_q = q, mv_store = store, mv_auth = a, mv_server = srv,
                             mv_schedStore = schedStore, mv_sched = sched\<rparr>,
                            sy7\<lparr>sy_metrics := [MSet ''AuthEnabled'' (if enabled then 1 else 0), MSet ''BuildInfo'' 1]\<rparr>))))"

text \<open>What a component sees through its pointers: the world of the queue's workers, the state
  that the handlers of the API work on, and that of the scheduler.\<close>

definition queue_view :: "system \<Rightarrow> addr \<Rightarrow> queue_world" where
  "queue_view sy q =
     (let ob = sy_queues sy ! q
      in \<lparr>qw_q = qo_queue ob, qw_cache = Some (sy_caches sy ! qo_cache ob), qw_workers = qo_workers ob, qw_log = []\<rparr>)"

definition auth_view :: "system \<Rightarrow> addr \<Rightarrow> auth" where
  "auth_view sy a = (let ob = sy_auths sy ! a in (ao_auth ob)\<lparr>a_store := Some (sy_stores sy ! ao_store ob)\<rparr>)"

definition server_view :: "system \<Rightarrow> addr \<Rightarrow> server" where
  "server_view sy srv =
     (let ob = sy_servers sy ! srv
      in \<lparr>sv_queue = qo_queue (sy_queues sy ! so_queue ob), sv_cache = Some (sy_caches sy ! so_cache ob), sv_auth = auth_view sy (so_auth ob),
          sv_hub = sy_hubs sy ! so_hub ob, sv_fingerprints = so_db ob, sv_sched = map_option (\<lambda>a. sy_schedStores sy ! a) (so_sched ob),
          sv_webDir = so_webDir ob\<rparr>)"

definition sched_view :: "system \<Rightarrow> addr \<Rightarrow> Scheduler.scheduler" where
  "sched_view sy a = (let ob = sy_scheds sy ! a in (co_sched ob)\<lparr>sd_store := sy_schedStores sy ! co_store ob\<rparr>)"

section \<open>Progress, gauges, shutdown\<close>

text \<open>\<^verbatim>\<open>s.ProgressCallback\<close>: the event published for a progress report.\<close>

definition progress_callback :: "progress \<Rightarrow> string \<times> event" where
  "progress_callback p =
     (pr_JobID p,
      \<lparr>e_Type = ''progress'', e_JobID = '''', e_Status = pr_Phase p, e_Progress = pr_Progress p, e_Message = pr_Message p,
       e_Techs = map (\<lambda>r. \<lparr>dt_Slug = t_Slug (tr_Technology r), dt_Name = t_Name (tr_Technology r),
                           dt_Category = t_Category (tr_Technology r), dt_Confidence = tr_Confidence r\<rparr>) (pr_Partial p),
       e_Error = '''', e_TS = ''''\<rparr>)"

definition publish_progress :: "time \<Rightarrow> progress list \<Rightarrow> hub \<Rightarrow> hub option" where
  "publish_progress now ps h =
     foldl (\<lambda>oh p. case oh of None \<Rightarrow> None | Some h' \<Rightarrow> Publish now (fst (progress_callback p)) (snd (progress_callback p)) h') (Some h) ps"

text \<open>\<^verbatim>\<open>update\<close> of \<^verbatim>\<open>refreshGauges\<close>. The comparison with the zero value of \<^verbatim>\<open>cache.Stats\<close>.\<close>

definition zero_stats :: cache_stats where
  "zero_stats = \<lparr>cs_Size = 0, cs_Valid = 0, cs_Hits = 0, cs_Misses = 0, cs_HitRate = 0, cs_TTL = 0\<rparr>"

definition update_gauges :: "(nat \<Rightarrow> time) \<Rightarrow> job_queue \<Rightarrow> scan_result cache \<Rightarrow> metric_op list" where
  "update_gauges clock q c =
     (let stats = queue_Stats q; cs = cache_Stats clock c in
      MSet ''QueueDepth'' (int (qs_Pending stats + qs_Running stats)) #
      (if cs \<noteq> zero_stats then [MSet ''CacheSize'' (int (cs_Size cs))] else []))"

text \<open>After the HTTP server has shut down: the queue is stopped, then the deferred calls run in
  reverse order, the schedule store before the user store. The scheduler is not stopped. The
  deferred calls run even when \<^verbatim>\<open>Stop\<close> of the queue panics; the first component says whether it did.\<close>

definition shutdown ::
  "sched_codec \<Rightarrow> atomic_outcome \<Rightarrow> (user list \<Rightarrow> string) \<Rightarrow> write_outcome \<Rightarrow> string option \<Rightarrow> main_vars \<Rightarrow> system \<Rightarrow> bool \<times> system \<times> string option"
where
  "shutdown sc oc encode w disk mv sy =
     (let q = sy_queues sy ! mv_q mv;
          (panics, sy1) = (case queue_Stop (qo_queue q) of
              None \<Rightarrow> (True, sy)
            | Some q' \<Rightarrow> (False, sy\<lparr>sy_queues := (sy_queues sy)[mv_q mv := q\<lparr>qo_queue := q'\<rparr>]\<rparr>));
          st = snd (Close sc oc (sy_schedStores sy1 ! mv_schedStore mv));
          (users, disk') = Auth_Store.Stop encode w (sy_stores sy1 ! mv_store mv, disk)
      in (panics, sy1\<lparr>sy_schedStores := (sy_schedStores sy1)[mv_schedStore mv := st], sy_stores := (sy_stores sy1)[mv_store mv := users]\<rparr>, disk'))"

section \<open>The system after the start\<close>

lemma sched_NewStore_inv:
  assumes "sched_NewStore sc read path = Inr s"
    and "\<And>data schs lg. read = Content data \<Longrightarrow> sc_dec sc data = Some (schs, lg) \<Longrightarrow> length lg \<le> 100"
  shows "sched_inv s"
proof (cases read)
  case (Content data)
  then obtain schs lg where d: "sc_dec sc data = Some (schs, lg)"
    using assms(1) by (auto simp: sched_NewStore_def store_load_def split: option.splits)
  let ?s0 = "(newStore path (Some data))\<lparr>ss_schedules := [], ss_heap := []\<rparr>"
  have "sched_inv (foldl load_schedule ?s0 schs)"
    using load_view [of ?s0 schs] by (simp add: sched_inv_def view_def newStore_def gm.wf_empty gm.get_empty fun_eq_iff)
  moreover have "s = (foldl load_schedule ?s0 schs)\<lparr>ss_log := lg\<rparr>"
    using assms(1) Content d by (simp add: sched_NewStore_def store_load_def)
  ultimately show ?thesis using assms(2) [OF Content d] by (simp add: sched_inv_def sched_at_def)
qed (use assms in \<open>auto simp: sched_NewStore_def store_load_def newStore_def sched_inv_def gm.wf_empty\<close>)

text \<open>The components are connected. When the program gets past its three fatal errors, the API server
  holds the addresses of the workers' queue and of their cache, of the hub to which the queue
  and the scanner's callback publish, of the users that the authentication checks and of
  the schedules that the scheduler runs, and the scheduler scans with the queue's scanner.
  What they see through these addresses satisfies the components' invariants. (The cache
  file and the schedule file, if any, must have been written by this program.)\<close>

theorem booted_system_ok:
  assumes "boot be fl = Inr (mv, sy)" "file_ok (be_codec be) (sf_cacheTTL fl) (be_cache_file be)"
    and "\<And>data schs lg. be_sched_read be = Content data \<Longrightarrow> sc_dec (be_sched_codec be) data = Some (schs, lg) \<Longrightarrow> length lg \<le> 100"
  shows "let srv = sy_servers sy ! mv_server mv; q = sy_queues sy ! mv_q mv; sched = sy_scheds sy ! mv_sched mv in
     so_queue srv = mv_q mv \<and> so_cache srv = qo_cache q \<and> so_hub srv = qo_hub q \<and> sy_callback sy = Some (qo_hub q) \<and>
     ao_store (sy_auths sy ! so_auth srv) = so_userStore srv \<and> so_sched srv = Some (co_store sched) \<and> co_scanner sched = qo_scanner q \<and>
     queue_inv (queue_view sy (mv_q mv)) \<and> cache_inv (be_codec be) (sy_caches sy ! qo_cache q) \<and> hub_inv (sy_hubs sy ! qo_hub q) \<and>
     users_ok (sy_stores sy ! so_userStore srv) \<and> sched_ok (sched_view sy (mv_sched mv)) \<and> pool_ok (sn_uaPool (sy_scanners sy ! qo_scanner q))"
proof -
  obtain db store st where b: "be_load be = Inr db"
      "NewStore (be_sha be) (be_clock be) (be_now be) (be_decode_users be) (be_keys be) (be_basic be) (sf_usersPath fl) (be_users_file be) = Inr store"
      "sched_NewStore (be_sched_codec be) (be_sched_read be) (sf_schedPath fl) = Inr st"
    using assms(1) by (auto simp: boot_def boot_scanning_def Let_def split: sum.splits)
  have "sched_inv st" by (rule sched_NewStore_inv [OF b(3) assms(3)])
  then have sched: "sched_ok (Scheduler.New st)" by (rule New_ok)
  have pool: "pool_ok (sn_uaPool (configure_scanner fl db))"
    using pool_ok_New by (simp add: configure_scanner_def SetTimeout_def EnableUARotation_def SetProxy_def NewScanner_def Let_def)
  have hub: "hub_inv NewHub" by (simp add: NewHub_def hub_inv_def registry_ok_def replay_ok_def addrs_ok_def)
  let ?c = "NewCache (be_codec be) (be_now be) (sf_cacheTTL fl) (sf_cachePath fl) (be_cache_file be)"
  have queue: "queue_inv \<lparr>qw_q = qw_q (queue_init (sf_workers fl) None), qw_cache = Some ?c, qw_workers = qw_workers (queue_init (sf_workers fl) None), qw_log = []\<rparr>"
    using queue_init_inv [of "sf_workers fl" "Some ?c"] by (simp add: queue_init_def)
  have store: "(Scheduler.New st)\<lparr>sd_store := st\<rparr> = Scheduler.New st" by (simp add: Scheduler.New_def)
  show ?thesis
    using assms(1) b queue NewCache_inv [OF assms(2)] NewStore_ok [OF b(2)] sched store pool hub
    by (auto simp: boot_def boot_scanning_def no_objects_def queue_view_def sched_view_def Let_def)
qed

text \<open>So a job that the API adds to its queue is one that the workers see.\<close>

lemma boot_shares_queue:
  assumes "boot be fl = Inr (mv, sy)"
  shows "qw_q (queue_view (sy\<lparr>sy_queues := (sy_queues sy)[so_queue (sy_servers sy ! mv_server mv) := ob]\<rparr>) (mv_q mv)) = qo_queue ob"
  using assms by (auto simp: boot_def boot_scanning_def no_objects_def queue_view_def Let_def split: sum.splits)

section \<open>From the browser to the job\<close>

text \<open>C10: The result of a job. When a worker processes a job that is not in the cache with the scanner, the
  job ends as failed with the browser's error when the browser failed, and otherwise as
  completed with the technologies detected in the page that the browser loaded for the job's
  URL and with the addresses that the page shows, if it shows any. (Addresses of contact
  pages are looked for only when it shows none.)\<close>

theorem scanned_job_outcome:
  assumes "a < length (q_heap q)" "pe_result pe = fst (ScanURL se (j_ID (job_at q a)) (j_URL (job_at q a)) s)"
    and "\<And>c. cache = Some c \<Longrightarrow> fst (Get cc (pe_lookup pe) (j_URL (job_at q a)) c) = None"
    and "processJob cc pe a q cache = (effs, q', cache')"
  shows "case scn_Run se (fst (getUserAgent (scn_rnd se) s)) (sn_timeout s) (j_URL (job_at q a)) of
       Inl err \<Rightarrow> j_Status (job_at q' a) = StatusFailed \<and> j_Error (job_at q' a) = err
     | Inr pg \<Rightarrow> j_Status (job_at q' a) = StatusCompleted \<and>
         (\<exists>r. j_Result (job_at q' a) = Some r \<and> sr_HTML r = pg_html pg \<and>
            sr_Results r = detect (scn_rx se) (sn_db s) (collected se (j_URL (job_at q a)) pg) \<and>
            (ExtractEmails (scn_dec se) (pg_html pg) \<noteq> [] \<longrightarrow> sr_Emails r = ExtractEmails (scn_dec se) (pg_html pg)))"
proof -
  let ?r = "pe_result pe" and ?j = "job_at q a"
  obtain ps s' where scan: "ScanURL se (j_ID ?j) (j_URL ?j) s = (?r, ps, s')" using assms(2) by (cases "ScanURL se (j_ID ?j) (j_URL ?j) s") auto
  have job: "j_Status (job_at q' a) = (case sr_Error ?r of Some err \<Rightarrow> StatusFailed | None \<Rightarrow> StatusCompleted) \<and>
      (case sr_Error ?r of Some err \<Rightarrow> j_Error (job_at q' a) = err | None \<Rightarrow> j_Result (job_at q' a) = Some ?r)"
    using assms(1,3,4)
    by (auto simp: processJob_def start_job_def finish_scan_def job_at_def set_job_def Let_def split_def split: option.splits prod.splits)
  show ?thesis
    using ScanURL_outcome [of se "j_ID ?j" "j_URL ?j" s] ScanURL_emails(1) [of se s "j_URL ?j" _ "j_ID ?j"] job scan
    by (auto simp: Let_def empty_scan_def split: sum.splits)
qed

theorem scanned_job_outcome_witness:
  "\<exists>effs q' cache'. processJob demo_codec
       \<lparr>pe_started = 1, pe_lookup = 1, pe_hit = 1, pe_times = (2, 2, 2, 2), pe_result = fst (ScanURL demo_scan_env ''j'' ''http://h/'' (NewScanner [])), pe_ua = '''', pe_write = WriteOk\<rparr>
       0 (snd (snd (Enqueue 0 0 ''j'' ''http://h/'' (NewJobQueue 2)))) None = (effs, q', cache') \<and>
     j_Status (job_at q' 0) = StatusCompleted \<and> (\<exists>r. j_Result (job_at q' 0) = Some r \<and> sr_Results r = [])"
proof -
  let ?pe = "\<lparr>pe_started = 1, pe_lookup = 1, pe_hit = 1, pe_times = (2, 2, 2, 2), pe_result = fst (ScanURL demo_scan_env ''j'' ''http://h/'' (NewScanner [])), pe_ua = '''', pe_write = WriteOk\<rparr>"
  let ?q = "snd (snd (Enqueue 0 0 ''j'' ''http://h/'' (NewJobQueue 2)))"
  have q: "0 < length (q_heap ?q)" "j_ID (job_at ?q 0) = ''j''" "j_URL (job_at ?q 0) = ''http://h/''"
    by (simp_all add: Enqueue_def NewJobQueue_def job_at_def gm_len_def Let_def pending_cap_def)
  obtain effs q' cache' where p: "processJob demo_codec ?pe 0 ?q None = (effs, q', cache')" by (cases "processJob demo_codec ?pe 0 ?q None") auto
  have "pe_result ?pe = fst (ScanURL demo_scan_env (j_ID (job_at ?q 0)) (j_URL (job_at ?q 0)) (NewScanner []))" by (simp only: q process_env.select_convs)
  then show ?thesis
    using scanned_job_outcome [OF q(1) _ _ p, of demo_scan_env "NewScanner []"] p
    by (auto simp: demo_scan_env_def detect_def NewScanner_def)
qed

end
