(* ===== verification/Cli.thy ===== *)
theory Cli
  imports Scanner Go_Format
begin

text \<open>
  The command-line scanner, \<^verbatim>\<open>cmd/techstack/main.go\<close>. The parsed flags are a record; \<open>cli_main\<close> gives the
  exit code, what is printed on standard output and what on standard error. Printed text is a
  byte string; the box characters are the bytes of their UTF-8 encoding. The loops over maps
  print in the order of first occurrence here, which Go leaves open. The JSON encoder's
  output is represented by the value it is given.
\<close>

section \<open>Characters of the layout\<close>

definition double_bar :: string where
  "double_bar = concat (replicate 63 [CHR 0xE2, CHR 0x95, CHR 0x90])"

definition corner :: string where
  "corner = [CHR 0xE2, CHR 0x94, CHR 0x8C, CHR 0xE2, CHR 0x94, CHR 0x80, CHR 0xE2, CHR 0x94, CHR 0x80]"

definition vbar :: string where
  "vbar = [CHR 0xE2, CHR 0x94, CHR 0x82]"

definition bullet :: string where
  "bullet = [CHR 0xE2, CHR 0x80, CHR 0xA2]"

definition arrow :: string where
  "arrow = [CHR 0xE2, CHR 0x86, CHR 0x92]"

definition check_mark :: string where
  "check_mark = [CHR 0xE2, CHR 0x9C, CHR 0x93]"

definition cross_mark :: string where
  "cross_mark = [CHR 0xE2, CHR 0x9C, CHR 0x97]"

definition em_dash :: string where
  "em_dash = [CHR 0xE2, CHR 0x80, CHR 0x94]"

definition line :: "string \<Rightarrow> string" where
  "line s = s @ [CHR 0x0A]"

text \<open>\<^verbatim>\<open>%v\<close> of a slice of strings.\<close>

definition show_strings :: "string list \<Rightarrow> string" where
  "show_strings xs = ''['' @ Join xs '' '' @ '']''"

section \<open>Output\<close>

definition by_category :: "tech_result list \<Rightarrow> (string, tech_result list) gomap" where
  "by_category rs =
     foldl (\<lambda>cats res. let c = t_Category (tr_Technology res) in
        gm_put c ((case gm_get cats c of Some l \<Rightarrow> l | None \<Rightarrow> []) @ [res]) cats) [] rs"

definition tech_line :: "tech_result \<Rightarrow> string" where
  "tech_line res =
     line (vbar @ ''  '' @ bullet @ '' '' @ t_Name (tr_Technology res) @
       (if tr_Confidence res > 100 then '' (confidence: '' @ Itoa (tr_Confidence res) @ '')'' else ''''))"

definition category_block :: "string \<times> tech_result list \<Rightarrow> string" where
  "category_block cr = line (corner @ '' '' @ fst cr) @ concat (map tech_line (snd cr)) @ line vbar"

definition page_data :: "scan_result \<Rightarrow> string" where
  "page_data r =
     line '''' @ line ''Collected page data:'' @
     line (''  HTML length:    '' @ Itoa (int (length (sr_HTML r))) @ '' bytes'') @
     line (''  Scripts:        '' @ Itoa (int (length (sr_Scripts r)))) @
     line (''  CSS links:      '' @ Itoa (int (length (sr_CSSLinks r)))) @
     line (''  Meta tags:      '' @ Itoa (int (gm_len (sr_MetaTags r)))) @
     line (''  JS globals:     '' @ Itoa (int (length (sr_JSGlobals r))) @ '' ('' @ show_strings (sr_JSGlobals r) @ '')'') @
     line (''  Cookies:        '' @ Itoa (int (length (sr_Cookies r)))) @
     line (''  Headers:        '' @ Itoa (int (gm_len (sr_Headers r)))) @
     line ([CHR 0x0A] @ ''  Response headers:'') @
     concat (map (\<lambda>kv. line (''    '' @ fst kv @ '': '' @ snd kv)) (sr_Headers r))"

definition outputText :: "scan_result \<Rightarrow> bool \<Rightarrow> string" where
  "outputText r showData =
     line '''' @ line double_bar @ line ('' Scan Results: '' @ sr_URL r) @
     line ('' Duration: '' @ duration_String (duration_Round (sr_ScanDuration r) millisecond)) @ line double_bar @ line '''' @
     (if length (sr_Results r) = 0 then line ''No technologies detected.''
      else
        concat (map category_block (by_category (sr_Results r))) @
        (let implied = GetImplied (sr_Results r) in
         if length implied > 0
         then line (corner @ '' Implied'') @ concat (map (\<lambda>slug. line (vbar @ ''  '' @ arrow @ '' '' @ slug)) implied) @ line vbar
         else '''') @
        line double_bar @
        (if showData then page_data r else ''''))"

text \<open>A slice that was never appended to is encoded as \<^verbatim>\<open>null\<close>.\<close>

definition json_slice :: "json list \<Rightarrow> json" where
  "json_slice xs = (if xs = [] then JNull else JArr xs)"

definition json_detected :: "tech_result \<Rightarrow> json" where
  "json_detected res =
     JObj [(''technology'', JStr (t_Name (tr_Technology res))), (''slug'', JStr (t_Slug (tr_Technology res))),
           (''category'', JStr (t_Category (tr_Technology res))), (''confidence'', JNum (tr_Confidence res)),
           (''matches'', json_slice (map (\<lambda>m. JStr (''['' @ m_Type m @ ''] '' @ m_Rule m)) (tr_Matches res)))]"

definition outputJSON :: "scan_result \<Rightarrow> json" where
  "outputJSON r =
     JObj [(''url'', JStr (sr_URL r)), (''duration'', JStr (duration_String (sr_ScanDuration r))),
           (''detected'', json_slice (map json_detected (sr_Results r))),
           (''implied'', json_slice (map JStr (GetImplied (sr_Results r))))]"

section \<open>The program\<close>

record cli_flags =
  cf_fingerprints :: string
  cf_url :: string
  cf_json :: bool
  cf_timeout :: duration
  cf_data :: bool
  cf_list :: bool
  cf_categories :: bool

datatype cli_out = Printed string | Encoded json | Usage

definition list_technologies :: "technology list \<Rightarrow> string" where
  "list_technologies techs =
     line ''Known technologies:'' @
     concat (map (\<lambda>t. line (''  ['' @ t_Category t @ ''] '' @ t_Slug t @ '' '' @ em_dash @ '' '' @ t_Name t)) techs)"

definition count_category :: "(string, int) gomap \<Rightarrow> technology \<Rightarrow> (string, int) gomap" where
  "count_category cats t =
     gm_put (t_Category t) ((case gm_get cats (t_Category t) of Some n \<Rightarrow> n | None \<Rightarrow> 0) + 1) cats"

definition list_categories :: "technology list \<Rightarrow> string" where
  "list_categories techs =
     line ''Categories:'' @ concat (map (\<lambda>kv. line (''  '' @ fst kv @ '': '' @ Itoa (snd kv))) (foldl count_category [] techs))"

text \<open>The exit code, standard output and standard error. \<open>load\<close> is the outcome of \<^verbatim>\<open>fingerprint.Load\<close>, an
  error being its message, and \<open>scan\<close> is \<^verbatim>\<open>ScanURL\<close> of a scanner with the given settings.\<close>

definition cli_main ::
  "(string \<Rightarrow> string + database) \<Rightarrow> (scanner \<Rightarrow> string \<Rightarrow> scan_result) \<Rightarrow> cli_flags \<Rightarrow> int \<times> cli_out list \<times> string"
where
  "cli_main load scan fl =
     (case load (cf_fingerprints fl) of
        Inl err \<Rightarrow> (1, [], line (''Error loading fingerprints: '' @ err))
      | Inr db \<Rightarrow>
          let techs = db_Technologies db;
              e1 = line (check_mark @ '' Loaded '' @ Itoa (int (length techs)) @ '' technologies from '' @ cf_fingerprints fl) in
          if cf_list fl then (0, [Printed (list_technologies techs)], e1)
          else if cf_categories fl then (0, [Printed (list_categories techs)], e1)
          else if cf_url fl = '''' then (1, [Usage], e1)
          else
            let s = SetTimeout (cf_timeout fl) (NewScanner techs);
                e2 = line (arrow @ '' Scanning '' @ cf_url fl @ '' ...'');
                result = scan s (cf_url fl) in
            (case sr_Error result of
               Some err \<Rightarrow> (1, [], e1 @ e2 @ line (cross_mark @ '' Error: '' @ err))
             | None \<Rightarrow>
                 (0, [if cf_json fl then Encoded (outputJSON result) else Printed (outputText result (cf_data fl))],
                  e1 @ e2 @ line (check_mark @ '' Done in '' @ duration_String (sr_ScanDuration result)))))"

section \<open>What it prints\<close>

lemma by_category_get:
  "gm_wf (by_category rs) \<and> gm_get (by_category rs) c =
     (let l = filter (\<lambda>r. t_Category (tr_Technology r) = c) rs in if l = [] then None else Some l)"
proof (induction rs rule: rev_induct)
  case Nil
  then show ?case by (simp add: by_category_def gm.wf_empty gm.get_empty)
next
  case (snoc r rs)
  have step: "by_category (rs @ [r]) = gm_put (t_Category (tr_Technology r))
      ((case gm_get (by_category rs) (t_Category (tr_Technology r)) of Some l \<Rightarrow> l | None \<Rightarrow> []) @ [r]) (by_category rs)"
    by (simp add: by_category_def Let_def)
  show ?case
  proof (cases "t_Category (tr_Technology r) = c")
    case True
    then show ?thesis using snoc unfolding step by (auto simp: gm.wf_put gm.get_put Let_def)
  next
    case False
    then show ?thesis using snoc unfolding step by (auto simp: gm.wf_put gm.get_put Let_def)
  qed
qed

text \<open>The command line. The exit code is 0 exactly when the fingerprints load and either a listing
  is asked for or a URL is given whose scan has no error; and with JSON output the technologies
  printed are those of the scan, in its order, with the implied ones that were not detected.\<close>

theorem cli_exit_code:
  "(fst (cli_main load scan fl) = 0 \<longleftrightarrow>
     (\<exists>db. load (cf_fingerprints fl) = Inr db \<and> (cf_list fl \<or> cf_categories fl \<or>
        (cf_url fl \<noteq> '''' \<and> sr_Error (scan (SetTimeout (cf_timeout fl) (NewScanner (db_Technologies db))) (cf_url fl)) = None)))) \<and>
   (Encoded j \<in> set (fst (snd (cli_main load scan fl))) \<longleftrightarrow>
     (\<exists>db r. load (cf_fingerprints fl) = Inr db \<and> \<not> cf_list fl \<and> \<not> cf_categories fl \<and> cf_url fl \<noteq> '''' \<and> cf_json fl \<and>
        r = scan (SetTimeout (cf_timeout fl) (NewScanner (db_Technologies db))) (cf_url fl) \<and> sr_Error r = None \<and>
        j = JObj [(''url'', JStr (sr_URL r)), (''duration'', JStr (duration_String (sr_ScanDuration r))),
                  (''detected'', json_slice (map json_detected (sr_Results r))),
                  (''implied'', json_slice (map JStr (GetImplied (sr_Results r))))]))"
  by (auto simp: cli_main_def outputJSON_def Let_def split: sum.splits option.splits)

end
