(* ===== verification/Spec2Isabelle.thy ===== *)
theory Spec2Isabelle
  imports Server_Main Cli
begin

text \<open>
  \<^bold>\<open>A verification library for Stackly\<close>, a web technology scanner with an HTTP API. The program loads a
  database of fingerprints, opens pages in a headless browser, and reports which technologies a
  page uses, with contact addresses and enrichment data. It serves an API with users, quotas and
  rate limits, queues scans, caches their results, streams progress over WebSockets, runs
  scheduled scans and delivers their results to webhooks.

  \<^bold>\<open>The parts and how they work together.\<close> A request passes the metrics, CORS and authentication
  middleware and reaches a handler through the multiplexer. \<^verbatim>\<open>POST /api/scan\<close> validates the URL,
  charges the user's quota and puts a job into the queue. A worker takes the job, answers it from
  the cache or calls the scanner, stores the result, and publishes events to the hub, whose
  subscribers are WebSocket clients. Independently a ticker starts the due schedules; each run
  scans, records its outcome in the schedule store, and dispatches a signed webhook with retries.

  \<^bold>\<open>Theories, by layer.\<close>
  \<^item> Prelude, Go_Map, Go_Strings, Go_Time, Go_Format, Go_Base64, Go_Regexp: what the program uses of
    Go. A map is an association list with distinct keys whose order stands for the iteration
    order, a string is a list of bytes, a time is a number of nanoseconds, an \<^verbatim>\<open>int\<close> that can
    overflow is wrapped at 64 bits, a regular expression is matched leftmost-first.
    Bounded_Log and Exchange_Sort hold two patterns that several components share.
  \<^item> Auth_Store, Auth_Limiter, Auth_Middleware: \<^verbatim>\<open>internal/auth\<close>. Users and monthly quotas, the token
    bucket, credentials (API key, Basic, JWT) and the middleware.
  \<^item> Http: requests, responses and the helpers of \<^verbatim>\<open>net/http\<close>.
  \<^item> Cache: \<^verbatim>\<open>internal/cache\<close>. The result cache with its persistence file.
  \<^item> Hub: \<^verbatim>\<open>internal/ws\<close>. Subscriptions, replay buffers, delivery, the WebSocket endpoint and its pump.
  \<^item> Scan_Types, Detect: \<^verbatim>\<open>internal/fingerprint\<close> and the detection of \<^verbatim>\<open>internal/scanner/scanner.go\<close>.
  \<^item> Email, Contact, Enrich, Useragent, Merge_Race, Scanner: the rest of \<^verbatim>\<open>internal/scanner\<close>. Addresses,
    contact pages, DNS, RDAP, certificate and page metrics, user agents, the unlocked list that
    the two searches of a contact page fill, and \<^verbatim>\<open>ScanURL\<close>, which composes them.
  \<^item> Queue: \<^verbatim>\<open>internal/queue\<close>. Jobs, workers, clean-up.
  \<^item> Sched_Validate, Sched_Store, Webhook, Scheduler: \<^verbatim>\<open>internal/scheduler\<close>. URL checks against
    internal addresses, the schedule store, delivery, the ticker and its runs.
  \<^item> Report: \<^verbatim>\<open>internal/report\<close>. The printable page.
  \<^item> Api_Schedules, Api: \<^verbatim>\<open>internal/api\<close> and the middleware of \<^verbatim>\<open>internal/metrics\<close>. Every handler, the
    routing and the whole chain.
  \<^item> Server_Main, Cli: the two programs under \<^verbatim>\<open>cmd\<close>. The server's components are created as objects
    with addresses, so that which of them share a store, a queue or a hub can be stated.
  \<^item> This theory holds the properties of the server as a whole.

  \<^bold>\<open>How the code is represented.\<close> A struct is a record whose fields carry a prefix, an enumeration a
  datatype, a method a function that takes and returns the state, an error an \<open>option\<close> or the left
  side of a sum, a panic a value of its own. Jobs, schedules and subscribers, which the code
  shares through pointers, live in a heap list and are referred to by address, so that aliasing
  is visible. Code between two lock operations is one function. Goroutines are step relations
  over these functions (\<open>cache_step\<close>, \<open>hub_step\<close>, \<open>queue_step\<close>, \<open>sched_step\<close>): every interleaving is
  a path, and invariants are carried along paths by the locale \<open>kept_by_steps\<close>. The two searches of
  a contact page, which share a slice without a lock, step access by access under a schedule
  (\<open>merge_race\<close>). A handler that takes a lock twice is split there where a theorem depends on it
  (\<open>create_check\<close>, \<open>create_commit\<close>). Clock readings,
  random identifiers, the outcome of file operations and the answers of the network are
  arguments. Code that is not in the repository is a parameter with its documented laws as
  hypotheses: JSON codecs, SHA-256 and HMAC, JWT verification, the URL and address parsers, the
  resolver, the HTTP and TLS clients, the browser.

  \<^bold>\<open>Interfaces.\<close> The locale \<open>finite_map\<close> is the contract of Go maps (interpretation \<open>gm\<close>);
  \<open>bounded_log\<close> that of a log that keeps its newest entries (the hub's replay buffers, the delivery
  log); \<open>rank_order\<close> that of the comparison given to the exchange sort (job list, contact links);
  \<open>keyed_store\<close> that of the schedule store; \<open>kept_by_steps\<close> that of an invariant of a step relation
  (cache, hub, queue, abandoned jobs, scheduler).

  \<^bold>\<open>What is shown.\<close>
  \<^item> Access: non-public paths need credentials; an accepted scan was authorised, validated and
    charged to the user's record, if the store has one; the user list is for administrators,
    of the store or by a token's claim; tenants cannot see or change each other's schedules;
    Basic users of the environment can log in.
  \<^item> Limits: quotas are exact within a period, the rate limiter admits at most burst and refill,
    the cache holds at most 5000 entries, the queue 1000 jobs, a subscriber 32 events, ten
    dispatches run at a time.
  \<^item> Correct results: detection equals its reference definition; addresses found are exactly those
    of the language of the expression and of the JSON structure; a scan reports those of the page
    or, without a race, those of the first contact page that has some; a processed job holds what
    the detection finds in the page of its URL; DNS results do not depend on timing; the best
    contact pages are chosen; the cache returns what was stored; scanned text cannot inject
    markup into the report.
  \<^item> Life cycles: jobs move one way, no schedule runs twice at a time, due schedules are started,
    deliveries are logged once, waiting ends, restarts keep users, cache and schedules.
  \<^item> Refinement: the schedule store implements an abstract map and a bounded log; \<open>isBlockedIP\<close> is a
    list of address blocks, which leaves out some that are not public.
  \<^item> Deviations that the code has and the theorems pin down: a webhook secret is wiped on creation,
    a job that meets a full channel stays pending for ever, a scan refused by a full queue is
    charged, a publisher can send on a closed channel, the quota is open in the last hours of a
    month west of UTC and does not apply to the users of tokens, a deletion can be lost, the
    searches of a contact page can list an address twice or lose one, two requests at the same
    time can exceed the quota of schedules.

  \<^bold>\<open>Bounds and fuel.\<close> Loops are total functions with termination proofs: the polling loop of
  \<open>waitForJob\<close> takes a clock and is bounded by its deadline (\<open>waiting_ends\<close>), the pump consumes a list
  of events, the matcher recurses on the expression and the remaining text, the script loop on
  the remaining page. No fuel is used. The polling loop's result is an option, and \<open>waiting_ends\<close>
  shows that a clock that advances by the loop's own sleep gives a result.

  \<^bold>\<open>Idealisations.\<close> Floating-point numbers are exact (token bucket, days, hit rate). Lower-casing and
  white space are those of ASCII. \<^verbatim>\<open>sort.Slice\<close> is stable. Reading a pointer and writing through it are
  atomic where the code has a data race on single words. In the race for the list of
  addresses a slice header is read and written whole and accesses are sequentially
  consistent; the language promises less, so nothing is claimed for all schedules when both
  searches find something. A file write either happens or leaves on disk what its outcome
  says.

  \<^bold>\<open>Not modelled.\<close> The JavaScript evaluated in the browser and the printing of PDF pages by it (the
  browser is a parameter), the declarations of Prometheus metrics in \<^verbatim>\<open>internal/metrics/metrics.go\<close>
  (their updates appear as \<open>metric_op\<close> values), WebSocket framing and the read pump, the listening
  socket and console output of the server program, the test helper that signs tokens, and the
  static web files.
\<close>

section \<open>A concrete server\<close>


text \<open>A server with one free user, an empty queue and no cache, and a scan request of that user.\<close>

definition demo_server :: server where
  "demo_server = NewServer (NewJobQueue 2) None ''web'' demo_auth NewHub \<lparr>db_Version = '''', db_Updated = '''', db_Technologies = []\<rparr>"

definition demo_server_env :: server_env where
  "demo_server_env =
     \<lparr>se_auth = Auth_Middleware.demo_env, se_api = demo_api_env, se_hook = \<lparr>he_hmac = (\<lambda>k b. k), he_client = de_client demo_dispatch 1, he_Marshal = (\<lambda>j. '''')\<rparr>,
      se_codec = demo_codec, se_write = WriteOk, se_off = 0, se_now = 0, se_now' = 0, se_clock = (\<lambda>n. 0), se_jid = ''j1'',
      se_scan = Inr \<lparr>sq_URL = ''a.b'', sq_Wait = False, sq_Timeout = 0\<rparr>, se_create = Inl '''', se_patch = Inl '''', se_test = Inl '''',
      se_others = (\<lambda>q. q), se_result_json = (\<lambda>r. JNull), se_Print = Inr, se_upgrade = False\<rparr>"

definition demo_scan_request :: request where
  "demo_scan_request = (Auth_Middleware.demo_request ''/api/scan'' [(''X-API-Key'', ''k1'')])\<lparr>r_Method := ''POST''\<rparr>"

lemma demo_forwarded:
  "\<exists>ms a'. Middleware Auth_Middleware.demo_env 0 0 demo_scan_request demo_auth = (Forward (Some (fresh_user ''id'' ''k1'' ''k1'' ''free'' 1)), ms, a') \<and>
     a_store a' = map_option (RecordUsage 0 ''k1'') (a_store demo_auth)"
proof -
  let ?u = "fresh_user ''id'' ''k1'' ''k1'' ''free'' 1"
  have np: "\<not> is_public (r_Path demo_scan_request)" by (simp add: demo_scan_request_def Auth_Middleware.demo_request_def is_public_def HasPrefix_def)
  have au: "authenticate Auth_Middleware.demo_env demo_auth demo_scan_request = Some ?u"
    by (simp add: authenticate_def demo_auth_def auth_New_def demo_scan_request_def Auth_Middleware.demo_request_def header_Get_def gm_get_def
        AuthenticateAPIKey_def fresh_user_def or_else_def query_Get_def Let_def)
  have f: "fst (Middleware Auth_Middleware.demo_env 0 0 demo_scan_request demo_auth) = Forward (Some ?u)"
    using np au by (simp add: Middleware_def allow_def demo_auth_def auth_New_def fresh_user_def defaultRateForTier_def
        ToLower_def to_lower_char_def gm_get_def Let_def)
  moreover have "u_Key ?u = ''k1''" by (simp add: fresh_user_def)
  ultimately show ?thesis using Middleware_store [of Auth_Middleware.demo_env 0 0 demo_scan_request demo_auth]
    by (cases "Middleware Auth_Middleware.demo_env 0 0 demo_scan_request demo_auth") auto
qed

lemma demo_quota_passes:
  assumes "a_store a = map_option (RecordUsage 0 ''k1'') (a_store demo_auth)"
  shows "\<exists>hs a''. quota_gate demo_server_env (Some (fresh_user ''id'' ''k1'' ''k1'' ''free'' 1)) a = (Inr hs, a'')"
proof (cases "Enabled Auth_Middleware.demo_env a")
  case True
  then show ?thesis using assms
    by (simp add: quota_gate_def demo_server_env_def demo_auth_def auth_New_def RecordUsage_def gm_get_def gm_put_def fresh_user_def
        CheckAndIncrementQuota_def maybeResetLocked_def QuotaForTier_cases Let_def)
qed (simp add: quota_gate_def demo_server_env_def)

lemma demo_url_trimmed: "TrimSpace ''a.b'' \<noteq> ''''"
  by (simp add: TrimSpace_def TrimRightFunc_def isSpace_def)

lemma demo_url: "with_scheme (TrimSpace ''a.b'') = ''https://a.b''"
  by (simp add: with_scheme_def HasPrefix_def TrimSpace_def TrimRightFunc_def isSpace_def)

lemma demo_url_ok: "ValidateScanURL (ae_net demo_api_env) (with_scheme (TrimSpace ''a.b'')) = None"
  using public_address
  by (simp add: demo_url demo_api_env_def demo_dispatch_def ValidateScanURL_def validateURL_def MaxURLLength_def allowedSchemes_def gm_get_def
      ToLower_def to_lower_char_def resolve_def)

lemma demo_scan_accepted:
  "\<exists>resp ms sv'. Handler demo_server_env demo_scan_request demo_server = (Http (Resp resp), ms, sv') \<and> rs_Status resp = 202"
proof -
  let ?u = "fresh_user ''id'' ''k1'' ''k1'' ''free'' 1" and ?se = demo_server_env and ?r = demo_scan_request
  obtain ms a' where mw: "Middleware Auth_Middleware.demo_env 0 0 ?r demo_auth = (Forward (Some ?u), ms, a')"
    and st: "a_store a' = map_option (RecordUsage 0 ''k1'') (a_store demo_auth)" using demo_forwarded by blast
  obtain hs a'' where g: "quota_gate ?se (Some ?u) a' = (Inr hs, a'')" using demo_quota_passes [OF st] by blast
  have r: "r_Path ?r = ''/api/scan''" "r_Method ?r = ''POST''" by (simp_all add: demo_scan_request_def Auth_Middleware.demo_request_def)
  note url = demo_url and ok = demo_url_ok [unfolded demo_url] and ne = demo_url_trimmed
  let ?sv = "demo_server\<lparr>sv_auth := a'\<rparr>"
  obtain resp sv' where hs: "handleScan ?se ?r (Some ?u) ?sv = (Resp resp, sv')" "rs_Status resp = 202"
  proof -
    have "\<exists>resp sv'. enqueue_scan ?se hs \<lparr>sq_URL = ''a.b'', sq_Wait = False, sq_Timeout = 0\<rparr> ''https://a.b'' (?sv\<lparr>sv_auth := a''\<rparr>) = (Resp resp, sv') \<and> rs_Status resp = 202"
      by (simp add: enqueue_scan_def demo_server_def NewServer_def demo_server_env_def Enqueue_def NewJobQueue_def gm_len_def pending_cap_def Let_def
          Publish_def publish_locked_def NewHub_def map_slice_def gm_get_def StatusAccepted_def)
    then show thesis using that g r url ok ne
      by (auto simp: handleScan_def demo_server_env_def Let_def)
  qed
  have "auth_then_mux ?se ?r demo_server = (Http (Resp resp), ms, sv')"
    using mw mux_scan [OF r(1), of ?se "Some ?u" ?sv] hs(1)
    by (simp add: auth_then_mux_def demo_server_env_def demo_server_def NewServer_def)
  from Handler_passes [OF this] show ?thesis using hs(2) r(2) by auto
qed


text \<open>C1: Only authorised scans are accepted, end to end. While authentication is enabled, a request
  that the server as a whole answers with 202 on \<open>/api/scan\<close> was made by a vouched user with a
  decoded body whose URL passed the check against internal targets. If the store has a record
  under the user's key, as it has for the users of a consistent store, the tier is admin or
  the scans used in the running period were below the tier's limit, and afterwards the record
  counts one request and one scan more (one scan in all when the period had ended); no other
  record changes. If the store has no such record, as for the users of tokens, no quota
  applies and no record changes: their requests and scans are counted nowhere.\<close>

theorem accepted_scan_is_authorised:
  assumes "Enabled (se_auth se) (sv_auth sv)" "r_Path r = ''/api/scan''"
    and "Handler se r sv = (Http (Resp resp), ms, sv')" "rs_Status resp = 202"
  shows "\<exists>u req st st'. a_store (sv_auth sv) = Some st \<and> a_store (sv_auth sv') = Some st' \<and>
     (store_user (se_auth se) (sv_auth sv) r u \<and> (users_ok st \<longrightarrow> gm_get (as_users st) (u_Key u) = Some u)
      \<or> jwt_user (se_auth se) (sv_auth sv) r u) \<and>
     se_scan se = Inr req \<and> ValidateScanURL (ae_net (se_api se)) (with_scheme (TrimSpace (sq_URL req))) = None \<and>
     scan_charged (se_now se) (u_Key u) (as_users st) (as_users st')"
proof -
  have no: "r_Method r \<noteq> ''OPTIONS''" using assms(3,4) Handler_OPTIONS by fastforce
  obtain resp' ms' where a: "auth_then_mux se r sv = (Http (Resp resp'), ms', sv')" "rs_Status resp' = 202"
    using Handler_resp [OF assms(3) no] assms(4) by metis
  have st: "rs_Status resp' \<noteq> 401" "rs_Status resp' \<noteq> 429" using a(2) by simp_all
  obtain u a' where u: "fst (Middleware (se_auth se) (se_now se) (se_now' se) r (sv_auth sv)) = Forward (Some u)"
    and a': "a' = snd (snd (Middleware (se_auth se) (se_now se) (se_now' se) r (sv_auth sv)))"
    and m: "mux se r (Some u) (sv\<lparr>sv_auth := a'\<rparr>) = (Http (Resp resp'), sv')"
    and v: "store_user (se_auth se) (sv_auth sv) r u \<or> jwt_user (se_auth se) (sv_auth sv) r u"
    by (rule auth_then_mux_forwarded [OF a(1) st scan_not_public [OF assms(2)] assms(1)]) blast
  have "handleScan se r (Some u) (sv\<lparr>sv_auth := a'\<rparr>) = (Resp resp', sv')"
    using m mux_scan [OF assms(2)] by (auto split: prod.splits)
  then obtain req hs a'' where s: "se_scan se = Inr req" "ValidateScanURL (ae_net (se_api se)) (with_scheme (TrimSpace (sq_URL req))) = None"
    and g: "quota_gate se (Some u) a' = (Inr hs, a'')"
    and e: "enqueue_scan se hs req (with_scheme (TrimSpace (sq_URL req))) ((sv\<lparr>sv_auth := a'\<rparr>)\<lparr>sv_auth := a''\<rparr>) = (Resp resp', sv')"
    using a(2) by (auto elim!: handleScan_accepted)
  obtain store where store: "a_store (sv_auth sv) = Some store" "a_store a' = Some (RecordUsage (se_now' se) (u_Key u) store)"
    using Middleware_store [of "se_auth se" "se_now se" "se_now' se" r "sv_auth sv"] u a' assms(1)
    by (auto simp: Enabled_def split: if_splits option.splits)
  have en: "Enabled (se_auth se) a'" using Enabled_after [OF assms(1)] a' by simp
  obtain st' where "a_store a' = Some st'" "a'' = a'\<lparr>a_store := Some (snd (CheckAndIncrementQuota (se_off se) (se_now se) (u_Key u) st'))\<rparr>"
    "snd (fst (CheckAndIncrementQuota (se_off se) (se_now se) (u_Key u) st')) \<noteq> Some ErrQuotaExceeded"
    by (rule quota_gate_passed [OF g en]) blast
  then have "a_store (sv_auth sv') = Some (snd (CheckAndIncrementQuota (se_off se) (se_now se) (u_Key u) (RecordUsage (se_now' se) (u_Key u) store)))"
    "scan_charged (se_now se) (u_Key u) (as_users store)
       (as_users (snd (CheckAndIncrementQuota (se_off se) (se_now se) (u_Key u) (RecordUsage (se_now' se) (u_Key u) store))))"
    using store enqueue_scan_auth [OF e] check_charges by auto
  moreover have "users_ok store \<longrightarrow> gm_get (as_users store) (u_Key u) = Some u" if "store_user (se_auth se) (sv_auth sv) r u"
    using that store(1) users_ok_get by (auto simp: store_user_def)
  ultimately show ?thesis using v s store(1) by blast
qed

theorem accepted_scan_is_authorised_witness:
  "\<exists>resp ms sv' st' y. Handler demo_server_env demo_scan_request demo_server = (Http (Resp resp), ms, sv') \<and> rs_Status resp = 202 \<and>
     a_store (sv_auth sv') = Some st' \<and> gm_get (as_users st') ''k1'' = Some y \<and> u_RequestCount y = 1 \<and> u_ScanCount y = 1"
proof -
  obtain resp ms sv' where h: "Handler demo_server_env demo_scan_request demo_server = (Http (Resp resp), ms, sv')" "rs_Status resp = 202"
    using demo_scan_accepted by blast
  have p: "Enabled (se_auth demo_server_env) (sv_auth demo_server)" "r_Path demo_scan_request = ''/api/scan''"
    using demo_auth_enabled by (simp_all add: demo_server_env_def demo_server_def NewServer_def demo_scan_request_def Auth_Middleware.demo_request_def)
  have d: "se_auth demo_server_env = Auth_Middleware.demo_env" "sv_auth demo_server = demo_auth"
    by (simp_all add: demo_server_env_def demo_server_def NewServer_def)
  have nj: "\<not> jwt_user Auth_Middleware.demo_env demo_auth demo_scan_request u" for u by (simp add: jwt_user_def demo_auth_def auth_New_def)
  obtain u st st' where st: "a_store demo_auth = Some st" "a_store (sv_auth sv') = Some st'"
    and g: "users_ok st \<longrightarrow> gm_get (as_users st) (u_Key u) = Some u"
    and c: "scan_charged (se_now demo_server_env) (u_Key u) (as_users st) (as_users st')"
    using accepted_scan_is_authorised [OF p h] nj unfolding d by blast
  have s: "as_users st = [(''k1'', fresh_user ''id'' ''k1'' ''k1'' ''free'' 1)]" using st(1) by (auto simp: demo_auth_def auth_New_def)
  then have "users_ok st" by (simp add: users_ok_def keyed_def gm_wf_def fresh_user_def)
  then have k: "u_Key u = ''k1''" "u = fresh_user ''id'' ''k1'' ''k1'' ''free'' 1" using g s by (auto simp: gm_get_def split: if_splits)
  obtain y where "gm_get (as_users st') ''k1'' = Some y" "u_RequestCount y = 1" "u_ScanCount y = 1"
    using c wrap64_count [of 0] unfolding k(1) s by (auto simp: scan_charged_def used_scans_def gm_get_def fresh_user_def)
  then show ?thesis using h st(2) by blast
qed

text \<open>C32: The list of users is for administrators. While authentication is enabled, the server
  answers a request for \<open>/api/auth/users\<close> with 200 (preflight requests apart) only for a vouched
  user of the tier admin: an enabled record of the store with that tier, or the user of an
  accepted token whose claims give the tier admin. The keys it lists are redacted.\<close>

theorem user_list_is_for_admins:
  assumes "Enabled (se_auth se) (sv_auth sv)" "r_Path r = ''/api/auth/users''" "r_Method r \<noteq> ''OPTIONS''"
    and "Handler se r sv = (Http (Resp resp), ms, sv')" "rs_Status resp = 200"
  shows "\<exists>u st. (store_user (se_auth se) (sv_auth sv) r u \<or> jwt_user (se_auth se) (sv_auth sv) r u) \<and> u_Tier u = ''admin'' \<and>
     a_store (sv_auth sv') = Some st \<and> rs_Body resp = Json (JObj [(''users'', JArr (map (\<lambda>(k, x). user_json (x\<lparr>u_Key := redactKey (u_Key x)\<rparr>)) (as_users st)))])"
proof -
  obtain resp' ms' where a: "auth_then_mux se r sv = (Http (Resp resp'), ms', sv')" "rs_Status resp' = 200" "rs_Body resp' = rs_Body resp"
    using Handler_resp [OF assms(4,3)] assms(5) by metis
  have st: "rs_Status resp' \<noteq> 401" "rs_Status resp' \<noteq> 429" using a(2) by simp_all
  obtain u a' where m: "mux se r (Some u) (sv\<lparr>sv_auth := a'\<rparr>) = (Http (Resp resp'), sv')"
    and v: "store_user (se_auth se) (sv_auth sv) r u \<or> jwt_user (se_auth se) (sv_auth sv) r u"
    by (rule auth_then_mux_forwarded [OF a(1) st users_not_public [OF assms(2)] assms(1)]) blast
  have l: "handleUsersList r (Some u) (sv\<lparr>sv_auth := a'\<rparr>) = Resp resp'" "sv' = sv\<lparr>sv_auth := a'\<rparr>"
    using m mux_users [OF assms(2)] by auto
  obtain store where "u_Tier u = ''admin''" "a_store a' = Some store" "resp' = writeJSON [] StatusOK (JObj [(''users'', JArr (map user_json (AllUsers store)))])"
    using l(1) a(2) by (auto simp: handleUsersList_def method_not_allowed_def IsAdmin_def status_defs split: if_splits option.splits)
  then show ?thesis using v a(3) l(2) by (auto simp: AllUsers_def comp_def case_prod_unfold)
qed

definition admin_auth :: auth where
  "admin_auth = auth_New \<lparr>as_path = ''users.json'', as_users = [(''root'', fresh_user ''id'' ''root'' ''root'' ''admin'' 1)],
     as_dirty = False, as_stopped = False\<rparr> ''''"

theorem user_list_is_for_admins_witness:
  "\<exists>resp ms sv'. Handler demo_server_env (Auth_Middleware.demo_request ''/api/auth/users'' [(''X-API-Key'', ''root'')]) (demo_server\<lparr>sv_auth := admin_auth\<rparr>)
       = (Http (Resp resp), ms, sv') \<and> rs_Status resp = 200 \<and>
     (\<exists>u. store_user Auth_Middleware.demo_env admin_auth (Auth_Middleware.demo_request ''/api/auth/users'' [(''X-API-Key'', ''root'')]) u \<and> u_Tier u = ''admin'')"
proof -
  let ?r = "Auth_Middleware.demo_request ''/api/auth/users'' [(''X-API-Key'', ''root'')]" and ?u = "fresh_user ''id'' ''root'' ''root'' ''admin'' 1"
  let ?sv = "demo_server\<lparr>sv_auth := admin_auth\<rparr>"
  have r: "r_Path ?r = ''/api/auth/users''" "r_Method ?r = ''GET''" by (simp_all add: Auth_Middleware.demo_request_def)
  have np: "\<not> is_public (r_Path ?r)" using users_not_public [OF r(1)] .
  have au: "authenticate Auth_Middleware.demo_env admin_auth ?r = Some ?u"
    by (simp add: authenticate_def admin_auth_def auth_New_def Auth_Middleware.demo_request_def header_Get_def gm_get_def
        AuthenticateAPIKey_def fresh_user_def or_else_def query_Get_def Let_def)
  have f: "fst (Middleware Auth_Middleware.demo_env 0 0 ?r admin_auth) = Forward (Some ?u)"
    using np au by (simp add: Middleware_def allow_def admin_auth_def auth_New_def fresh_user_def defaultRateForTier_def
        ToLower_def to_lower_char_def gm_get_def Let_def)
  obtain ms a' where mw: "Middleware Auth_Middleware.demo_env 0 0 ?r admin_auth = (Forward (Some ?u), ms, a')"
    using f by (cases "Middleware Auth_Middleware.demo_env 0 0 ?r admin_auth") auto
  have "a_store a' \<noteq> None" using Middleware_store [of Auth_Middleware.demo_env 0 0 ?r admin_auth] mw by (simp add: admin_auth_def auth_New_def)
  then obtain resp where l: "handleUsersList ?r (Some ?u) (?sv\<lparr>sv_auth := a'\<rparr>) = Resp resp" "rs_Status resp = 200"
    using r by (auto simp: handleUsersList_def IsAdmin_def fresh_user_def StatusOK_def)
  have "auth_then_mux demo_server_env ?r ?sv = (Http (Resp resp), ms, ?sv\<lparr>sv_auth := a'\<rparr>)"
    using mw mux_users [OF r(1), of demo_server_env "Some ?u"] l(1) by (simp add: auth_then_mux_def demo_server_env_def)
  moreover have no: "r_Method ?r \<noteq> ''OPTIONS''" unfolding r(2) by simp
  ultimately obtain ms' where h: "Handler demo_server_env ?r ?sv = (Http (Resp (under_headers cors_headers resp)), ms', ?sv\<lparr>sv_auth := a'\<rparr>)"
    using Handler_passes by blast
  have ok: "rs_Status (under_headers cors_headers resp) = 200" using l(2) by simp
  have en: "Enabled (se_auth demo_server_env) (sv_auth ?sv)"
    by (simp add: Enabled_def demo_server_env_def Auth_Middleware.demo_env_def admin_auth_def auth_New_def AllUsers_def)
  have "\<not> jwt_user Auth_Middleware.demo_env admin_auth ?r u" for u by (simp add: jwt_user_def admin_auth_def auth_New_def)
  moreover have "\<exists>u. (store_user Auth_Middleware.demo_env admin_auth ?r u \<or> jwt_user Auth_Middleware.demo_env admin_auth ?r u) \<and> u_Tier u = ''admin''"
    using user_list_is_for_admins [OF en r(1) no h ok] by (auto simp: demo_server_env_def)
  ultimately show ?thesis using h ok by blast
qed


text \<open>C39: A scan that meets a full queue is charged. When a user with quota left asks for a scan of an
  acceptable URL and the queue is full, the answer is 503 and the user's count of scans has gone
  up by one.\<close>

theorem full_queue_still_charges:
  assumes "Enabled (se_auth se) (sv_auth sv)" "a_store (sv_auth sv) = Some st" "gm_get (as_users st) (u_Key u) = Some x"
    and "u_MonthReset x \<noteq> 0" "se_now se \<le> u_MonthReset x" "0 \<le> u_ScanCount x" "u_ScanCount x < QuotaForTier (u_Tier x)"
    and "r_Method r = ''POST''" "se_scan se = Inr req" "TrimSpace (sq_URL req) \<noteq> ''''"
    and "ValidateScanURL (ae_net (se_api se)) (with_scheme (TrimSpace (sq_URL req))) = None"
    and "fst (Enqueue (se_now se) (se_now' se) (se_jid se) (with_scheme (TrimSpace (sq_URL req))) (sv_queue sv)) = ErrQueueFull"
  shows "\<exists>resp sv' st'. handleScan se r (Some u) sv = (Resp resp, sv') \<and> rs_Status resp = 503 \<and> a_store (sv_auth sv') = Some st' \<and>
     gm_get (as_users st') (u_Key u) = Some (x\<lparr>u_ScanCount := u_ScanCount x + 1\<rparr>)"
proof -
  let ?c = "CheckAndIncrementQuota (se_off se) (se_now se) (u_Key u) st"
  note c = check_below_limit [OF assms(3-5,7,6), of "se_off se"]
  obtain i st' where ci: "?c = ((i, None), st')" using c(1) by (cases ?c) auto
  obtain hs where g: "quota_gate se (Some u) (sv_auth sv) = (Inr hs, (sv_auth sv)\<lparr>a_store := Some st'\<rparr>)"
    using assms(1,2) ci by (cases i) (auto simp: quota_gate_def)
  obtain effs q where e: "Enqueue (se_now se) (se_now' se) (se_jid se) (with_scheme (TrimSpace (sq_URL req))) (sv_queue sv) = (ErrQueueFull, effs, q)"
    using assms(12) by (metis prod.collapse)
  have "handleScan se r (Some u) sv = (Resp (writeJSON hs StatusServiceUnavailable (json_error ''queue is full'')),
      (sv\<lparr>sv_auth := (sv_auth sv)\<lparr>a_store := Some st'\<rparr>\<rparr>)\<lparr>sv_queue := q\<rparr>)"
    using assms(8-11) g e by (simp add: handleScan_def enqueue_scan_def Let_def)
  then show ?thesis using c(2) ci by (simp add: StatusServiceUnavailable_def)
qed


theorem full_queue_still_charges_witness:
  "\<exists>resp sv' st' x. handleScan demo_server_env demo_scan_request (Some (fresh_user ''id'' ''k1'' ''k1'' ''free'' 1))
       (demo_server\<lparr>sv_queue := (NewJobQueue 2)\<lparr>q_maxJobs := 0\<rparr>,
          sv_auth := demo_auth\<lparr>a_store := Some \<lparr>as_path = '''', as_users = [(''k1'', (fresh_user ''id'' ''k1'' ''k1'' ''free'' 1)\<lparr>u_MonthReset := 9\<rparr>)], as_dirty = False, as_stopped = False\<rparr>\<rparr>\<rparr>)
     = (Resp resp, sv') \<and> rs_Status resp = 503 \<and> a_store (sv_auth sv') = Some st' \<and> gm_get (as_users st') ''k1'' = Some x \<and> u_ScanCount x = 1"
proof -
  let ?u = "fresh_user ''id'' ''k1'' ''k1'' ''free'' 1"
  let ?st = "\<lparr>as_path = '''', as_users = [(''k1'', ?u\<lparr>u_MonthReset := 9\<rparr>)], as_dirty = False, as_stopped = False\<rparr>"
  let ?sv = "demo_server\<lparr>sv_queue := (NewJobQueue 2)\<lparr>q_maxJobs := 0\<rparr>, sv_auth := demo_auth\<lparr>a_store := Some ?st\<rparr>\<rparr>"
  let ?req = "\<lparr>sq_URL = ''a.b'', sq_Wait = False, sq_Timeout = 0\<rparr>"
  have en: "Enabled (se_auth demo_server_env) (sv_auth ?sv)" "a_store (sv_auth ?sv) = Some ?st"
    by (simp_all add: Enabled_def demo_server_env_def Auth_Middleware.demo_env_def demo_auth_def auth_New_def AllUsers_def)
  have u: "gm_get (as_users ?st) (u_Key ?u) = Some (?u\<lparr>u_MonthReset := 9\<rparr>)" "u_MonthReset (?u\<lparr>u_MonthReset := 9\<rparr>) \<noteq> 0"
    "se_now demo_server_env \<le> u_MonthReset (?u\<lparr>u_MonthReset := 9\<rparr>)" "0 \<le> u_ScanCount (?u\<lparr>u_MonthReset := 9\<rparr>)"
    "u_ScanCount (?u\<lparr>u_MonthReset := 9\<rparr>) < QuotaForTier (u_Tier (?u\<lparr>u_MonthReset := 9\<rparr>))"
    by (simp_all add: gm_get_def fresh_user_def demo_server_env_def QuotaForTier_cases)
  have r: "r_Method demo_scan_request = ''POST''" "se_scan demo_server_env = Inr ?req" "TrimSpace (sq_URL ?req) \<noteq> ''''"
    "ValidateScanURL (ae_net (se_api demo_server_env)) (with_scheme (TrimSpace (sq_URL ?req))) = None"
    using demo_url_ok demo_url_trimmed by (simp_all add: demo_scan_request_def Auth_Middleware.demo_request_def demo_server_env_def)
  have "fst (Enqueue (se_now demo_server_env) (se_now' demo_server_env) (se_jid demo_server_env) (with_scheme (TrimSpace (sq_URL ?req))) (sv_queue ?sv)) = ErrQueueFull"
    by (simp add: Enqueue_def cleanupLocked_def Let_def NewJobQueue_def gm_len_def gm_filter_def split: prod.splits)
  from full_queue_still_charges [OF en u r this] show ?thesis by (auto simp: fresh_user_def)
qed

end
